(* ===== verification/Prelude.thy ===== *)
theory Prelude
  imports Main "HOL-Library.Word"
begin

text \<open>
  Shared ground of the development: the result type in which every assertion failure, panic and
  invalid memory access of the C code is a value, the parts of the C language and its standard
  library the sources use (\<open>strchr\<close>, \<open>strlen\<close>, \<open>strcasecmp\<close>, decimal printing, 64-bit signed
  wrap-around, truncating division), and the generic lemmas about them.
\<close>

unbundle bit_operations_syntax

section \<open>Collections of facts\<close>

named_theorems res_simps \<open>rewriting of the result type\<close>
named_theorems dict_simps \<open>what the dictionary library promises\<close>

section \<open>Results: a value, or the way defined behaviour ends\<close>

text \<open>
  \<open>Assert_fail\<close> is a failed \<open>latte_assert\<close> or \<open>latte_assert_with_info\<close>, \<open>Panic\<close> is \<open>latte_panic\<close>.
  \<open>Unreachable\<close> is \<open>redis_panic\<close>, which writes its message to the log and then runs into
  \<open>__builtin_unreachable\<close>: it does not stop the process, its behaviour is undefined from there on. So it is with
  the other constructors, the invalid accesses of C; \<open>Bad_pointer\<close> is a pointer that is followed or freed
  though it is not the address of a block that \<open>zmalloc\<close> has handed out.
\<close>

datatype abort =
    Assert_fail string
  | Panic string
  | Unreachable string
  | Null_deref string
  | Out_of_bounds string
  | Bad_pointer string
  | Use_after_free nat
  | Div_by_zero
  | Diverges

type_synonym 'a res = "abort + 'a"

definition res_bind :: "'a res \<Rightarrow> ('a \<Rightarrow> 'b res) \<Rightarrow> 'b res" where
  "res_bind m f = (case m of Inl e \<Rightarrow> Inl e | Inr x \<Rightarrow> f x)"

lemma res_bind_Inl [simp, res_simps]: "res_bind (Inl e) f = Inl e"
  by (simp add: res_bind_def)

lemma res_bind_Inr [simp, res_simps]: "res_bind (Inr x) f = f x"
  by (simp add: res_bind_def)

lemma res_bind_eq_Inr [res_simps]: "res_bind m f = Inr y \<longleftrightarrow> (\<exists>x. m = Inr x \<and> f x = Inr y)"
  by (cases m) auto

lemma res_bind_eq_Inl [res_simps]:
  "res_bind m f = Inl e \<longleftrightarrow> m = Inl e \<or> (\<exists>x. m = Inr x \<and> f x = Inl e)"
  by (cases m) auto

lemma res_bind_InrE:
  assumes "res_bind m f = Inr y" obtains x where "m = Inr x" "f x = Inr y"
  using assms by (auto simp: res_simps)

lemma res_bind_assoc: "res_bind (res_bind m f) g = res_bind m (\<lambda>x. res_bind (f x) g)"
  by (cases m) auto

lemma res_bind_cong [fundef_cong]:
  "m = m' \<Longrightarrow> (\<And>x. m' = Inr x \<Longrightarrow> f x = f' x) \<Longrightarrow> res_bind m f = res_bind m' f'"
  by (cases m') auto

definition latte_assert :: "bool \<Rightarrow> string \<Rightarrow> unit res" where
  "latte_assert b msg = (if b then Inr () else Inl (Assert_fail msg))"

lemma latte_assert_True [simp]: "latte_assert True msg = Inr ()"
  by (simp add: latte_assert_def)

lemma latte_assert_False [simp]: "latte_assert False msg = Inl (Assert_fail msg)"
  by (simp add: latte_assert_def)

section \<open>C strings\<close>

abbreviation NUL :: char where "NUL \<equiv> CHR 0x00"
abbreviation CR :: char where "CR \<equiv> CHR 0x0D"
abbreviation LF :: char where "LF \<equiv> CHR 0x0A"
abbreviation crlf :: string where "crlf \<equiv> [CR, LF]"

text \<open>The index of the first \<open>c\<close> before the terminating NUL byte; \<open>c\<close> is never NUL here.\<close>

fun strchr :: "string \<Rightarrow> char \<Rightarrow> nat option" where
  "strchr [] c = None"
| "strchr (x # xs) c =
     (if x = c then Some 0 else if x = NUL then None else map_option Suc (strchr xs c))"

definition c_string :: "string \<Rightarrow> string" where
  "c_string s = takeWhile (\<lambda>c. c \<noteq> NUL) s"

text \<open>Reading one byte of a NUL-terminated buffer: the byte past the last one is the NUL.\<close>

definition byte_at :: "string \<Rightarrow> nat \<Rightarrow> char" where
  "byte_at s i = (if i < length s then s ! i else NUL)"

definition to_lower :: "char \<Rightarrow> char" where
  "to_lower c =
     (let n = (of_char c :: nat) in if 65 \<le> n \<and> n \<le> 90 then char_of (n + 32) else c)"

text \<open>\<open>strcasecmp(a, b) == 0\<close>.\<close>

definition strcase_eq :: "string \<Rightarrow> string \<Rightarrow> bool" where
  "strcase_eq a b \<longleftrightarrow> map to_lower (c_string a) = map to_lower (c_string b)"

lemma strchr_Some_bounds: "strchr s c = Some i \<Longrightarrow> i < length s"
  by (induction s arbitrary: i) (auto split: if_splits)

lemma strchr_Some_nth: "strchr s c = Some i \<Longrightarrow> s ! i = c"
  by (induction s arbitrary: i) (auto split: if_splits)

lemma strchr_Some_take: "strchr s c = Some i \<Longrightarrow> c \<notin> set (take i s)"
  by (induction s arbitrary: i) (auto split: if_splits)

lemma strchr_skip:
  "c \<notin> set xs \<Longrightarrow> NUL \<notin> set xs \<Longrightarrow> strchr (xs @ c # ys) c = Some (length xs)"
  by (induction xs) auto

lemma strchr_append_Some: "strchr xs c = Some i \<Longrightarrow> strchr (xs @ ys) c = Some i"
  by (induction xs arbitrary: i) (auto split: if_splits)

lemma strchr_none_append: "strchr (xs @ ys) c = None \<Longrightarrow> strchr xs c = None"
  by (induction xs) (auto split: if_splits)

lemma c_string_id [simp]: "NUL \<notin> set s \<Longrightarrow> c_string s = s"
  by (induction s) (auto simp: c_string_def)

lemma NUL_c_string [simp]: "NUL \<notin> set (c_string s)"
  by (induction s) (auto simp: c_string_def)

lemma c_string_idem [simp]: "c_string (c_string s) = c_string s"
  by simp

lemma c_string_append_NUL: "NUL \<notin> set s \<Longrightarrow> c_string (s @ NUL # t) = s"
  by (induction s) (auto simp: c_string_def)

section \<open>Integers\<close>

text \<open>Signed 64-bit arithmetic, with the wrap-around of two's complement written out.\<close>

abbreviation llong_min :: int where "llong_min \<equiv> - (2 ^ 63)"
abbreviation llong_max :: int where "llong_max \<equiv> 2 ^ 63 - 1"

definition wrap64 :: "int \<Rightarrow> int" where
  "wrap64 n = (n + 2 ^ 63) mod 2 ^ 64 - 2 ^ 63"

lemma wrap64_id [simp]: "llong_min \<le> n \<Longrightarrow> n \<le> llong_max \<Longrightarrow> wrap64 n = n"
  by (simp add: wrap64_def)

text \<open>A \<open>long long\<close> stored in an \<open>int\<close>.\<close>

definition wrap32 :: "int \<Rightarrow> int" where
  "wrap32 n = (n + 2 ^ 31) mod 2 ^ 32 - 2 ^ 31"

lemma wrap32_small: "0 \<le> n \<Longrightarrow> n < 2 ^ 31 \<Longrightarrow> wrap32 n = n"
  by (simp add: wrap32_def)

lemma wrap64_bounds: "llong_min \<le> wrap64 n" "wrap64 n \<le> llong_max"
  by (simp_all add: wrap64_def)

text \<open>C's signed division, which truncates towards zero.\<close>

definition c_quot :: "int \<Rightarrow> int \<Rightarrow> int" where
  "c_quot a b = sgn a * sgn b * (\<bar>a\<bar> div \<bar>b\<bar>)"

definition c_div :: "int \<Rightarrow> int \<Rightarrow> int res" where
  "c_div a b = (if b = 0 then Inl Div_by_zero else Inr (c_quot a b))"

lemma c_quot_nonneg: "0 \<le> a \<Longrightarrow> 0 < b \<Longrightarrow> c_quot a b = a div b"
  by (cases "a = 0") (auto simp: c_quot_def)

lemma c_quot_le: "0 \<le> a \<Longrightarrow> c_quot a b \<le> a"
proof (cases "b = 0 \<or> a = 0")
  case False
  assume "0 \<le> a"
  with False have "a div \<bar>b\<bar> \<le> a" "0 \<le> a div \<bar>b\<bar>"
    using zdiv_mono2 [of a 1 "\<bar>b\<bar>"] by (auto simp: pos_imp_zdiv_nonneg_iff)
  with \<open>0 \<le> a\<close> False show ?thesis by (auto simp: c_quot_def sgn_if)
qed (auto simp: c_quot_def)

subsection \<open>Decimal printing: what \<open>%d\<close>, \<open>%ld\<close> and \<open>%lu\<close> produce\<close>

definition digit :: "nat \<Rightarrow> char" where
  "digit n = char_of (48 + n)"

fun dec_nat :: "nat \<Rightarrow> string" where
  "dec_nat n = (if n < 10 then [digit n] else dec_nat (n div 10) @ [digit (n mod 10)])"

declare dec_nat.simps [simp del]

definition dec :: "int \<Rightarrow> string" where
  "dec n = (if n < 0 then CHR ''-'' # dec_nat (nat (- n)) else dec_nat (nat n))"

text \<open>The value a string of digits denotes.\<close>

definition digit_val :: "char \<Rightarrow> nat" where
  "digit_val c = of_char c - 48"

definition is_digit :: "char \<Rightarrow> bool" where
  "is_digit c \<longleftrightarrow> 48 \<le> (of_char c :: nat) \<and> (of_char c :: nat) \<le> 57"

definition undec_nat :: "string \<Rightarrow> nat" where
  "undec_nat s = foldl (\<lambda>a c. 10 * a + digit_val c) 0 s"

lemma of_char_digit [simp]: "n < 10 \<Longrightarrow> of_char (digit n) = (48 + n :: nat)"
  by (simp add: digit_def)

lemma is_digit_digit [simp]: "n < 10 \<Longrightarrow> is_digit (digit n)"
  by (simp add: is_digit_def)

lemma digit_val_digit [simp]: "n < 10 \<Longrightarrow> digit_val (digit n) = n"
  by (simp add: digit_val_def)

lemma dec_nat_nonempty [simp]: "dec_nat n \<noteq> []"
  by (subst dec_nat.simps) simp

lemma dec_nat_digits: "c \<in> set (dec_nat n) \<Longrightarrow> is_digit c"
proof (induction n rule: dec_nat.induct)
  case (1 n)
  then show ?case
    by (subst (asm) (2) dec_nat.simps) (auto split: if_splits)
qed

lemma undec_dec_nat [simp]: "undec_nat (dec_nat n) = n"
proof (induction n rule: dec_nat.induct)
  case (1 n)
  show ?case
  proof (cases "n < 10")
    case True
    then show ?thesis by (simp add: dec_nat.simps [of n] undec_nat_def)
  next
    case False
    with "1" have "undec_nat (dec_nat (n div 10)) = n div 10" by simp
    with False show ?thesis
      by (simp add: dec_nat.simps [of n] undec_nat_def)
  qed
qed

lemma is_digit_not_special [simp]:
  "\<not> is_digit CR" "\<not> is_digit LF" "\<not> is_digit NUL" "\<not> is_digit (CHR ''-'')" "\<not> is_digit (CHR ''*'')"
  by (simp_all add: is_digit_def)

lemma dec_nat_special:
  "CR \<notin> set (dec_nat n)" "LF \<notin> set (dec_nat n)" "NUL \<notin> set (dec_nat n)" "CHR ''-'' \<notin> set (dec_nat n)"
  using dec_nat_digits is_digit_not_special by blast+

lemma dec_special [simp]: "CR \<notin> set (dec n)" "LF \<notin> set (dec n)" "NUL \<notin> set (dec n)"
  by (auto simp: dec_def dec_nat_special)

lemma dec_nonempty [simp]: "dec n \<noteq> []"
  by (simp add: dec_def)

section \<open>Words separated by single spaces\<close>

definition plain_char :: "char \<Rightarrow> bool" where
  "plain_char c \<longleftrightarrow> c \<in> set ''abcdefghijklmnopqrstuvwxyzABCDEFGHIJKLMNOPQRSTUVWXYZ0123456789-@_.:''"

definition plain_word :: "string \<Rightarrow> bool" where
  "plain_word w \<longleftrightarrow> w \<noteq> [] \<and> list_all plain_char w"

fun unwords :: "string list \<Rightarrow> string" where
  "unwords [] = []"
| "unwords [w] = w"
| "unwords (w # ws) = w @ CHR '' '' # unwords ws"

fun split_on :: "char \<Rightarrow> string \<Rightarrow> string list" where
  "split_on c [] = [[]]"
| "split_on c (x # xs) =
     (if x = c then [] # split_on c xs
      else case split_on c xs of [] \<Rightarrow> [[x]] | w # ws \<Rightarrow> (x # w) # ws)"

lemma split_on_word: "c \<notin> set w \<Longrightarrow> split_on c w = [w]"
  by (induction w) auto

lemma split_on_append: "c \<notin> set w \<Longrightarrow> split_on c (w @ c # s) = w # split_on c s"
  by (induction w) auto

lemma plain_word_no_space: "plain_word w \<Longrightarrow> CHR '' '' \<notin> set w"
  by (auto simp: plain_word_def list_all_iff plain_char_def)

lemma split_on_unwords:
  "ws \<noteq> [] \<Longrightarrow> list_all plain_word ws \<Longrightarrow> split_on CHR '' '' (unwords ws) = ws"
proof (induction ws rule: unwords.induct)
  case (3 w v ws)
  then show ?case using plain_word_no_space [of w] by (simp add: split_on_append)
qed (auto simp: split_on_word plain_word_no_space)

section \<open>Lists\<close>

lemma drop_eq_append: "drop n xs = ys @ zs \<Longrightarrow> ys \<noteq> [] \<Longrightarrow> drop (n + length ys) xs = zs"
  by (metis add.commute append_eq_conv_conj drop_drop)

lemma sum_list_update_int:
  "k < length xs \<Longrightarrow> sum_list (xs[k := (x :: int)]) = sum_list xs + x - xs ! k"
  by (induction xs arbitrary: k) (auto split: nat.splits)

lemma sum_nth_update:
  fixes xs :: "int list"
  assumes "k < length xs"
  shows "(\<Sum>i\<in>{a..<b}. if i = k then xs ! i + d else xs ! i)
    = (\<Sum>i\<in>{a..<b}. xs ! i) + (if a \<le> k \<and> k < b then d else 0)"
proof -
  have "(\<Sum>i\<in>{a..<b}. if i = k then xs ! i + d else xs ! i)
    = (\<Sum>i\<in>{a..<b}. xs ! i + (if i = k then d else 0))"
    by (rule sum.cong) auto
  also have "\<dots> = (\<Sum>i\<in>{a..<b}. xs ! i) + (if a \<le> k \<and> k < b then d else 0)"
    by (simp add: sum.distrib)
  finally show ?thesis .
qed

end
