(* ===== verification/Latte_C.thy ===== *)
theory Latte_C
  imports Prelude
begin

text \<open>
  The interface of latte\_c, the support library the server links against (a git submodule whose
  sources are not part of the repository). Its functions are parameters of the model: records of
  functions that every operation using them takes as an argument. What the server relies on is
  stated as the predicates \<open>dict_laws\<close> and \<open>latte_c_laws\<close>, the documented contract of these
  functions; theorems that need it name it as a hypothesis. The reference instance at the end
  shows that the contract can be met, and is what the witnesses run on.
\<close>

section \<open>Objects\<close>

text \<open>
  \<open>latte_object_t\<close>: the fields the server's code reads and writes. \<open>ptr\<close> is the byte string
  of a string object, the integer of an integer-encoded one, or some other structure.
\<close>

datatype object_type = OBJ_STRING | OBJ_OTHER nat

datatype object_encoding = OBJ_ENCODING_RAW | OBJ_ENCODING_EMBSTR | OBJ_ENCODING_INT
  | OBJ_ENCODING_OTHER nat

datatype object_ptr = Ptr_bytes string | Ptr_long int | Ptr_other nat

record latte_object =
  otype :: object_type
  encoding :: object_encoding
  lru :: "32 word"
  refcount :: int
  ptr :: object_ptr

text \<open>
  Objects are shared by reference (a client's argument vector and the keyspace hold the same
  object), so they live in a heap. Addresses are never reused.
\<close>

record obj_heap =
  cells :: "nat \<Rightarrow> latte_object option"
  next_addr :: nat

definition empty_heap :: obj_heap where
  "empty_heap = \<lparr>cells = (\<lambda>_. None), next_addr = 0\<rparr>"

definition heap_wf :: "obj_heap \<Rightarrow> bool" where
  "heap_wf h \<longleftrightarrow> (\<forall>a. cells h a \<noteq> None \<longrightarrow> a < next_addr h)"

definition obj_alloc :: "obj_heap \<Rightarrow> latte_object \<Rightarrow> obj_heap \<times> nat" where
  "obj_alloc h obj =
     (h\<lparr>cells := (cells h)(next_addr h \<mapsto> obj), next_addr := Suc (next_addr h)\<rparr>, next_addr h)"

definition obj_get :: "obj_heap \<Rightarrow> nat \<Rightarrow> latte_object res" where
  "obj_get h a = (case cells h a of None \<Rightarrow> Inl (Use_after_free a) | Some obj \<Rightarrow> Inr obj)"

definition obj_put :: "obj_heap \<Rightarrow> nat \<Rightarrow> latte_object option \<Rightarrow> obj_heap" where
  "obj_put h a obj = h\<lparr>cells := (cells h)(a := obj)\<rparr>"

lemma heap_wf_empty [simp]: "heap_wf empty_heap"
  by (simp add: heap_wf_def empty_heap_def)

lemma heap_wf_alloc: "heap_wf h \<Longrightarrow> heap_wf (fst (obj_alloc h obj))"
  by (auto simp: heap_wf_def obj_alloc_def less_Suc_eq)

lemma heap_wf_put: "heap_wf h \<Longrightarrow> cells h a \<noteq> None \<Longrightarrow> heap_wf (obj_put h a v)"
  by (auto simp: heap_wf_def obj_put_def)

lemma heap_wf_fresh: "heap_wf h \<Longrightarrow> cells h (next_addr h) = None"
  by (auto simp: heap_wf_def)

lemma cells_obj_put [simp]: "cells (obj_put h a v) = (cells h)(a := v)"
  by (simp add: obj_put_def)

lemma next_addr_obj_put [simp]: "next_addr (obj_put h a v) = next_addr h"
  by (simp add: obj_put_def)

lemma obj_get_Some [simp]: "cells h a = Some obj \<Longrightarrow> obj_get h a = Inr obj"
  by (simp add: obj_get_def)

lemma obj_get_None [simp]: "cells h a = None \<Longrightarrow> obj_get h a = Inl (Use_after_free a)"
  by (simp add: obj_get_def)

section \<open>Dictionaries\<close>

text \<open>
  A \<open>dict_t\<close> is the list of its entries: the stored key and the value, \<open>None\<close> where the value
  has not been set since \<open>dict_add_raw\<close> made the entry. An entry pointer is the entry's stored
  key. \<open>dict_add_raw\<close> returns the new dictionary, the new entry (NULL when the key is there)
  and what it stores through \<open>existing\<close>. \<open>dict_delete_key\<close> returns \<open>None\<close> for DICT\_ERR and
  otherwise the value of the removed entry, which the library hands to the value destructor.
\<close>

type_synonym 'v dict = "(string \<times> 'v option) list"

record 'v dict_ops =
  dict_new :: "'v dict"
  dict_find :: "'v dict \<Rightarrow> string \<Rightarrow> string option"
  dict_get_entry_val :: "'v dict \<Rightarrow> string \<Rightarrow> 'v option"
  dict_add_raw :: "'v dict \<Rightarrow> string \<Rightarrow> 'v dict \<times> string option \<times> string option"
  dict_set_val :: "'v dict \<Rightarrow> string \<Rightarrow> 'v \<Rightarrow> 'v dict"
  dict_delete_key :: "'v dict \<Rightarrow> string \<Rightarrow> 'v dict \<times> 'v option option"
  dict_add :: "'v dict \<Rightarrow> string \<Rightarrow> 'v \<Rightarrow> 'v dict \<times> bool"
  dict_fetch_value :: "'v dict \<Rightarrow> string \<Rightarrow> 'v option"
  dict_size :: "'v dict \<Rightarrow> nat"

text \<open>
  \<open>canon\<close> is the key normal form of the dictionary's type: two keys are equal for its compare
  function when their normal forms are equal (the identity for \<open>dict_sds_key_compare\<close>, lower
  case for \<open>dict_sds_key_case_compare\<close>).
\<close>

definition dict_wf :: "(string \<Rightarrow> string) \<Rightarrow> 'v dict \<Rightarrow> bool" where
  "dict_wf canon d \<longleftrightarrow> distinct (map (\<lambda>e. canon (fst e)) d)"

definition dict_map :: "(string \<Rightarrow> string) \<Rightarrow> 'v dict \<Rightarrow> string \<rightharpoonup> string \<times> 'v option" where
  "dict_map canon d = map_of (map (\<lambda>e. (canon (fst e), e)) d)"

definition dict_read_laws :: "(string \<Rightarrow> string) \<Rightarrow> 'v dict_ops \<Rightarrow> bool" where
  "dict_read_laws canon D \<longleftrightarrow>
     dict_new D = [] \<and>
     (\<forall>d. dict_wf canon d \<longrightarrow> dict_size D d = length d) \<and>
     (\<forall>d k. dict_wf canon d \<longrightarrow> dict_find D d k = map_option fst (dict_map canon d (canon k))) \<and>
     (\<forall>d k. dict_wf canon d \<longrightarrow>
        dict_fetch_value D d k = Option.bind (dict_map canon d (canon k)) snd) \<and>
     (\<forall>d k v. dict_wf canon d \<longrightarrow> dict_map canon d (canon k) = Some (k, v) \<longrightarrow>
        dict_get_entry_val D d k = v)"

definition dict_insert_laws :: "(string \<Rightarrow> string) \<Rightarrow> 'v dict_ops \<Rightarrow> bool" where
  "dict_insert_laws canon D \<longleftrightarrow>
     (\<forall>d k. dict_wf canon d \<longrightarrow> dict_map canon d (canon k) = None \<longrightarrow>
        (\<exists>d'. dict_add_raw D d k = (d', Some k, None) \<and> dict_wf canon d' \<and>
           length d' = Suc (length d) \<and>
           dict_map canon d' = (dict_map canon d)(canon k \<mapsto> (k, None)))) \<and>
     (\<forall>d k e. dict_wf canon d \<longrightarrow> dict_map canon d (canon k) = Some e \<longrightarrow>
        dict_add_raw D d k = (d, None, Some (fst e))) \<and>
     (\<forall>d k v. dict_wf canon d \<longrightarrow> dict_map canon d (canon k) = None \<longrightarrow>
        (\<exists>d'. dict_add D d k v = (d', True) \<and> dict_wf canon d' \<and>
           length d' = Suc (length d) \<and>
           dict_map canon d' = (dict_map canon d)(canon k \<mapsto> (k, Some v)))) \<and>
     (\<forall>d k v e. dict_wf canon d \<longrightarrow> dict_map canon d (canon k) = Some e \<longrightarrow>
        dict_add D d k v = (d, False))"

definition dict_update_laws :: "(string \<Rightarrow> string) \<Rightarrow> 'v dict_ops \<Rightarrow> bool" where
  "dict_update_laws canon D \<longleftrightarrow>
     (\<forall>d k v w. dict_wf canon d \<longrightarrow> dict_map canon d (canon k) = Some (k, w) \<longrightarrow>
        dict_wf canon (dict_set_val D d k v) \<and> length (dict_set_val D d k v) = length d \<and>
        dict_map canon (dict_set_val D d k v) = (dict_map canon d)(canon k \<mapsto> (k, Some v))) \<and>
     (\<forall>d k e. dict_wf canon d \<longrightarrow> dict_map canon d (canon k) = Some e \<longrightarrow>
        (\<exists>d'. dict_delete_key D d k = (d', Some (snd e)) \<and> dict_wf canon d' \<and>
           Suc (length d') = length d \<and>
           dict_map canon d' = (dict_map canon d)(canon k := None))) \<and>
     (\<forall>d k. dict_wf canon d \<longrightarrow> dict_map canon d (canon k) = None \<longrightarrow>
        dict_delete_key D d k = (d, None))"

definition dict_laws :: "(string \<Rightarrow> string) \<Rightarrow> 'v dict_ops \<Rightarrow> bool" where
  "dict_laws canon D \<longleftrightarrow> dict_read_laws canon D \<and> dict_insert_laws canon D \<and> dict_update_laws canon D"

subsection \<open>The laws as rules\<close>

lemma dict_wf_Nil [simp]: "dict_wf canon []"
  by (simp add: dict_wf_def)

lemma dict_map_Nil [simp]: "dict_map canon [] = (\<lambda>_. None)"
  by (simp add: dict_map_def fun_eq_iff)

lemma dict_laws_new [dict_simps]: "dict_laws canon D \<Longrightarrow> dict_new D = []"
  by (simp add: dict_laws_def dict_read_laws_def)

lemma dict_laws_size [dict_simps]: "dict_laws canon D \<Longrightarrow> dict_wf canon d \<Longrightarrow> dict_size D d = length d"
  by (simp add: dict_laws_def dict_read_laws_def)

lemma dict_laws_find [dict_simps]:
  "dict_laws canon D \<Longrightarrow> dict_wf canon d \<Longrightarrow>
   dict_find D d k = map_option fst (dict_map canon d (canon k))"
  by (simp add: dict_laws_def dict_read_laws_def)

lemma dict_laws_fetch [dict_simps]:
  "dict_laws canon D \<Longrightarrow> dict_wf canon d \<Longrightarrow>
   dict_fetch_value D d k = Option.bind (dict_map canon d (canon k)) snd"
  by (simp add: dict_laws_def dict_read_laws_def)

lemma dict_laws_get [dict_simps]:
  "dict_laws canon D \<Longrightarrow> dict_wf canon d \<Longrightarrow> dict_map canon d (canon k) = Some (k, v) \<Longrightarrow>
   dict_get_entry_val D d k = v"
  by (simp add: dict_laws_def dict_read_laws_def)

lemma dict_laws_add_raw_new:
  assumes "dict_laws canon D" "dict_wf canon d" "dict_map canon d (canon k) = None"
  obtains d' where "dict_add_raw D d k = (d', Some k, None)" "dict_wf canon d'"
    "length d' = Suc (length d)" "dict_map canon d' = (dict_map canon d)(canon k \<mapsto> (k, None))"
  using assms unfolding dict_laws_def dict_insert_laws_def by blast

lemma dict_laws_add_raw_old [dict_simps]:
  "dict_laws canon D \<Longrightarrow> dict_wf canon d \<Longrightarrow> dict_map canon d (canon k) = Some e \<Longrightarrow>
   dict_add_raw D d k = (d, None, Some (fst e))"
  unfolding dict_laws_def dict_insert_laws_def by blast

lemma dict_laws_add_new:
  assumes "dict_laws canon D" "dict_wf canon d" "dict_map canon d (canon k) = None"
  obtains d' where "dict_add D d k v = (d', True)" "dict_wf canon d'"
    "length d' = Suc (length d)" "dict_map canon d' = (dict_map canon d)(canon k \<mapsto> (k, Some v))"
  using assms unfolding dict_laws_def dict_insert_laws_def by blast

lemma dict_laws_add_old [dict_simps]:
  "dict_laws canon D \<Longrightarrow> dict_wf canon d \<Longrightarrow> dict_map canon d (canon k) = Some e \<Longrightarrow>
   dict_add D d k v = (d, False)"
  unfolding dict_laws_def dict_insert_laws_def by blast

lemma dict_laws_set_val [dict_simps]:
  assumes "dict_laws canon D" "dict_wf canon d" "dict_map canon d (canon k) = Some (k, w)"
  shows "dict_wf canon (dict_set_val D d k v)" "length (dict_set_val D d k v) = length d"
    "dict_map canon (dict_set_val D d k v) = (dict_map canon d)(canon k \<mapsto> (k, Some v))"
  using assms unfolding dict_laws_def dict_update_laws_def by blast+

lemma dict_laws_delete_old:
  assumes "dict_laws canon D" "dict_wf canon d" "dict_map canon d (canon k) = Some e"
  obtains d' where "dict_delete_key D d k = (d', Some (snd e))" "dict_wf canon d'"
    "Suc (length d') = length d" "dict_map canon d' = (dict_map canon d)(canon k := None)"
  using assms unfolding dict_laws_def dict_update_laws_def by blast

lemma dict_laws_delete_none [dict_simps]:
  "dict_laws canon D \<Longrightarrow> dict_wf canon d \<Longrightarrow> dict_map canon d (canon k) = None \<Longrightarrow>
   dict_delete_key D d k = (d, None)"
  unfolding dict_laws_def dict_update_laws_def by blast

text \<open>The stored key of an entry normalises to the key it is found under.\<close>

lemma dict_map_canon: "dict_map canon d ck = Some e \<Longrightarrow> canon (fst e) = ck"
  unfolding dict_map_def by (drule map_of_SomeD) auto

lemma dict_map_id_key: "dict_map (\<lambda>k. k) d k = Some (k', v) \<Longrightarrow> k' = k"
  using dict_map_canon [of "\<lambda>k. k" d k "(k', v)"] by simp

subsection \<open>A reference dictionary\<close>

definition dict_ref :: "(string \<Rightarrow> string) \<Rightarrow> 'v dict_ops" where
  "dict_ref canon =
     \<lparr>dict_new = [],
      dict_find = (\<lambda>d k. map_option fst (dict_map canon d (canon k))),
      dict_get_entry_val = (\<lambda>d k. Option.bind (dict_map canon d (canon k)) snd),
      dict_add_raw = (\<lambda>d k. case dict_map canon d (canon k) of
          None \<Rightarrow> ((k, None) # d, Some k, None)
        | Some e \<Rightarrow> (d, None, Some (fst e))),
      dict_set_val = (\<lambda>d k v. map (\<lambda>e. if canon (fst e) = canon k then (fst e, Some v) else e) d),
      dict_delete_key = (\<lambda>d k. case dict_map canon d (canon k) of
          None \<Rightarrow> (d, None)
        | Some e \<Rightarrow> (filter (\<lambda>e. canon (fst e) \<noteq> canon k) d, Some (snd e))),
      dict_add = (\<lambda>d k v. case dict_map canon d (canon k) of
          None \<Rightarrow> ((k, Some v) # d, True)
        | Some e \<Rightarrow> (d, False)),
      dict_fetch_value = (\<lambda>d k. Option.bind (dict_map canon d (canon k)) snd),
      dict_size = length\<rparr>"

lemma dict_map_Cons [simp]:
  "dict_map canon (e # d) = (dict_map canon d)(canon (fst e) \<mapsto> e)"
  by (simp add: dict_map_def)

lemma dict_wf_Cons [simp]:
  "dict_wf canon (e # d) \<longleftrightarrow> dict_map canon d (canon (fst e)) = None \<and> dict_wf canon d"
  by (auto simp: dict_wf_def dict_map_def map_of_eq_None_iff image_image)

lemma dict_map_filter:
  "dict_map canon (filter (\<lambda>e. canon (fst e) \<noteq> ck) d) = (dict_map canon d)(ck := None)"
  by (induction d) (auto simp: fun_eq_iff)

lemma dict_wf_filter: "dict_wf canon d \<Longrightarrow> dict_wf canon (filter P d)"
  by (simp add: dict_wf_def distinct_map_filter)

lemma length_filter_key:
  "dict_wf canon d \<Longrightarrow> dict_map canon d ck = Some e \<Longrightarrow>
   Suc (length (filter (\<lambda>e. canon (fst e) \<noteq> ck) d)) = length d"
proof (induction d)
  case Nil
  then show ?case by simp
next
  case (Cons x d)
  show ?case
  proof (cases "canon (fst x) = ck")
    case True
    with Cons.prems have "dict_map canon d ck = None" by auto
    then have "ck \<notin> (\<lambda>e. canon (fst e)) ` set d"
      by (simp add: dict_map_def map_of_eq_None_iff image_image)
    then have "filter (\<lambda>e. canon (fst e) \<noteq> ck) d = d"
      by (auto simp: filter_id_conv)
    with True show ?thesis by simp
  qed (use Cons in auto)
qed

lemma dict_map_set_val:
  "dict_map canon d ck = Some (k, w) \<Longrightarrow> dict_wf canon d \<Longrightarrow>
   dict_map canon (map (\<lambda>e. if canon (fst e) = ck then (fst e, Some v) else e) d)
     = (dict_map canon d)(ck \<mapsto> (k, Some v))"
proof (induction d)
  case Nil
  then show ?case by simp
next
  case (Cons x d)
  show ?case
  proof (cases "canon (fst x) = ck")
    case True
    with Cons.prems have n: "dict_map canon d ck = None" and x: "fst x = k" by auto
    from n have "ck \<notin> (\<lambda>e. canon (fst e)) ` set d"
      by (simp add: dict_map_def map_of_eq_None_iff image_image)
    then have "map (\<lambda>e. if canon (fst e) = ck then (fst e, Some v) else e) d = d"
      by (intro map_idI) auto
    with True x show ?thesis by (auto simp: fun_eq_iff)
  next
    case False
    with Cons show ?thesis by (auto simp: fun_eq_iff)
  qed
qed

lemma dict_wf_map_val:
  "dict_wf canon (map (\<lambda>e. if P e then (fst e, f e) else e) d) = dict_wf canon d"
proof -
  have "map (\<lambda>e. canon (fst e)) (map (\<lambda>e. if P e then (fst e, f e) else e) d)
    = map (\<lambda>e. canon (fst e)) d"
    by simp
  then show ?thesis unfolding dict_wf_def by (simp only:)
qed

lemma dict_ref_laws: "dict_laws canon (dict_ref canon :: 'v dict_ops)"
  unfolding dict_laws_def
proof (intro conjI)
  show "dict_read_laws canon (dict_ref canon :: 'v dict_ops)"
    by (simp add: dict_read_laws_def dict_ref_def)
  show "dict_insert_laws canon (dict_ref canon :: 'v dict_ops)"
    by (simp add: dict_insert_laws_def dict_ref_def)
  show "dict_update_laws canon (dict_ref canon :: 'v dict_ops)"
    unfolding dict_update_laws_def
  proof (intro conjI allI impI)
    fix d :: "'v dict" and k v w
    assume "dict_wf canon d" "dict_map canon d (canon k) = Some (k, w)"
    then show "dict_wf canon (dict_set_val (dict_ref canon) d k v)"
      "length (dict_set_val (dict_ref canon) d k v) = length d"
      "dict_map canon (dict_set_val (dict_ref canon) d k v) = (dict_map canon d)(canon k \<mapsto> (k, Some v))"
      by (simp_all add: dict_ref_def dict_wf_map_val dict_map_set_val)
  qed (auto simp: dict_ref_def dict_map_filter dict_wf_filter length_filter_key)
qed

section \<open>The client of the network layer\<close>

text \<open>
  The fields of \<open>latte_client_t\<close> the server's code uses. \<open>obuf\<close> stands for output queued
  ahead of the \<open>reply\<close> list; a node of that list is a block or, for a reply whose length is
  not known yet, NULL. The \<open>used\<close> field of a block is the length of its bytes.
\<close>

record reply_block =
  bsize :: nat
  bdata :: string

datatype client_callback = Cb_redis_client_handle | Cb_redis_client_command_end

record latte_client =
  conn :: bool
  querybuf :: string
  qb_pos :: nat
  cl_flags :: "32 word"
  obuf :: string
  reply :: "reply_block option list"
  exec_cb :: "client_callback option"
  start_cb :: "client_callback option"
  end_cb :: "client_callback option"
  start_time :: int
  read_time :: int
  exec_time :: int
  exec_end_time :: int
  write_time :: int
  end_time :: int

definition block_bytes :: "reply_block option \<Rightarrow> string" where
  "block_bytes b = (case b of None \<Rightarrow> [] | Some b \<Rightarrow> bdata b)"

definition reply_bytes_of :: "reply_block option list \<Rightarrow> string" where
  "reply_bytes_of bs = concat (map block_bytes bs)"

text \<open>Everything queued for the peer, in the order it will be written.\<close>

definition client_output :: "latte_client \<Rightarrow> string" where
  "client_output c = obuf c @ reply_bytes_of (reply c)"

definition block_ok :: "reply_block option \<Rightarrow> bool" where
  "block_ok b = (case b of None \<Rightarrow> True | Some b \<Rightarrow> length (bdata b) \<le> bsize b)"

lemma block_bytes_simps [simp]: "block_bytes None = []" "block_bytes (Some b) = bdata b"
  by (simp_all add: block_bytes_def)

lemma reply_bytes_of_simps [simp]:
  "reply_bytes_of [] = []" "reply_bytes_of (b # bs) = block_bytes b @ reply_bytes_of bs"
  "reply_bytes_of (bs @ cs) = reply_bytes_of bs @ reply_bytes_of cs"
  by (simp_all add: reply_bytes_of_def)

lemma block_ok_simps [simp]: "block_ok None" "block_ok (Some b) \<longleftrightarrow> length (bdata b) \<le> bsize b"
  by (simp_all add: block_ok_def)

section \<open>The other functions of the library\<close>

text \<open>
  Constants (reference counts, buffer sizes, client flags), objects, number parsing and printing,
  string utilities, and \<open>add_reply_proto\<close>, which queues bytes for a client. \<open>sds_cat_vprintf\<close> takes
  the text the format produces; \<open>zmalloc_usable_size\<close> is the payload a reply block has when it was
  allocated for that many bytes.
\<close>

record latte_c =
  OBJ_SHARED_REFCOUNT :: int
  OBJ_STATIC_REFCOUNT :: int
  LRU_CLOCK_MAX :: "32 word"
  PROTO_REPLY_CHUNK_BYTES :: nat
  PROTO_MBULK_BIG_ARG :: int
  CLIENT_CLOSE_AFTER_REPLY :: "32 word"
  CLIENT_CLOSE_ASAP :: "32 word"
  latte_object_new :: "object_type \<Rightarrow> string \<Rightarrow> latte_object"
  string_object_new :: "string \<Rightarrow> latte_object"
  dup_string_object :: "latte_object \<Rightarrow> latte_object"
  sds_encoded_object :: "latte_object \<Rightarrow> bool"
  string_object_len :: "latte_object \<Rightarrow> nat"
  get_sds_from_object :: "latte_object \<Rightarrow> string option"
  latte_object_incr_ref_count :: "obj_heap \<Rightarrow> nat \<Rightarrow> obj_heap res"
  latte_object_decr_ref_count :: "obj_heap \<Rightarrow> nat \<Rightarrow> obj_heap res"
  string2ll :: "string \<Rightarrow> int option"
  ll2string :: "int \<Rightarrow> string"
  sds_split_args :: "string \<Rightarrow> string list option"
  sds_split_len :: "string \<Rightarrow> char \<Rightarrow> string list"
  sds_trim :: "string \<Rightarrow> string \<Rightarrow> string"
  sds_map_chars :: "string \<Rightarrow> string \<Rightarrow> string \<Rightarrow> string"
  sds_to_upper :: "string \<Rightarrow> string"
  sds_to_lower :: "string \<Rightarrow> string"
  sds_cat_vprintf :: "string \<Rightarrow> string"
  zmalloc_usable_size :: "nat \<Rightarrow> nat"
  add_reply_proto :: "latte_client \<Rightarrow> string \<Rightarrow> latte_client"

text \<open>
  A string object as the constructors make it: one reference, the bytes in an encoding that
  \<open>sds_encoded_object\<close> accepts.
\<close>

definition string_obj :: "latte_c \<Rightarrow> latte_object \<Rightarrow> string \<Rightarrow> bool" where
  "string_obj L obj s \<longleftrightarrow> otype obj = OBJ_STRING \<and> ptr obj = Ptr_bytes s \<and> sds_encoded_object L obj"

definition object_laws :: "latte_c \<Rightarrow> bool" where
  "object_laws L \<longleftrightarrow>
     3 < OBJ_STATIC_REFCOUNT L \<and> OBJ_STATIC_REFCOUNT L < OBJ_SHARED_REFCOUNT L \<and>
     (\<forall>s. string_obj L (latte_object_new L OBJ_STRING s) s \<and>
          refcount (latte_object_new L OBJ_STRING s) = 1) \<and>
     (\<forall>s. string_obj L (string_object_new L s) s \<and> refcount (string_object_new L s) = 1) \<and>
     (\<forall>obj s. string_obj L obj s \<longrightarrow> string_object_len L obj = length s \<and>
        get_sds_from_object L obj = Some s \<and>
        string_obj L (dup_string_object L obj) s \<and> refcount (dup_string_object L obj) = 1) \<and>
     (\<forall>obj s n l. string_obj L obj s \<longrightarrow> string_obj L (obj\<lparr>refcount := n, lru := l\<rparr>) s) \<and>
     (\<forall>h a obj. cells h a = Some obj \<longrightarrow> 0 < refcount obj \<longrightarrow> refcount obj < OBJ_STATIC_REFCOUNT L \<longrightarrow>
        latte_object_incr_ref_count L h a = Inr (obj_put h a (Some (obj\<lparr>refcount := refcount obj + 1\<rparr>)))) \<and>
     (\<forall>h a obj. cells h a = Some obj \<longrightarrow> refcount obj = 1 \<longrightarrow>
        latte_object_decr_ref_count L h a = Inr (obj_put h a None)) \<and>
     (\<forall>h a obj. cells h a = Some obj \<longrightarrow> 1 < refcount obj \<longrightarrow> refcount obj < OBJ_STATIC_REFCOUNT L \<longrightarrow>
        latte_object_decr_ref_count L h a = Inr (obj_put h a (Some (obj\<lparr>refcount := refcount obj - 1\<rparr>))))"

definition number_laws :: "latte_c \<Rightarrow> bool" where
  "number_laws L \<longleftrightarrow>
     (\<forall>n. llong_min \<le> n \<longrightarrow> n \<le> llong_max \<longrightarrow> string2ll L (dec n) = Some n \<and> ll2string L n = dec n) \<and>
     (\<forall>s n. string2ll L s = Some n \<longrightarrow> llong_min \<le> n \<and> n \<le> llong_max)"

definition sds_laws :: "latte_c \<Rightarrow> bool" where
  "sds_laws L \<longleftrightarrow>
     (\<forall>s cs. sds_trim L s cs = dropWhile (\<lambda>c. c \<in> set cs) (rev (dropWhile (\<lambda>c. c \<in> set cs) (rev s)))) \<and>
     (\<forall>s from to. length from = length to \<longrightarrow> sds_map_chars L s from to =
        map (\<lambda>c. case map_of (zip from to) c of None \<Rightarrow> c | Some d \<Rightarrow> d) s) \<and>
     (\<forall>s. sds_to_lower L s = map to_lower s) \<and>
     (\<forall>ws. ws \<noteq> [] \<longrightarrow> list_all plain_word ws \<longrightarrow>
        sds_split_args L (unwords ws) = Some ws \<and> sds_split_len L (unwords ws) CHR '' '' = ws) \<and>
     (\<forall>s. NUL \<notin> set s \<longrightarrow> sds_cat_vprintf L s = s) \<and>
     (\<forall>n. n \<le> zmalloc_usable_size L n)"

text \<open>
  \<open>add_reply_proto\<close> appends to the queued output and touches nothing else of the client; a NULL
  node left in the list by \<open>add_reply_deferred_len\<close> and what is before it stay as they are.
\<close>

definition reply_laws :: "latte_c \<Rightarrow> bool" where
  "reply_laws L \<longleftrightarrow>
     (\<forall>c s. \<exists>b r. add_reply_proto L c s = c\<lparr>obuf := b, reply := r\<rparr>) \<and>
     (\<forall>c s. client_output (add_reply_proto L c s) = client_output c @ s) \<and>
     (\<forall>c s. list_all block_ok (reply c) \<longrightarrow> list_all block_ok (reply (add_reply_proto L c s))) \<and>
     (\<forall>c s xs ys. reply c = xs @ None # ys \<longrightarrow>
        (\<exists>ys'. reply (add_reply_proto L c s) = xs @ None # ys' \<and>
           reply_bytes_of ys' = reply_bytes_of ys @ s \<and> obuf (add_reply_proto L c s) = obuf c))"

definition flag_laws :: "latte_c \<Rightarrow> bool" where
  "flag_laws L \<longleftrightarrow> CLIENT_CLOSE_AFTER_REPLY L \<noteq> 0 \<and> CLIENT_CLOSE_ASAP L \<noteq> 0 \<and>
     CLIENT_CLOSE_AFTER_REPLY L AND CLIENT_CLOSE_ASAP L = 0"

definition latte_c_laws :: "latte_c \<Rightarrow> bool" where
  "latte_c_laws L \<longleftrightarrow> object_laws L \<and> number_laws L \<and> sds_laws L \<and> reply_laws L \<and> flag_laws L"

section \<open>A reference library\<close>

definition string2ll_ref :: "string \<Rightarrow> int option" where
  "string2ll_ref s =
     (let neg = (s \<noteq> [] \<and> hd s = CHR ''-''); ds = (if neg then tl s else s);
          n = (if neg then - int (undec_nat ds) else int (undec_nat ds))
      in if ds \<noteq> [] \<and> list_all is_digit ds \<and> llong_min \<le> n \<and> n \<le> llong_max then Some n else None)"

definition mk_string_obj :: "string \<Rightarrow> latte_object" where
  "mk_string_obj s =
     \<lparr>otype = OBJ_STRING, encoding = OBJ_ENCODING_RAW, lru = 0, refcount = 1, ptr = Ptr_bytes s\<rparr>"

definition decr_ref :: "obj_heap \<Rightarrow> nat \<Rightarrow> obj_heap res" where
  "decr_ref h a = res_bind (obj_get h a) (\<lambda>obj.
     if 1000 < refcount obj then Inr h
     else if refcount obj = 1 then Inr (obj_put h a None)
     else if refcount obj \<le> 0 then Inl (Panic ''decrRefCount against refcount <= 0'')
     else Inr (obj_put h a (Some (obj\<lparr>refcount := refcount obj - 1\<rparr>))))"

definition latte_c_ref :: latte_c where
  "latte_c_ref = \<lparr>
     OBJ_SHARED_REFCOUNT = 1001, OBJ_STATIC_REFCOUNT = 1000, LRU_CLOCK_MAX = 0xFFFFFF,
     PROTO_REPLY_CHUNK_BYTES = 16, PROTO_MBULK_BIG_ARG = 12,
     CLIENT_CLOSE_AFTER_REPLY = 64, CLIENT_CLOSE_ASAP = 1024,
     latte_object_new = (\<lambda>t s. (mk_string_obj s)\<lparr>otype := t\<rparr>),
     string_object_new = mk_string_obj,
     dup_string_object = (\<lambda>obj. obj\<lparr>refcount := 1\<rparr>),
     sds_encoded_object = (\<lambda>obj. encoding obj = OBJ_ENCODING_RAW),
     string_object_len = (\<lambda>obj. case ptr obj of Ptr_bytes s \<Rightarrow> length s | Ptr_long n \<Rightarrow> length (dec n) | _ \<Rightarrow> 0),
     get_sds_from_object = (\<lambda>obj. case ptr obj of Ptr_bytes s \<Rightarrow> Some s | _ \<Rightarrow> None),
     latte_object_incr_ref_count = (\<lambda>h a. res_bind (obj_get h a) (\<lambda>obj.
        if refcount obj < 1000 then Inr (obj_put h a (Some (obj\<lparr>refcount := refcount obj + 1\<rparr>))) else Inr h)),
     latte_object_decr_ref_count = decr_ref,
     string2ll = string2ll_ref,
     ll2string = dec,
     sds_split_args = (\<lambda>s. Some (filter (\<lambda>w. w \<noteq> []) (split_on CHR '' '' s))),
     sds_split_len = (\<lambda>s c. split_on c s),
     sds_trim = (\<lambda>s cs. dropWhile (\<lambda>c. c \<in> set cs) (rev (dropWhile (\<lambda>c. c \<in> set cs) (rev s)))),
     sds_map_chars = (\<lambda>s from to. map (\<lambda>c. case map_of (zip from to) c of None \<Rightarrow> c | Some d \<Rightarrow> d) s),
     sds_to_upper = map (\<lambda>c. if 97 \<le> (of_char c :: nat) \<and> (of_char c :: nat) \<le> 122
                              then char_of ((of_char c :: nat) - 32) else c),
     sds_to_lower = map to_lower,
     sds_cat_vprintf = (\<lambda>s. s),
     zmalloc_usable_size = (\<lambda>n. n),
     add_reply_proto = (\<lambda>c s. if reply c = [] then c\<lparr>obuf := obuf c @ s\<rparr>
                              else c\<lparr>reply := reply c @ [Some \<lparr>bsize = length s, bdata = s\<rparr>]\<rparr>)\<rparr>"

lemma hd_dec_nat_digit: "is_digit (hd (dec_nat n))"
  using dec_nat_digits [of "hd (dec_nat n)" n] by simp

lemma string2ll_ref_dec:
  assumes "llong_min \<le> n" "n \<le> llong_max"
  shows "string2ll_ref (dec n) = Some n"
proof (cases "n < 0")
  case True
  then show ?thesis using assms dec_nat_digits [of _ "nat (- n)"]
    by (auto simp: string2ll_ref_def dec_def Let_def list_all_iff)
next
  case False
  have "hd (dec_nat (nat n)) \<noteq> CHR ''-''" using hd_dec_nat_digit [of "nat n"] by auto
  with False show ?thesis using assms dec_nat_digits [of _ "nat n"]
    by (auto simp: string2ll_ref_def dec_def Let_def list_all_iff)
qed

lemma number_laws_ref: "number_laws latte_c_ref"
  unfolding number_laws_def
proof (intro conjI allI impI)
  fix s n assume "string2ll latte_c_ref s = Some n"
  then have "string2ll_ref s = Some n" by (simp add: latte_c_ref_def)
  then show "llong_min \<le> n" "n \<le> llong_max"
    by (simp_all add: string2ll_ref_def Let_def split: if_splits)
qed (simp_all add: latte_c_ref_def string2ll_ref_dec)

lemma object_laws_ref: "object_laws latte_c_ref"
  unfolding object_laws_def string_obj_def
  by (auto simp: latte_c_ref_def mk_string_obj_def decr_ref_def)

lemma sds_laws_ref: "sds_laws latte_c_ref"
proof -
  have "filter (\<lambda>w. w \<noteq> []) ws = ws" if "list_all plain_word ws" for ws
    using that by (auto simp: filter_id_conv list_all_iff plain_word_def)
  then show ?thesis by (simp add: sds_laws_def latte_c_ref_def split_on_unwords)
qed

lemma latte_client_self: "\<exists>b r. c = c\<lparr>obuf := b, reply := r\<rparr>"
  "\<exists>b r. c\<lparr>obuf := x\<rparr> = c\<lparr>obuf := b, reply := r\<rparr>" "\<exists>b r. c\<lparr>reply := y\<rparr> = c\<lparr>obuf := b, reply := r\<rparr>"
  by (metis latte_client.surjective latte_client.update_convs(5,6))+

lemma reply_laws_ref: "reply_laws latte_c_ref"
  unfolding reply_laws_def
  by (auto simp: latte_c_ref_def client_output_def latte_client_self)

lemma flag_laws_ref: "flag_laws latte_c_ref"
  by (simp add: flag_laws_def latte_c_ref_def)

lemma latte_c_ref_laws: "latte_c_laws latte_c_ref"
  by (simp add: latte_c_laws_def object_laws_ref number_laws_ref sds_laws_ref reply_laws_ref flag_laws_ref)

end
