(* ===== verification/Kv_Store.thy ===== *)
theory Kv_Store
  imports Latte_C
begin

text \<open>
  The key-value store of \<open>src/redis/db.c\<close>: an array of dictionaries, one per slot, with a count
  of all keys and, where there are several dictionaries, a binary indexed tree over their sizes.
  The section on the tree proves its update against sums over the sizes; the section after it
  the invariant and the map behaviour of the store's operations, collected as the interface
  \<open>kv_map\<close> that the database layer is written against.
\<close>

section \<open>The tables of functions\<close>

text \<open>The functions, by name; \<open>None\<close> in a table is a null pointer.\<close>

datatype dict_fn =
    Dict_sds_hash | Dict_sds_case_hash | Dict_char_hash | Dict_cstring_key_hash | Dict_object_hash | Dict_encode_object_hash
  | Dict_sds_dup
  | Dict_sds_key_compare | Dict_sds_key_case_compare | Dict_char_key_compare | Dict_cstring_key_compare | Dict_object_key_compare | Dict_encode_object_key_compare
  | Dict_sds_destructor | Dict_object_destructor | Dict_list_destructor | Dict_delete_metric_entry
  | Dict_resize_allowed
  | Kv_store_dict_meta_data_size

record dict_func =
  hash_function :: "dict_fn option"
  key_dup :: "dict_fn option"
  val_dup :: "dict_fn option"
  key_compare :: "dict_fn option"
  key_destructor :: "dict_fn option"
  val_destructor :: "dict_fn option"
  expand_allowed :: "dict_fn option"
  metadata_bytes :: "dict_fn option"

definition kv_store_keys_dict_type :: dict_func where
  "kv_store_keys_dict_type =
     \<lparr>hash_function = Some Dict_sds_hash, key_dup = None, val_dup = None, key_compare = Some Dict_sds_key_compare, key_destructor = Some Dict_sds_destructor,
      val_destructor = Some Dict_object_destructor, expand_allowed = Some Dict_resize_allowed, metadata_bytes = Some Kv_store_dict_meta_data_size\<rparr>"

definition kv_store_expires_dict_type :: dict_func where
  "kv_store_expires_dict_type =
     \<lparr>hash_function = Some Dict_sds_hash, key_dup = Some Dict_sds_dup, val_dup = None, key_compare = Some Dict_sds_key_compare,
      key_destructor = Some Dict_sds_destructor, val_destructor = None, expand_allowed = Some Dict_resize_allowed, metadata_bytes = Some Kv_store_dict_meta_data_size\<rparr>"

section \<open>The store\<close>

record 'v kv_store =
  kv_flags :: "32 word"
  dicts :: "'v dict option list"
  num_dicts :: nat
  num_dicts_bits :: nat
  rehashing :: "nat list"
  resize_cursor :: int
  allocated_dicts :: int
  non_empty_dicts :: int
  key_count :: int
  bucket_count :: int
  dict_size_index :: "int list"
  overhead_hashtable_lut :: int
  overhead_hashtable_rehashing :: int

definition KVSTORE_ALLOCATE_DICTS_ON_DEMAND :: "32 word" where
  "KVSTORE_ALLOCATE_DICTS_ON_DEMAND = 1"

definition get_kv_store_index_for_key :: "string \<Rightarrow> nat" where
  "get_kv_store_index_for_key key = 0"

definition kv_store_get_dict :: "'v kv_store \<Rightarrow> nat \<Rightarrow> 'v dict option res" where
  "kv_store_get_dict kvs didx =
     (if didx < length (dicts kvs) then Inr (dicts kvs ! didx) else Inl (Out_of_bounds ''dicts''))"

definition kv_store_create_dict_if_needed ::
  "'v dict_ops \<Rightarrow> 'v kv_store \<Rightarrow> nat \<Rightarrow> ('v kv_store \<times> 'v dict) res" where
  "kv_store_create_dict_if_needed D kvs didx =
     res_bind (kv_store_get_dict kvs didx) (\<lambda>d.
       case d of
         Some d \<Rightarrow> Inr (kvs, d)
       | None \<Rightarrow> Inr (kvs\<lparr>dicts := (dicts kvs)[didx := Some (dict_new D)],
                       allocated_dicts := allocated_dicts kvs + 1\<rparr>, dict_new D))"

definition kv_store_dict_find :: "'v dict_ops \<Rightarrow> 'v kv_store \<Rightarrow> nat \<Rightarrow> string \<Rightarrow> string option res" where
  "kv_store_dict_find D kvs didx key =
     res_bind (kv_store_get_dict kvs didx) (\<lambda>d.
       case d of None \<Rightarrow> Inr None | Some d \<Rightarrow> Inr (dict_find D d key))"

text \<open>
  \<open>idx & -idx\<close>, the lowest set bit. The loop of \<open>cumulative_key_count_add\<close> that adds \<open>delta\<close>
  along the parents of a node; at index 0, which it never starts from, it would not end.
\<close>

definition lowbit :: "nat \<Rightarrow> nat" where
  "lowbit n = nat (int n AND (- int n))"

lemma and_double: "(2 * a) AND (2 * b) = 2 * (a AND b)" for a b :: int
  by (simp add: and_int_rec [of "2 * a"])

lemma and_neg_odd: "(2 * m + 1) AND (- (2 * m + 1)) = (1 :: int)"
proof -
  have half: "(- (2 * m) - 1) div 2 = - m - 1" by simp
  have "m AND (- m - 1) = m AND NOT m" by (simp add: not_int_def)
  then have "m AND (- m - 1) = 0" by simp
  with half show ?thesis by (simp add: and_int_rec [of "2 * m + 1"])
qed

lemma and_neg_pow2: "(2 ^ k * (2 * m + 1)) AND (- (2 ^ k * (2 * m + 1))) = (2 ^ k :: int)"
proof (induction k)
  case 0
  then show ?case using and_neg_odd [of m] by simp
next
  case (Suc k)
  have "2 ^ Suc k * (2 * m + 1) AND - (2 ^ Suc k * (2 * m + 1))
    = (2 * (2 ^ k * (2 * m + 1))) AND (2 * (- (2 ^ k * (2 * m + 1))))"
    by (simp add: mult.assoc)
  also have "\<dots> = 2 * 2 ^ k" by (simp only: and_double Suc.IH)
  finally show ?case by simp
qed

lemma lowbit_odd_part: "lowbit (2 ^ k * (2 * m + 1)) = 2 ^ k"
proof -
  have "int (2 ^ k * (2 * m + 1)) = 2 ^ k * (2 * int m + 1)"
    by (simp add: algebra_simps)
  then show ?thesis unfolding lowbit_def by (simp only: and_neg_pow2) (simp add: nat_power_eq)
qed

lemma odd_part: "0 < n \<Longrightarrow> \<exists>k m. n = 2 ^ k * (2 * m + 1)" for n :: nat
proof (induction n rule: less_induct)
  case (less n)
  show ?case
  proof (cases "odd n")
    case True
    then obtain m where "n = 2 * m + 1" by (auto elim: oddE)
    then have "n = 2 ^ 0 * (2 * m + 1)" by simp
    then show ?thesis by blast
  next
    case False
    then obtain n' where n: "n = 2 * n'" by auto
    with less.prems have "n' < n" "0 < n'" by auto
    with less.IH obtain k m where "n' = 2 ^ k * (2 * m + 1)" by blast
    with n have "n = 2 ^ Suc k * (2 * m + 1)" by simp
    then show ?thesis by blast
  qed
qed

lemma lowbit_obtain:
  assumes "0 < n"
  obtains k m where "n = 2 ^ k * (2 * m + 1)" "lowbit n = 2 ^ k"
  using odd_part [OF assms] lowbit_odd_part by metis

lemma lowbit_pos [simp]: "0 < n \<Longrightarrow> 0 < lowbit n"
  by (erule lowbit_obtain) simp

lemma lowbit_le: "0 < n \<Longrightarrow> lowbit n \<le> n"
  by (erule lowbit_obtain) simp

lemma pow2_split_less: "s < t \<Longrightarrow> \<exists>c. (2 :: nat) ^ t = 2 ^ s * (2 * c)"
  by (rule exI [of _ "2 ^ (t - s - 1)"]) (simp flip: power_Suc power_add)

text \<open>
  Climbing from \<open>i\<close> to its parent loses no node that covers \<open>i\<close> and gains none: the node \<open>j\<close>
  above \<open>i\<close> covers the range that ends at \<open>j\<close> and has length \<open>lowbit j\<close>.
\<close>

lemma fenwick_parent:
  assumes "0 < i" "i < j"
  shows "j - lowbit j < i \<longleftrightarrow> i + lowbit i \<le> j \<and> j - lowbit j < i + lowbit i"
proof -
  obtain s a where i: "i = 2 ^ s * (2 * a + 1)" and li: "lowbit i = 2 ^ s"
    using assms(1) by (rule lowbit_obtain)
  have "0 < j" using assms by simp
  then obtain t b where j: "j = 2 ^ t * (2 * b + 1)" and lj: "lowbit j = 2 ^ t"
    by (rule lowbit_obtain)
  have base: "j - lowbit j = 2 ^ t * (2 * b)" using j lj by simp
  have up: "i + lowbit i = 2 ^ s * (2 * a + 2)" using i li by simp
  show ?thesis
  proof (cases "s < t")
    case True
    then obtain c where c: "(2 :: nat) ^ t = 2 ^ s * (2 * c)" using pow2_split_less by blast
    have 1: "j - lowbit j < i \<longleftrightarrow> 2 * c * (2 * b) < 2 * a + 1"
      unfolding base i c mult.assoc mult_less_cancel1 by simp
    have 2: "i < j \<longleftrightarrow> 2 * a + 1 < 2 * c * (2 * b + 1)"
      unfolding i j c mult.assoc mult_less_cancel1 by simp
    have 3: "i + lowbit i \<le> j \<longleftrightarrow> 2 * a + 2 \<le> 2 * c * (2 * b + 1)"
      unfolding up unfolding j c mult.assoc mult_le_cancel1 by simp
    have 4: "j - lowbit j < i + lowbit i \<longleftrightarrow> 2 * c * (2 * b) < 2 * a + 2"
      unfolding base up c mult.assoc mult_less_cancel1 by simp
    from assms(2) 2 have lt: "2 * a + 1 < 2 * (c * (2 * b + 1))" by (simp only: mult.assoc)
    show ?thesis unfolding 1 3 4 mult.assoc using lt by presburger
  next
    case False
    have "\<exists>c. (2 :: nat) ^ s = 2 ^ t * c"
      using False by (intro exI [of _ "2 ^ (s - t)"]) (simp flip: power_add)
    then obtain c where c: "(2 :: nat) ^ s = 2 ^ t * c" by blast
    have "i < j \<longleftrightarrow> c * (2 * a + 1) < 2 * b + 1"
      unfolding i j c mult.assoc mult_less_cancel1 by simp
    moreover have "j - lowbit j < i \<longleftrightarrow> 2 * b < c * (2 * a + 1)"
      unfolding base i c mult.assoc mult_less_cancel1 by simp
    ultimately have no: "\<not> j - lowbit j < i" using assms(2) by linarith
    have up': "i + lowbit i = 2 ^ t * (2 * (c * (a + 1)))"
      unfolding up c by (simp add: algebra_simps)
    have le: "i + lowbit i \<le> j \<longleftrightarrow> 2 * (c * (a + 1)) \<le> 2 * b + 1"
      unfolding up' unfolding j mult_le_cancel1 by simp
    have less: "j - lowbit j < i + lowbit i \<longleftrightarrow> 2 * b < 2 * (c * (a + 1))"
      unfolding base up' mult_less_cancel1 by simp
    show ?thesis unfolding le less using no by presburger
  qed
qed

function dict_size_index_add :: "nat \<Rightarrow> nat \<Rightarrow> int \<Rightarrow> int list \<Rightarrow> int list res" where
  "dict_size_index_add n idx delta arr =
     (if idx \<le> n then
        if idx = 0 then Inl Diverges
        else if length arr \<le> idx then Inl (Out_of_bounds ''dict_size_index'')
        else if delta < 0 \<and> arr ! idx < \<bar>delta\<bar>
          then Inl (Assert_fail ''kvs->dict_size_index[idx] is less than labs(delta)'')
        else dict_size_index_add n (idx + lowbit idx) delta (arr[idx := arr ! idx + delta])
      else Inr arr)"
  by pat_completeness auto
termination
  by (relation "measure (\<lambda>(n, idx, delta, arr). Suc n - idx)") (auto simp: diff_less_mono2)

declare dict_size_index_add.simps [simp del]

text \<open>
  \<open>cumulative_key_count_add\<close>: the total, the count of non-empty dictionaries and the tree.
\<close>

definition cumulative_key_count_add ::
  "'v dict_ops \<Rightarrow> 'v kv_store \<Rightarrow> nat \<Rightarrow> int \<Rightarrow> 'v kv_store res" where
  "cumulative_key_count_add D kvs didx delta =
     (let kvs = kvs\<lparr>key_count := key_count kvs + delta\<rparr> in
      res_bind (kv_store_get_dict kvs didx) (\<lambda>d.
        case d of
          None \<Rightarrow> Inl (Null_deref ''dict_size'')
        | Some d \<Rightarrow>
            let dsize = dict_size D d;
                non_empty_dicts_delta = (if dsize = 1 then 1 else if dsize = 0 then -1 else 0);
                kvs = kvs\<lparr>non_empty_dicts := non_empty_dicts kvs + non_empty_dicts_delta\<rparr>
            in if num_dicts kvs = 1 then Inr kvs
               else res_bind (dict_size_index_add (num_dicts kvs) (didx + 1) delta (dict_size_index kvs))
                      (\<lambda>index. Inr (kvs\<lparr>dict_size_index := index\<rparr>))))"

definition kv_store_dict_delete_key ::
  "'v dict_ops \<Rightarrow> 'v kv_store \<Rightarrow> nat \<Rightarrow> string \<Rightarrow> ('v kv_store \<times> 'v option option) res" where
  "kv_store_dict_delete_key D kvs didx key =
     res_bind (kv_store_get_dict kvs didx) (\<lambda>d.
       case d of
         None \<Rightarrow> Inr (kvs, None)
       | Some d \<Rightarrow>
           let (d', ret) = dict_delete_key D d key;
               kvs' = kvs\<lparr>dicts := (dicts kvs)[didx := Some d']\<rparr>
           in case ret of
                None \<Rightarrow> Inr (kvs', None)
              | Some v \<Rightarrow> res_bind (cumulative_key_count_add D kvs' didx (-1)) (\<lambda>kvs''. Inr (kvs'', Some v)))"

definition kv_store_dict_add_raw ::
  "'v dict_ops \<Rightarrow> 'v kv_store \<Rightarrow> nat \<Rightarrow> string \<Rightarrow> ('v kv_store \<times> string option \<times> string option) res" where
  "kv_store_dict_add_raw D kvs didx key =
     res_bind (kv_store_create_dict_if_needed D kvs didx) (\<lambda>(kvs, d).
       let (d', ret, existing) = dict_add_raw D d key;
           kvs' = kvs\<lparr>dicts := (dicts kvs)[didx := Some d']\<rparr>
       in case ret of
            None \<Rightarrow> Inr (kvs', None, existing)
          | Some de \<Rightarrow> res_bind (cumulative_key_count_add D kvs' didx 1) (\<lambda>kvs''. Inr (kvs'', Some de, existing)))"

definition kv_store_dict_set_val ::
  "'v dict_ops \<Rightarrow> 'v kv_store \<Rightarrow> nat \<Rightarrow> string \<Rightarrow> 'v \<Rightarrow> 'v kv_store res" where
  "kv_store_dict_set_val D kvs didx de val =
     res_bind (kv_store_get_dict kvs didx) (\<lambda>d.
       case d of
         None \<Rightarrow> Inl (Null_deref ''dict_set_val'')
       | Some d \<Rightarrow> Inr (kvs\<lparr>dicts := (dicts kvs)[didx := Some (dict_set_val D d de val)]\<rparr>))"

text \<open>How the library replaces the key of an entry is an argument.\<close>

definition kv_store_dict_set_key ::
  "('v dict \<Rightarrow> string \<Rightarrow> string \<Rightarrow> 'v dict) \<Rightarrow> 'v kv_store \<Rightarrow> nat \<Rightarrow> string \<Rightarrow> string \<Rightarrow> ('v kv_store \<times> int) res" where
  "kv_store_dict_set_key dict_set_key kvs didx de key =
     res_bind (kv_store_get_dict kvs didx) (\<lambda>d.
       case d of
         None \<Rightarrow> Inl (Null_deref ''dict_set_key'')
       | Some d \<Rightarrow> Inr (kvs\<lparr>dicts := (dicts kvs)[didx := Some (dict_set_key d de key)]\<rparr>, 0))"

text \<open>\<open>dict_get_entry_val\<close> on an entry of the store.\<close>

definition kv_store_entry_val :: "'v dict_ops \<Rightarrow> 'v kv_store \<Rightarrow> nat \<Rightarrow> string \<Rightarrow> 'v option res" where
  "kv_store_entry_val D kvs didx de =
     res_bind (kv_store_get_dict kvs didx) (\<lambda>d.
       case d of
         None \<Rightarrow> Inl (Null_deref ''dict_get_entry_val'')
       | Some d \<Rightarrow> Inr (dict_get_entry_val D d de))"

text \<open>\<open>kv_store_create\<close>; the loop creates the dictionaries \<open>i, \<dots>, num_dicts - 1\<close>.\<close>

fun kv_store_create_dicts :: "'v dict_ops \<Rightarrow> nat \<Rightarrow> nat \<Rightarrow> 'v kv_store \<Rightarrow> 'v kv_store res" where
  "kv_store_create_dicts D 0 i kvs = Inr kvs"
| "kv_store_create_dicts D (Suc n) i kvs =
     res_bind (kv_store_create_dict_if_needed D kvs i) (\<lambda>(kvs', _). kv_store_create_dicts D n (Suc i) kvs')"

definition kv_store_create :: "'v dict_ops \<Rightarrow> dict_func \<Rightarrow> nat \<Rightarrow> 32 word \<Rightarrow> 'v kv_store res" where
  "kv_store_create D type bits flags =
     res_bind (latte_assert (bits \<le> 16) ''num_dicts_bits is too large'') (\<lambda>_.
     res_bind (latte_assert (metadata_bytes type = Some Kv_store_dict_meta_data_size)
         ''type->dictEntryMetadataBytes is not equal to kv_store_dict_meta_data_size'') (\<lambda>_.
       let n = 2 ^ bits;
           kvs = \<lparr>kv_flags = flags, dicts = replicate n None, num_dicts = n, num_dicts_bits = bits,
                  rehashing = [], resize_cursor = 0, allocated_dicts = 0, non_empty_dicts = 0,
                  key_count = 0, bucket_count = 0, dict_size_index = [],
                  overhead_hashtable_lut = 0, overhead_hashtable_rehashing = 0\<rparr>
       in res_bind (if flags AND KVSTORE_ALLOCATE_DICTS_ON_DEMAND = 0
                    then kv_store_create_dicts D n 0 kvs
                    else Inr (kvs\<lparr>dicts := replicate n None\<rparr>)) (\<lambda>kvs.
            Inr (kvs\<lparr>rehashing := [], key_count := 0, non_empty_dicts := 0, resize_cursor := 0,
                      dict_size_index := (if 1 < n then replicate (n + 1) 0 else []),
                      bucket_count := 0, overhead_hashtable_lut := 0,
                      overhead_hashtable_rehashing := 0\<rparr>))))"

section \<open>The binary indexed tree\<close>

text \<open>What node \<open>j\<close> holds: the sizes of the dictionaries it covers.\<close>

definition fenwick_node :: "int list \<Rightarrow> nat \<Rightarrow> int" where
  "fenwick_node sizes j = (\<Sum>i\<in>{j - lowbit j..<j}. sizes ! i)"

definition fenwick_ok :: "nat \<Rightarrow> int list \<Rightarrow> int list \<Rightarrow> bool" where
  "fenwick_ok n sizes index \<longleftrightarrow>
     length index = n + 1 \<and> (\<forall>j. 0 < j \<and> j \<le> n \<longrightarrow> index ! j = fenwick_node sizes j)"

definition covers :: "nat \<Rightarrow> nat \<Rightarrow> bool" where
  "covers j i \<longleftrightarrow> i \<le> j \<and> j - lowbit j < i"

lemma covers_parent: "0 < i \<Longrightarrow> i \<noteq> j \<Longrightarrow> covers j i \<longleftrightarrow> covers j (i + lowbit i)"
  using fenwick_parent [of i j] lowbit_pos [of i] unfolding covers_def
  by (cases "i < j") auto

lemma covers_self: "0 < i \<Longrightarrow> covers i i"
  by (simp add: covers_def)

lemma dict_size_index_add_spec:
  assumes "0 < idx" "length arr = n + 1"
    and "\<And>j. j \<le> n \<Longrightarrow> covers j idx \<Longrightarrow> delta < 0 \<Longrightarrow> \<bar>delta\<bar> \<le> arr ! j"
  shows "\<exists>arr'. dict_size_index_add n idx delta arr = Inr arr' \<and> length arr' = n + 1 \<and>
    (\<forall>j\<le>n. arr' ! j = (if covers j idx then arr ! j + delta else arr ! j))"
  using assms
proof (induction n idx delta arr rule: dict_size_index_add.induct)
  case (1 n idx delta arr)
  show ?case
  proof (cases "idx \<le> n")
    case False
    then show ?thesis by (auto simp: dict_size_index_add.simps [of n idx] covers_def "1.prems")
  next
    case True
    let ?arr = "arr[idx := arr ! idx + delta]"
    have ok: "\<not> (delta < 0 \<and> arr ! idx < \<bar>delta\<bar>)"
      using "1.prems"(3) [OF True covers_self [OF "1.prems"(1)]] by auto
    have step: "dict_size_index_add n idx delta arr
      = dict_size_index_add n (idx + lowbit idx) delta ?arr"
      unfolding dict_size_index_add.simps [of n idx delta arr] using True ok "1.prems"(1,2) by auto
    have pre: "\<bar>delta\<bar> \<le> ?arr ! j"
      if "j \<le> n" "covers j (idx + lowbit idx)" "delta < 0" for j
    proof -
      have "j \<noteq> idx" using that(2) lowbit_pos [OF "1.prems"(1)] by (auto simp: covers_def)
      then show ?thesis using that "1.prems"(1,3) covers_parent [of idx j] by auto
    qed
    obtain arr' where arr': "dict_size_index_add n (idx + lowbit idx) delta ?arr = Inr arr'"
      and len: "length arr' = n + 1"
      and val: "\<forall>j\<le>n. arr' ! j = (if covers j (idx + lowbit idx) then ?arr ! j + delta else ?arr ! j)"
      using "1.IH" [OF True _ _ ok _ _ pre] "1.prems" True by auto
    have "arr' ! j = (if covers j idx then arr ! j + delta else arr ! j)" if "j \<le> n" for j
    proof (cases "j = idx")
      case True
      then have "\<not> covers j (idx + lowbit idx)"
        using lowbit_pos [OF "1.prems"(1)] by (auto simp: covers_def)
      with True that val covers_self [OF "1.prems"(1)] "1.prems"(2) show ?thesis by auto
    next
      case False
      with that val covers_parent [of idx j] "1.prems"(1) show ?thesis by auto
    qed
    with step arr' len show ?thesis by auto
  qed
qed

lemma fenwick_node_update:
  assumes "k < length sizes" "0 < j" "j \<le> length sizes"
  shows "fenwick_node (sizes[k := sizes ! k + delta]) j
    = fenwick_node sizes j + (if covers j (k + 1) then delta else 0)"
proof -
  have "fenwick_node (sizes[k := sizes ! k + delta]) j
    = (\<Sum>i\<in>{j - lowbit j..<j}. if i = k then sizes ! i + delta else sizes ! i)"
    unfolding fenwick_node_def using assms by (intro sum.cong) auto
  also have "\<dots> = fenwick_node sizes j + (if j - lowbit j \<le> k \<and> k < j then delta else 0)"
    using assms(1) by (simp add: sum_nth_update fenwick_node_def)
  also have "(j - lowbit j \<le> k \<and> k < j) = covers j (k + 1)"
    by (auto simp: covers_def)
  finally show ?thesis .
qed

lemma fenwick_node_ge:
  assumes "k < length sizes" "\<forall>x\<in>set sizes. 0 \<le> x" "covers j (k + 1)" "j \<le> length sizes"
  shows "sizes ! k \<le> fenwick_node sizes j"
  unfolding fenwick_node_def
proof (rule member_le_sum)
  show "k \<in> {j - lowbit j..<j}" using assms(3) by (auto simp: covers_def)
  fix x assume "x \<in> {j - lowbit j..<j} - {k}"
  then show "0 \<le> sizes ! x" using assms(2,4) by auto
qed simp

lemma dict_size_index_add_fenwick:
  assumes ok: "fenwick_ok n sizes index" and k: "k < length sizes" and n: "n = length sizes"
    and nonneg: "\<forall>x\<in>set sizes. 0 \<le> x" and delta: "0 \<le> sizes ! k + delta"
  shows "\<exists>index'. dict_size_index_add n (k + 1) delta index = Inr index' \<and>
    fenwick_ok n (sizes[k := sizes ! k + delta]) index'"
proof -
  have len: "length index = n + 1" using ok by (simp add: fenwick_ok_def)
  have pre: "\<bar>delta\<bar> \<le> index ! j" if "j \<le> n" "covers j (k + 1)" "delta < 0" for j
  proof -
    have "index ! j = fenwick_node sizes j" using ok that by (auto simp: fenwick_ok_def covers_def)
    then show ?thesis using fenwick_node_ge [OF k nonneg that(2)] that delta n by auto
  qed
  obtain index' where i': "dict_size_index_add n (k + 1) delta index = Inr index'"
    and len': "length index' = n + 1"
    and val: "\<forall>j\<le>n. index' ! j = (if covers j (k + 1) then index ! j + delta else index ! j)"
    using dict_size_index_add_spec [OF _ len pre] by auto
  have "index' ! j = fenwick_node (sizes[k := sizes ! k + delta]) j" if "0 < j" "j \<le> n" for j
    using val ok that n k by (simp add: fenwick_node_update fenwick_ok_def)
  with i' len' show ?thesis by (auto simp: fenwick_ok_def)
qed

section \<open>The invariant and the map a store implements\<close>

definition dict_of :: "'v dict option \<Rightarrow> 'v dict" where
  "dict_of od = (case od of None \<Rightarrow> [] | Some d \<Rightarrow> d)"

definition kv_sizes :: "'v kv_store \<Rightarrow> int list" where
  "kv_sizes kvs = map (\<lambda>od. int (length (dict_of od))) (dicts kvs)"

definition kv_lookup :: "'v kv_store \<Rightarrow> nat \<Rightarrow> string \<Rightarrow> 'v option option" where
  "kv_lookup kvs didx key = map_option snd (dict_map (\<lambda>k. k) (dict_of (dicts kvs ! didx)) key)"

definition kv_slot :: "'v kv_store \<Rightarrow> nat \<Rightarrow> bool" where
  "kv_slot kvs didx \<longleftrightarrow> didx < num_dicts kvs"

text \<open>
  The invariant: the dictionary library keeps its contract, the array has its length, the total
  is the sum of the sizes and the tree (where there is one) holds the sums of the sizes.
\<close>

definition kv_inv :: "'v dict_ops \<Rightarrow> 'v kv_store \<Rightarrow> bool" where
  "kv_inv D kvs \<longleftrightarrow>
     dict_laws (\<lambda>k. k) D \<and> length (dicts kvs) = num_dicts kvs \<and>
     (\<forall>od\<in>set (dicts kvs). dict_wf (\<lambda>k. k) (dict_of od)) \<and>
     key_count kvs = sum_list (kv_sizes kvs) \<and>
     (num_dicts kvs \<noteq> 1 \<longrightarrow> fenwick_ok (num_dicts kvs) (kv_sizes kvs) (dict_size_index kvs))"

lemma dict_of_simps [simp]: "dict_of None = []" "dict_of (Some d) = d"
  by (simp_all add: dict_of_def)

lemma length_kv_sizes [simp]: "length (kv_sizes kvs) = length (dicts kvs)"
  by (simp add: kv_sizes_def)

lemma kv_sizes_nonneg: "\<forall>x\<in>set (kv_sizes kvs). 0 \<le> x"
  by (auto simp: kv_sizes_def)

lemma kv_sizes_nth: "i < length (dicts kvs) \<Longrightarrow> kv_sizes kvs ! i = int (length (dict_of (dicts kvs ! i)))"
  by (simp add: kv_sizes_def)

lemma kv_sizes_update:
  "kv_sizes (kvs\<lparr>dicts := (dicts kvs)[i := Some d]\<rparr>) = (kv_sizes kvs)[i := int (length d)]"
  by (simp add: kv_sizes_def map_update)

lemma kv_invD:
  assumes "kv_inv D kvs" "kv_slot kvs i"
  shows "dict_laws (\<lambda>k. k) D" "i < length (dicts kvs)" "i < num_dicts kvs"
    "length (dicts kvs) = num_dicts kvs" "dict_wf (\<lambda>k. k) (dict_of (dicts kvs ! i))"
  using assms by (auto simp: kv_inv_def kv_slot_def)

lemma kv_get_dict:
  "kv_inv D kvs \<Longrightarrow> kv_slot kvs i \<Longrightarrow> kv_store_get_dict kvs i = Inr (dicts kvs ! i)"
  by (simp add: kv_store_get_dict_def kv_invD)

text \<open>
  One dictionary replaced by one that holds \<open>delta\<close> more entries, the counters then brought up
  to date: the invariant holds again.
\<close>

lemma cumulative_key_count_add_inv:
  assumes inv: "kv_inv D kvs" and i: "kv_slot kvs i" and wf: "dict_wf (\<lambda>k. k) d"
    and size: "int (length d) = kv_sizes kvs ! i + delta"
  shows "\<exists>kvs'. cumulative_key_count_add D (kvs\<lparr>dicts := (dicts kvs)[i := Some d]\<rparr>) i delta = Inr kvs' \<and>
    kv_inv D kvs' \<and> num_dicts kvs' = num_dicts kvs \<and> dicts kvs' = (dicts kvs)[i := Some d] \<and>
    key_count kvs' = key_count kvs + delta \<and>
    non_empty_dicts kvs' = non_empty_dicts kvs +
      (if length d = 1 then 1 else if length d = 0 then -1 else 0)"
proof -
  let ?kvs = "kvs\<lparr>dicts := (dicts kvs)[i := Some d]\<rparr>"
  note I = kv_invD [OF inv i]
  have sz: "kv_sizes ?kvs = (kv_sizes kvs)[i := kv_sizes kvs ! i + delta]"
    by (simp add: kv_sizes_update size)
  have total: "key_count kvs + delta = sum_list (kv_sizes ?kvs)"
    using inv I by (simp add: sz sum_list_update_int kv_inv_def)
  have wfs: "\<forall>od\<in>set (dicts ?kvs). dict_wf (\<lambda>k. k) (dict_of od)"
    using inv wf by (auto simp: kv_inv_def dest!: subsetD [OF set_update_subset_insert])
  have len: "dict_size D d = length d" using I(1) wf by (rule dict_laws_size)
  have get: "kv_store_get_dict (?kvs\<lparr>key_count := k\<rparr>) i = Inr (Some d)" for k
    using I by (simp add: kv_store_get_dict_def)
  let ?ne = "non_empty_dicts kvs + (if length d = 1 then 1 else if length d = 0 then -1 else 0)"
  let ?out = "?kvs\<lparr>key_count := key_count kvs + delta, non_empty_dicts := ?ne\<rparr>"
  have out_sizes: "kv_sizes (?out\<lparr>dict_size_index := x\<rparr>) = kv_sizes ?kvs" "kv_sizes ?out = kv_sizes ?kvs"
    for x by (simp_all add: kv_sizes_def)
  show ?thesis
  proof (cases "num_dicts kvs = 1")
    case True
    have "cumulative_key_count_add D ?kvs i delta = Inr ?out"
      unfolding cumulative_key_count_add_def Let_def using get True len by simp
    moreover have "kv_inv D ?out"
      unfolding kv_inv_def out_sizes using total wfs I True by simp
    ultimately show ?thesis by (intro exI [of _ ?out] conjI) simp_all
  next
    case False
    have nonneg: "0 \<le> kv_sizes kvs ! i + delta" using size by simp
    have tree: "fenwick_ok (num_dicts kvs) (kv_sizes kvs) (dict_size_index kvs)"
      using inv False by (simp add: kv_inv_def)
    have "i < length (kv_sizes kvs)" "num_dicts kvs = length (kv_sizes kvs)" using I by simp_all
    from dict_size_index_add_fenwick [OF tree this kv_sizes_nonneg nonneg] obtain index' where
      idx: "dict_size_index_add (num_dicts kvs) (i + 1) delta (dict_size_index kvs) = Inr index'"
      and ok: "fenwick_ok (num_dicts kvs) (kv_sizes ?kvs) index'"
      unfolding sz by blast
    have "cumulative_key_count_add D ?kvs i delta = Inr (?out\<lparr>dict_size_index := index'\<rparr>)"
      unfolding cumulative_key_count_add_def Let_def using get False len idx by simp
    moreover have "kv_inv D (?out\<lparr>dict_size_index := index'\<rparr>)"
      unfolding kv_inv_def out_sizes using total wfs I ok by simp
    ultimately show ?thesis
      by (intro exI [of _ "?out\<lparr>dict_size_index := index'\<rparr>"] conjI) simp_all
  qed
qed

lemma kv_lookup_update:
  "i < length (dicts kvs) \<Longrightarrow> dicts kvs' = (dicts kvs)[i := Some d] \<Longrightarrow>
   kv_lookup kvs' = (kv_lookup kvs)(i := (\<lambda>k. map_option snd (dict_map (\<lambda>k. k) d k)))"
  by (auto simp: kv_lookup_def fun_eq_iff nth_list_update)

section \<open>The interface of the store\<close>

text \<open>
  What the database layer relies on: every slot of a store is a map from keys to values (an
  entry whose value is not set yet maps to \<open>Some None\<close>).
\<close>

locale kv_map =
  fixes inv :: "'s \<Rightarrow> bool"
    and slot :: "'s \<Rightarrow> nat \<Rightarrow> bool"
    and lookup :: "'s \<Rightarrow> nat \<Rightarrow> string \<Rightarrow> 'v option option"
    and find :: "'s \<Rightarrow> nat \<Rightarrow> string \<Rightarrow> string option res"
    and entry_val :: "'s \<Rightarrow> nat \<Rightarrow> string \<Rightarrow> 'v option res"
    and add_raw :: "'s \<Rightarrow> nat \<Rightarrow> string \<Rightarrow> ('s \<times> string option \<times> string option) res"
    and set_val :: "'s \<Rightarrow> nat \<Rightarrow> string \<Rightarrow> 'v \<Rightarrow> 's res"
    and delete_key :: "'s \<Rightarrow> nat \<Rightarrow> string \<Rightarrow> ('s \<times> 'v option option) res"
  assumes find: "inv s \<Longrightarrow> slot s i \<Longrightarrow> find s i k = Inr (map_option (\<lambda>_. k) (lookup s i k))"
    and entry_val: "inv s \<Longrightarrow> slot s i \<Longrightarrow> lookup s i k = Some w \<Longrightarrow> entry_val s i k = Inr w"
    and add_raw_new: "inv s \<Longrightarrow> slot s i \<Longrightarrow> lookup s i k = None \<Longrightarrow>
      \<exists>s'. add_raw s i k = Inr (s', Some k, None) \<and> inv s' \<and> slot s' = slot s \<and>
        lookup s' = (lookup s)(i := (lookup s i)(k \<mapsto> None))"
    and add_raw_old: "inv s \<Longrightarrow> slot s i \<Longrightarrow> lookup s i k = Some w \<Longrightarrow>
      \<exists>s'. add_raw s i k = Inr (s', None, Some k) \<and> inv s' \<and> slot s' = slot s \<and>
        lookup s' = lookup s"
    and set_val: "inv s \<Longrightarrow> slot s i \<Longrightarrow> lookup s i k = Some w \<Longrightarrow>
      \<exists>s'. set_val s i k v = Inr s' \<and> inv s' \<and> slot s' = slot s \<and>
        lookup s' = (lookup s)(i := (lookup s i)(k \<mapsto> Some v))"
    and delete_old: "inv s \<Longrightarrow> slot s i \<Longrightarrow> lookup s i k = Some w \<Longrightarrow>
      \<exists>s'. delete_key s i k = Inr (s', Some w) \<and> inv s' \<and> slot s' = slot s \<and>
        lookup s' = (lookup s)(i := (lookup s i)(k := None))"
    and delete_none: "inv s \<Longrightarrow> slot s i \<Longrightarrow> lookup s i k = None \<Longrightarrow>
      \<exists>s'. delete_key s i k = Inr (s', None) \<and> inv s' \<and> slot s' = slot s \<and> lookup s' = lookup s"
begin

lemma store_new:
  assumes "inv s" "slot s i" "lookup s i k = None"
  obtains s1 s2 where "add_raw s i k = Inr (s1, Some k, None)" "set_val s1 i k v = Inr s2"
    "inv s2" "slot s2 = slot s" "lookup s2 = (lookup s)(i := (lookup s i)(k \<mapsto> Some v))"
proof -
  obtain s1 where s1: "add_raw s i k = Inr (s1, Some k, None)" "inv s1" "slot s1 = slot s"
    "lookup s1 = (lookup s)(i := (lookup s i)(k \<mapsto> None))"
    using add_raw_new [OF assms] by blast
  have "lookup s1 i k = Some None" "slot s1 i" using s1 assms by simp_all
  then obtain s2 where "set_val s1 i k v = Inr s2" "inv s2" "slot s2 = slot s1"
    "lookup s2 = (lookup s1)(i := (lookup s1 i)(k \<mapsto> Some v))"
    using set_val [OF s1(2)] by blast
  then show thesis using s1 by (intro that [of s1 s2]) auto
qed

lemma delete_any:
  assumes "inv s" "slot s i"
  obtains s' where "delete_key s i k = Inr (s', lookup s i k)" "inv s'" "slot s' = slot s"
    "lookup s' = (lookup s)(i := (lookup s i)(k := None))"
proof (cases "lookup s i k")
  case None
  then have "(lookup s)(i := (lookup s i)(k := None)) = lookup s" by (auto simp: fun_eq_iff)
  with delete_none [OF assms None] None that show thesis by metis
next
  case (Some v)
  with delete_old [OF assms Some] that show thesis by metis
qed

end

text \<open>The store of the code implements the interface.\<close>

lemma kv_lookup_raw:
  "kv_lookup kvs i k = None \<longleftrightarrow> dict_map (\<lambda>k. k) (dict_of (dicts kvs ! i)) k = None"
  "kv_lookup kvs i k = Some v \<Longrightarrow> dict_map (\<lambda>k. k) (dict_of (dicts kvs ! i)) k = Some (k, v)"
  by (auto simp: kv_lookup_def dest: dict_map_id_key)

lemma kv_store_dict_find_spec:
  assumes "kv_inv D kvs" "kv_slot kvs i"
  shows "kv_store_dict_find D kvs i k = Inr (map_option (\<lambda>_. k) (kv_lookup kvs i k))"
proof (cases "dicts kvs ! i")
  case None
  then show ?thesis using assms by (simp add: kv_store_dict_find_def kv_get_dict kv_lookup_def)
next
  case (Some d)
  have "map_option fst (dict_map (\<lambda>k. k) d k) = map_option (\<lambda>_. k) (dict_map (\<lambda>k. k) d k)"
    by (cases "dict_map (\<lambda>k. k) d k") (auto dest: dict_map_id_key)
  then show ?thesis
    using Some assms kv_invD [OF assms]
    by (simp add: kv_store_dict_find_def kv_get_dict kv_lookup_def dict_simps option.map_comp comp_def)
qed

lemma kv_store_entry_val_spec:
  assumes "kv_inv D kvs" "kv_slot kvs i" "kv_lookup kvs i k = Some v"
  shows "kv_store_entry_val D kvs i k = Inr v"
  using assms kv_invD [OF assms(1,2)] kv_lookup_raw(2) [OF assms(3)]
  by (cases "dicts kvs ! i") (auto simp: kv_store_entry_val_def kv_get_dict dict_simps)

text \<open>A new key counts for nothing: no counter moves and no other dictionary changes.\<close>

lemma kv_store_dict_set_key_counts:
  assumes "kv_store_dict_set_key f kvs i de key = Inr (kvs', r)"
  shows "r = 0" "key_count kvs' = key_count kvs" "non_empty_dicts kvs' = non_empty_dicts kvs" "dict_size_index kvs' = dict_size_index kvs"
    "length (dicts kvs') = length (dicts kvs)" "j \<noteq> i \<Longrightarrow> dicts kvs' ! j = dicts kvs ! j"
  using assms by (auto simp: kv_store_dict_set_key_def res_simps split: option.splits)

lemma kv_store_dict_set_val_spec:
  assumes inv: "kv_inv D kvs" "kv_slot kvs i" and look: "kv_lookup kvs i k = Some w"
  shows "\<exists>kvs'. kv_store_dict_set_val D kvs i k v = Inr kvs' \<and> kv_inv D kvs' \<and>
    kv_slot kvs' = kv_slot kvs \<and> kv_lookup kvs' = (kv_lookup kvs)(i := (kv_lookup kvs i)(k \<mapsto> Some v))"
proof -
  note I = kv_invD [OF inv] and m = kv_lookup_raw(2) [OF look]
  obtain d where d: "dicts kvs ! i = Some d" using m by (cases "dicts kvs ! i") auto
  let ?d = "dict_set_val D d k v" and ?kvs = "kvs\<lparr>dicts := (dicts kvs)[i := Some (dict_set_val D d k v)]\<rparr>"
  have set: "dict_wf (\<lambda>k. k) ?d" "length ?d = length d"
    "dict_map (\<lambda>k. k) ?d = (dict_map (\<lambda>k. k) d)(k \<mapsto> (k, Some v))"
    using dict_laws_set_val [of "\<lambda>k. k" D d k w v] I m d by simp_all
  have sizes: "kv_sizes ?kvs = kv_sizes kvs"
    using I d by (simp add: kv_sizes_update set list_update_same_conv kv_sizes_nth)
  have "kv_inv D ?kvs"
    unfolding kv_inv_def sizes using inv(1) I set(1)
    by (auto simp: kv_inv_def dest!: subsetD [OF set_update_subset_insert])
  moreover have "kv_lookup ?kvs = (kv_lookup kvs)(i := (kv_lookup kvs i)(k \<mapsto> Some v))"
    using I d by (subst kv_lookup_update [of i kvs]) (auto simp: set kv_lookup_def fun_eq_iff)
  ultimately show ?thesis
    using inv d by (auto simp: kv_store_dict_set_val_def kv_get_dict kv_slot_def fun_eq_iff)
qed

lemma kv_store_dict_delete_key_spec:
  assumes inv: "kv_inv D kvs" "kv_slot kvs i" and look: "kv_lookup kvs i k = Some v"
  shows "\<exists>kvs'. kv_store_dict_delete_key D kvs i k = Inr (kvs', Some v) \<and> kv_inv D kvs' \<and>
    kv_slot kvs' = kv_slot kvs \<and> kv_lookup kvs' = (kv_lookup kvs)(i := (kv_lookup kvs i)(k := None)) \<and>
    key_count kvs' = key_count kvs - 1 \<and> non_empty_dicts kvs' = non_empty_dicts kvs +
      (if length (dict_of (dicts kvs ! i)) = 2 then 1 else if length (dict_of (dicts kvs ! i)) = 1 then -1 else 0)"
proof -
  note I = kv_invD [OF inv] and m = kv_lookup_raw(2) [OF look]
  obtain d where d: "dicts kvs ! i = Some d" using m by (cases "dicts kvs ! i") auto
  obtain d' where d': "dict_delete_key D d k = (d', Some v)" "dict_wf (\<lambda>k. k) d'"
    "Suc (length d') = length d" "dict_map (\<lambda>k. k) d' = (dict_map (\<lambda>k. k) d)(k := None)"
    using dict_laws_delete_old [of "\<lambda>k. k" D d k "(k, v)"] I m d by auto
  have "int (length d') = kv_sizes kvs ! i + -1" using I d d' by (simp add: kv_sizes_nth)
  from cumulative_key_count_add_inv [OF inv d'(2) this] obtain kvs' where
    k: "cumulative_key_count_add D (kvs\<lparr>dicts := (dicts kvs)[i := Some d']\<rparr>) i (-1) = Inr kvs'"
    "kv_inv D kvs'" "num_dicts kvs' = num_dicts kvs" "dicts kvs' = (dicts kvs)[i := Some d']"
    "key_count kvs' = key_count kvs + -1" "non_empty_dicts kvs' = non_empty_dicts kvs +
      (if length d' = 1 then 1 else if length d' = 0 then -1 else 0)" by blast
  have "kv_store_dict_delete_key D kvs i k = Inr (kvs', Some v)"
    using inv d d' k by (simp add: kv_store_dict_delete_key_def kv_get_dict)
  moreover have "kv_lookup kvs' = (kv_lookup kvs)(i := (kv_lookup kvs i)(k := None))"
    using I d by (subst kv_lookup_update [OF _ k(4)]) (auto simp: d' kv_lookup_def fun_eq_iff)
  moreover have "length (dict_of (dicts kvs ! i)) = Suc (length d')" using d d' by simp
  ultimately show ?thesis using k by (auto simp: kv_slot_def fun_eq_iff)
qed

lemma kv_store_dict_delete_key_none:
  assumes inv: "kv_inv D kvs" "kv_slot kvs i" and look: "kv_lookup kvs i k = None"
  shows "kv_store_dict_delete_key D kvs i k = Inr (kvs, None)"
  using inv look kv_invD [OF inv] kv_lookup_raw(1) [of kvs i k]
  by (cases "dicts kvs ! i")
    (auto simp: kv_store_dict_delete_key_def kv_get_dict dict_simps list_update_same_conv)

text \<open>\<open>kv_store_create_dict_if_needed\<close> changes nothing an observer of the map can see.\<close>

lemma kv_store_create_dict_if_needed_spec:
  assumes inv: "kv_inv D kvs" "kv_slot kvs i"
  shows "\<exists>kvs' d. kv_store_create_dict_if_needed D kvs i = Inr (kvs', d) \<and> kv_inv D kvs' \<and>
    num_dicts kvs' = num_dicts kvs \<and> dicts kvs' ! i = Some d \<and> d = dict_of (dicts kvs ! i) \<and>
    kv_lookup kvs' = kv_lookup kvs \<and> kv_sizes kvs' = kv_sizes kvs \<and> key_count kvs' = key_count kvs"
proof (cases "dicts kvs ! i")
  case (Some d)
  then show ?thesis using inv by (auto simp: kv_store_create_dict_if_needed_def kv_get_dict)
next
  case None
  note I = kv_invD [OF inv]
  let ?kvs = "kvs\<lparr>dicts := (dicts kvs)[i := Some []], allocated_dicts := allocated_dicts kvs + 1\<rparr>"
  have sizes: "kv_sizes ?kvs = kv_sizes kvs"
    using None I by (simp add: kv_sizes_def map_update list_update_same_conv)
  have "kv_inv D ?kvs"
    unfolding kv_inv_def sizes using inv(1) I
    by (auto simp: kv_inv_def dest!: subsetD [OF set_update_subset_insert])
  moreover have "kv_lookup ?kvs = kv_lookup kvs"
    using I None by (subst kv_lookup_update [of i kvs]) (auto simp: kv_lookup_def fun_eq_iff)
  ultimately show ?thesis
    using inv None sizes I dict_laws_new [OF I(1)]
    by (auto simp: kv_store_create_dict_if_needed_def kv_get_dict)
qed

lemma kv_store_dict_add_raw_new:
  assumes inv: "kv_inv D kvs" "kv_slot kvs i" and look: "kv_lookup kvs i k = None"
  shows "\<exists>kvs'. kv_store_dict_add_raw D kvs i k = Inr (kvs', Some k, None) \<and> kv_inv D kvs' \<and>
    kv_slot kvs' = kv_slot kvs \<and> kv_lookup kvs' = (kv_lookup kvs)(i := (kv_lookup kvs i)(k \<mapsto> None)) \<and>
    key_count kvs' = key_count kvs + 1"
proof -
  obtain kvs1 d where c: "kv_store_create_dict_if_needed D kvs i = Inr (kvs1, d)" "kv_inv D kvs1"
    "num_dicts kvs1 = num_dicts kvs" "dicts kvs1 ! i = Some d" "d = dict_of (dicts kvs ! i)"
    "kv_lookup kvs1 = kv_lookup kvs" "kv_sizes kvs1 = kv_sizes kvs" "key_count kvs1 = key_count kvs"
    using kv_store_create_dict_if_needed_spec [OF inv] by blast
  have slot1: "kv_slot kvs1 i" using inv(2) c(3) by (simp add: kv_slot_def)
  note I = kv_invD [OF c(2) slot1]
  obtain d' where d': "dict_add_raw D d k = (d', Some k, None)" "dict_wf (\<lambda>k. k) d'"
    "length d' = Suc (length d)" "dict_map (\<lambda>k. k) d' = (dict_map (\<lambda>k. k) d)(k \<mapsto> (k, None))"
    using dict_laws_add_raw_new [of "\<lambda>k. k" D d k] I c(4,5) look kv_lookup_raw(1) [of kvs i k] by auto
  have "int (length d') = kv_sizes kvs1 ! i + 1" using I c(4) d' by (simp add: kv_sizes_nth)
  from cumulative_key_count_add_inv [OF c(2) slot1 d'(2) this] obtain kvs' where
    k: "cumulative_key_count_add D (kvs1\<lparr>dicts := (dicts kvs1)[i := Some d']\<rparr>) i 1 = Inr kvs'"
    "kv_inv D kvs'" "num_dicts kvs' = num_dicts kvs1" "dicts kvs' = (dicts kvs1)[i := Some d']"
    "key_count kvs' = key_count kvs1 + 1" by blast
  have "kv_store_dict_add_raw D kvs i k = Inr (kvs', Some k, None)"
    using c d' k by (simp add: kv_store_dict_add_raw_def)
  moreover have "kv_lookup kvs' = (kv_lookup kvs)(i := (kv_lookup kvs i)(k \<mapsto> None))"
    using I c by (subst kv_lookup_update [OF _ k(4)]) (auto simp: d' kv_lookup_def fun_eq_iff)
  ultimately show ?thesis using k c by (auto simp: kv_slot_def fun_eq_iff)
qed

lemma kv_store_dict_add_raw_old:
  assumes inv: "kv_inv D kvs" "kv_slot kvs i" and look: "kv_lookup kvs i k = Some v"
  shows "\<exists>kvs'. kv_store_dict_add_raw D kvs i k = Inr (kvs', None, Some k) \<and> kv_inv D kvs' \<and>
    kv_slot kvs' = kv_slot kvs \<and> kv_lookup kvs' = kv_lookup kvs"
proof -
  obtain kvs1 d where c: "kv_store_create_dict_if_needed D kvs i = Inr (kvs1, d)" "kv_inv D kvs1"
    "num_dicts kvs1 = num_dicts kvs" "dicts kvs1 ! i = Some d" "d = dict_of (dicts kvs ! i)"
    "kv_lookup kvs1 = kv_lookup kvs"
    using kv_store_create_dict_if_needed_spec [OF inv] by blast
  have slot1: "kv_slot kvs1 i" using inv(2) c(3) by (simp add: kv_slot_def)
  note I = kv_invD [OF c(2) slot1]
  have "dict_add_raw D d k = (d, None, Some k)"
    using dict_laws_add_raw_old [of "\<lambda>k. k" D d k "(k, v)"] I c(4,5) kv_lookup_raw(2) [OF look] by auto
  then have "kv_store_dict_add_raw D kvs i k = Inr (kvs1, None, Some k)"
    using c I by (simp add: kv_store_dict_add_raw_def list_update_same_conv)
  then show ?thesis using c by (auto simp: kv_slot_def fun_eq_iff)
qed

interpretation kv: kv_map "kv_inv D" kv_slot kv_lookup "kv_store_dict_find D" "kv_store_entry_val D"
  "kv_store_dict_add_raw D" "kv_store_dict_set_val D" "kv_store_dict_delete_key D" for D
proof unfold_locales
  fix s i k v w
  assume inv: "kv_inv D s" "kv_slot s i"
  show "kv_store_dict_find D s i k = Inr (map_option (\<lambda>_. k) (kv_lookup s i k))"
    using inv by (rule kv_store_dict_find_spec)
  show "kv_store_entry_val D s i k = Inr w" if "kv_lookup s i k = Some w"
    using inv that by (rule kv_store_entry_val_spec)
  show "\<exists>s'. kv_store_dict_add_raw D s i k = Inr (s', Some k, None) \<and> kv_inv D s' \<and>
      kv_slot s' = kv_slot s \<and> kv_lookup s' = (kv_lookup s)(i := (kv_lookup s i)(k \<mapsto> None))"
    if "kv_lookup s i k = None"
    using kv_store_dict_add_raw_new [OF inv that] by blast
  show "\<exists>s'. kv_store_dict_add_raw D s i k = Inr (s', None, Some k) \<and> kv_inv D s' \<and>
      kv_slot s' = kv_slot s \<and> kv_lookup s' = kv_lookup s"
    if "kv_lookup s i k = Some w"
    using kv_store_dict_add_raw_old [OF inv that] by blast
  show "\<exists>s'. kv_store_dict_set_val D s i k v = Inr s' \<and> kv_inv D s' \<and> kv_slot s' = kv_slot s \<and>
      kv_lookup s' = (kv_lookup s)(i := (kv_lookup s i)(k \<mapsto> Some v))"
    if "kv_lookup s i k = Some w"
    using kv_store_dict_set_val_spec [OF inv that] by blast
  show "\<exists>s'. kv_store_dict_delete_key D s i k = Inr (s', Some w) \<and> kv_inv D s' \<and>
      kv_slot s' = kv_slot s \<and> kv_lookup s' = (kv_lookup s)(i := (kv_lookup s i)(k := None))"
    if "kv_lookup s i k = Some w"
    using kv_store_dict_delete_key_spec [OF inv that] by blast
  show "\<exists>s'. kv_store_dict_delete_key D s i k = Inr (s', None) \<and> kv_inv D s' \<and>
      kv_slot s' = kv_slot s \<and> kv_lookup s' = kv_lookup s"
    if "kv_lookup s i k = None"
    using kv_store_dict_delete_key_none [OF inv that] inv by blast
qed

section \<open>Creation and reachable stores\<close>

lemma kv_store_create_dicts_spec:
  assumes "dict_laws (\<lambda>k. k) D" "i + n = length (dicts kvs)"
    "\<And>od. od \<in> set (dicts kvs) \<Longrightarrow> dict_of od = []"
  shows "\<exists>kvs'. kv_store_create_dicts D n i kvs = Inr kvs' \<and> num_dicts kvs' = num_dicts kvs \<and>
    length (dicts kvs') = length (dicts kvs) \<and> (\<forall>od\<in>set (dicts kvs'). dict_of od = [])"
  using assms
proof (induction n arbitrary: i kvs)
  case 0
  then show ?case by auto
next
  case (Suc n)
  have i: "i < length (dicts kvs)" using Suc.prems(2) by simp
  have "dict_of (dicts kvs ! i) = []" using Suc.prems(3) i by auto
  then obtain kvs1 d where k1: "kv_store_create_dict_if_needed D kvs i = Inr (kvs1, d)"
    "num_dicts kvs1 = num_dicts kvs" "dicts kvs1 = dicts kvs \<or> dicts kvs1 = (dicts kvs)[i := Some []]"
    using i dict_laws_new [OF Suc.prems(1)]
    by (cases "dicts kvs ! i") (auto simp: kv_store_create_dict_if_needed_def kv_store_get_dict_def)
  have "dict_of od = []" if "od \<in> set (dicts kvs1)" for od
    using k1(3) that Suc.prems(3) by (auto dest!: subsetD [OF set_update_subset_insert])
  then obtain kvs' where "kv_store_create_dicts D n (Suc i) kvs1 = Inr kvs'"
    "num_dicts kvs' = num_dicts kvs1" "length (dicts kvs') = length (dicts kvs1)"
    "\<forall>od\<in>set (dicts kvs'). dict_of od = []"
    using Suc.IH [of "Suc i" kvs1] Suc.prems(1,2) k1(3) by fastforce
  then show ?case using k1 by auto
qed

lemma kv_inv_empty:
  assumes "dict_laws (\<lambda>k. k) D" "length (dicts kvs) = num_dicts kvs" "key_count kvs = 0"
    "\<forall>od\<in>set (dicts kvs). dict_of od = []"
    "num_dicts kvs \<noteq> 1 \<Longrightarrow> dict_size_index kvs = replicate (num_dicts kvs + 1) 0"
  shows "kv_inv D kvs"
proof -
  have sizes: "kv_sizes kvs = replicate (num_dicts kvs) 0"
    using assms(2,4) by (auto simp: kv_sizes_def intro!: nth_equalityI)
  have "fenwick_ok (num_dicts kvs) (kv_sizes kvs) (replicate (num_dicts kvs + 1) 0)"
    by (auto simp: fenwick_ok_def fenwick_node_def sizes)
  with assms sizes show ?thesis by (auto simp: kv_inv_def sum_list_replicate)
qed

lemma kv_store_create_spec:
  assumes "dict_laws (\<lambda>k. k) D" "bits \<le> 16" "metadata_bytes type = Some Kv_store_dict_meta_data_size"
  shows "\<exists>kvs. kv_store_create D type bits flags = Inr kvs \<and> kv_inv D kvs \<and> num_dicts kvs = 2 ^ bits \<and>
    non_empty_dicts kvs = 0 \<and> (\<forall>i k. kv_slot kvs i \<longrightarrow> kv_lookup kvs i k = None)"
proof -
  let ?n = "2 ^ bits :: nat"
  define kvs0 :: "'a kv_store" where "kvs0 = \<lparr>kv_flags = flags, dicts = replicate ?n None, num_dicts = ?n,
    num_dicts_bits = bits, rehashing = [], resize_cursor = 0, allocated_dicts = 0, non_empty_dicts = 0,
    key_count = 0, bucket_count = 0, dict_size_index = [],
    overhead_hashtable_lut = 0, overhead_hashtable_rehashing = 0\<rparr>"
  obtain kvs1 where c: "kv_store_create_dicts D ?n 0 kvs0 = Inr kvs1" "num_dicts kvs1 = ?n"
    "length (dicts kvs1) = ?n" "\<forall>od\<in>set (dicts kvs1). dict_of od = []"
    using kv_store_create_dicts_spec [OF assms(1), of 0 ?n kvs0] by (auto simp: kvs0_def)
  define kvs2 where "kvs2 = (if flags AND KVSTORE_ALLOCATE_DICTS_ON_DEMAND = 0 then kvs1
    else kvs0\<lparr>dicts := replicate ?n None\<rparr>)"
  have k2: "num_dicts kvs2 = ?n" "length (dicts kvs2) = ?n" "\<forall>od\<in>set (dicts kvs2). dict_of od = []"
    using c by (auto simp: kvs2_def kvs0_def)
  let ?out = "kvs2\<lparr>rehashing := [], key_count := 0, non_empty_dicts := 0, resize_cursor := 0,
    dict_size_index := (if 1 < ?n then replicate (?n + 1) 0 else []),
    bucket_count := 0, overhead_hashtable_lut := 0, overhead_hashtable_rehashing := 0\<rparr>"
  have "kv_store_create D type bits flags = Inr ?out"
    using assms(2,3) c(1) by (simp add: kv_store_create_def kvs2_def kvs0_def Let_def)
  moreover have "?n = 1 \<or> 1 < ?n" using one_le_power [of "2 :: nat" bits] by linarith
  then have "kv_inv D ?out" using k2 assms(1) by (intro kv_inv_empty) auto
  moreover have "kv_lookup ?out i k = None" if "kv_slot ?out i" for i k
    using k2 that by (auto simp: kv_lookup_def kv_slot_def)
  ultimately show ?thesis using k2 by (intro exI [of _ ?out]) auto
qed

text \<open>
  The stores the code can reach: created, then changed through entries it has just found or
  made (an entry pointer is only ever passed for a key that is there).
\<close>

inductive kv_reachable :: "'v dict_ops \<Rightarrow> 'v kv_store \<Rightarrow> bool" for D where
  create: "kv_store_create D type bits flags = Inr kvs \<Longrightarrow> kv_reachable D kvs"
| add_raw: "kv_reachable D kvs \<Longrightarrow> kv_slot kvs i \<Longrightarrow>
    kv_store_dict_add_raw D kvs i k = Inr (kvs', de, ex) \<Longrightarrow> kv_reachable D kvs'"
| set_val: "kv_reachable D kvs \<Longrightarrow> kv_slot kvs i \<Longrightarrow> kv_lookup kvs i k \<noteq> None \<Longrightarrow>
    kv_store_dict_set_val D kvs i k v = Inr kvs' \<Longrightarrow> kv_reachable D kvs'"
| delete: "kv_reachable D kvs \<Longrightarrow> kv_slot kvs i \<Longrightarrow>
    kv_store_dict_delete_key D kvs i k = Inr (kvs', r) \<Longrightarrow> kv_reachable D kvs'"

lemma kv_store_create_guards:
  assumes "kv_store_create D type bits flags = Inr kvs"
  shows "bits \<le> 16" "metadata_bytes type = Some Kv_store_dict_meta_data_size"
  using assms by (auto simp: kv_store_create_def latte_assert_def split: if_splits)

lemma kv_reachable_inv:
  assumes "dict_laws (\<lambda>k. k) D"
  shows "kv_reachable D kvs \<Longrightarrow> kv_inv D kvs"
proof (induction rule: kv_reachable.induct)
  case (create type bits flags kvs)
  from kv_store_create_spec [OF assms kv_store_create_guards [OF create], of flags] create
  show ?case by auto
next
  case (add_raw kvs i k kvs' de ex)
  show ?case
  proof (cases "kv_lookup kvs i k")
    case None
    with kv.add_raw_new [OF add_raw.IH add_raw.hyps(2) None] add_raw.hyps(3) show ?thesis by auto
  next
    case (Some v)
    with kv.add_raw_old [OF add_raw.IH add_raw.hyps(2) Some] add_raw.hyps(3) show ?thesis by auto
  qed
next
  case (set_val kvs i k v kvs')
  then obtain w where w: "kv_lookup kvs i k = Some w" by auto
  from kv.set_val [OF set_val.IH set_val.hyps(2) w, of v] set_val.hyps(4) show ?case by auto
next
  case (delete kvs i k kvs' r)
  then obtain s' where "kv_store_dict_delete_key D kvs i k = Inr (s', kv_lookup kvs i k)" "kv_inv D s'"
    using kv.delete_any by blast
  then show ?case using delete.hyps by simp
qed

lemma dict_map_dom: "dom (dict_map canon d) = (\<lambda>e. canon (fst e)) ` set d"
  by (auto simp: dict_map_def dom_map_of_conv_image_fst image_image)

lemma dict_map_card: "dict_wf canon d \<Longrightarrow> card (dom (dict_map canon d)) = length d"
  by (metis dict_map_dom dict_wf_def distinct_card length_map set_map)

lemma kv_size_card:
  assumes "kv_inv D kvs" "i < num_dicts kvs"
  shows "kv_sizes kvs ! i = int (card (dom (kv_lookup kvs i)))"
proof -
  have "dom (kv_lookup kvs i) = dom (dict_map (\<lambda>k. k) (dict_of (dicts kvs ! i)))"
    by (auto simp: kv_lookup_def dom_def)
  then show ?thesis
    using assms kv_invD [of D kvs i] by (simp add: kv_slot_def kv_sizes_nth dict_map_card)
qed

lemma kv_key_count:
  assumes "kv_inv D kvs"
  shows "key_count kvs = (\<Sum>i<num_dicts kvs. int (card (dom (kv_lookup kvs i))))"
proof -
  have "key_count kvs = (\<Sum>i<num_dicts kvs. kv_sizes kvs ! i)"
    using assms by (simp add: kv_inv_def sum_list_sum_nth atLeast0LessThan)
  also have "\<dots> = (\<Sum>i<num_dicts kvs. int (card (dom (kv_lookup kvs i))))"
    by (rule sum.cong) (auto simp: kv_size_card [OF assms])
  finally show ?thesis .
qed

lemma kv_lookup_finite: "finite (dom (kv_lookup kvs i))"
proof -
  have "dom (kv_lookup kvs i) \<subseteq> dom (dict_map (\<lambda>k. k) (dict_of (dicts kvs ! i)))" by (auto simp: kv_lookup_def dom_def)
  then show ?thesis unfolding dict_map_dom by (rule finite_subset) simp
qed

text \<open>One key more in one dictionary.\<close>

lemma kv_key_count_insert:
  assumes "kv_inv D kvs" "kv_inv D kvs'" "num_dicts kvs' = num_dicts kvs" "i < num_dicts kvs" "kv_lookup kvs i k = None"
    "kv_lookup kvs' = (kv_lookup kvs)(i := (kv_lookup kvs i)(k \<mapsto> v))"
  shows "key_count kvs' = key_count kvs + 1"
proof -
  let ?c = "\<lambda>s j. int (card (dom (kv_lookup s j)))"
  have i: "?c kvs' i = ?c kvs i + 1" using assms(5,6) kv_lookup_finite [of kvs i] by (simp add: card_insert_if domIff)
  have "(\<Sum>j<num_dicts kvs. ?c kvs' j) = ?c kvs' i + (\<Sum>j\<in>{..<num_dicts kvs} - {i}. ?c kvs' j)" using assms(4) by (simp add: sum.remove)
  also have "(\<Sum>j\<in>{..<num_dicts kvs} - {i}. ?c kvs' j) = (\<Sum>j\<in>{..<num_dicts kvs} - {i}. ?c kvs j)" using assms(6) by (intro sum.cong) auto
  also have "?c kvs' i + \<dots> = (\<Sum>j<num_dicts kvs. ?c kvs j) + 1" using assms(4) unfolding i by (simp add: sum.remove)
  finally show ?thesis using kv_key_count [OF assms(1)] kv_key_count [OF assms(2)] assms(3) by simp
qed

section \<open>What holds of every store\<close>

text \<open>
  (C11) In every reachable store \<open>key_count\<close> is the number of keys over all
  dictionaries, and with more than one dictionary every node of \<open>dict_size_index\<close> is the number
  of keys in the dictionaries it covers.
\<close>

theorem kv_store_counts:
  assumes "dict_laws (\<lambda>k. k) D" "kv_reachable D kvs"
  shows "key_count kvs = (\<Sum>i<num_dicts kvs. int (card (dom (kv_lookup kvs i)))) \<and>
    (num_dicts kvs \<noteq> 1 \<longrightarrow> (\<forall>j. 0 < j \<and> j \<le> num_dicts kvs \<longrightarrow>
      dict_size_index kvs ! j = (\<Sum>i\<in>{j - lowbit j..<j}. int (card (dom (kv_lookup kvs i))))))"
proof -
  have inv: "kv_inv D kvs" using assms by (rule kv_reachable_inv)
  note kv_key_count [OF inv]
  moreover have "dict_size_index kvs ! j = (\<Sum>i\<in>{j - lowbit j..<j}. int (card (dom (kv_lookup kvs i))))"
    if "num_dicts kvs \<noteq> 1" "0 < j" "j \<le> num_dicts kvs" for j
  proof -
    have "dict_size_index kvs ! j = fenwick_node (kv_sizes kvs) j"
      using inv that by (simp add: kv_inv_def fenwick_ok_def)
    also have "\<dots> = (\<Sum>i\<in>{j - lowbit j..<j}. int (card (dom (kv_lookup kvs i))))"
      unfolding fenwick_node_def using that by (intro sum.cong) (auto simp: kv_size_card [OF inv])
    finally show ?thesis .
  qed
  ultimately show ?thesis by auto
qed

text \<open>
  (C12) Storing a value under a key that is not there makes it findable
  with that value and adds one to the key count, deleting it returns the value and leaves the store as a map
  and its key count as they were; none of the calls aborts.
\<close>

theorem kv_store_add_find_delete:
  assumes "dict_laws (\<lambda>k. k) D" "kv_reachable D kvs" "kv_slot kvs i" "kv_lookup kvs i k = None"
  shows "\<exists>kvs1 kvs2 kvs3. kv_store_dict_add_raw D kvs i k = Inr (kvs1, Some k, None) \<and>
    kv_store_dict_set_val D kvs1 i k v = Inr kvs2 \<and>
    kv_store_dict_find D kvs2 i k = Inr (Some k) \<and> kv_store_entry_val D kvs2 i k = Inr (Some v) \<and>
    kv_store_dict_delete_key D kvs2 i k = Inr (kvs3, Some (Some v)) \<and>
    kv_store_dict_find D kvs3 i k = Inr None \<and> kv_lookup kvs3 = kv_lookup kvs \<and>
    key_count kvs2 = key_count kvs + 1 \<and> key_count kvs3 = key_count kvs"
proof -
  have inv: "kv_inv D kvs" using assms(1,2) by (rule kv_reachable_inv)
  obtain kvs1 kvs2 where a: "kv_store_dict_add_raw D kvs i k = Inr (kvs1, Some k, None)"
    "kv_store_dict_set_val D kvs1 i k v = Inr kvs2" "kv_inv D kvs2" "kv_slot kvs2 = kv_slot kvs"
    "kv_lookup kvs2 = (kv_lookup kvs)(i := (kv_lookup kvs i)(k \<mapsto> Some v))"
    using inv assms(3,4) by (rule kv.store_new)
  have slot2: "kv_slot kvs2 i" and look2: "kv_lookup kvs2 i k = Some (Some v)" using a assms(3) by simp_all
  obtain kvs3 where d: "kv_store_dict_delete_key D kvs2 i k = Inr (kvs3, kv_lookup kvs2 i k)"
    "kv_inv D kvs3" "kv_slot kvs3 = kv_slot kvs2"
    "kv_lookup kvs3 = (kv_lookup kvs2)(i := (kv_lookup kvs2 i)(k := None))"
    using a(3) slot2 by (rule kv.delete_any)
  have look3: "kv_lookup kvs3 = kv_lookup kvs" using d(4) a(5) assms(4) by (auto simp: fun_eq_iff)
  have num: "num_dicts kvs2 = num_dicts kvs" "num_dicts kvs3 = num_dicts kvs"
    using fun_cong [OF a(4)] fun_cong [OF d(3)] unfolding kv_slot_def by (metis less_irrefl linorder_less_linear)+
  have "key_count kvs2 = key_count kvs + 1"
    using kv_key_count_insert [OF inv a(3) num(1) _ assms(4) a(5)] assms(3) by (simp add: kv_slot_def)
  moreover have "key_count kvs3 = key_count kvs" using kv_key_count [OF d(2)] kv_key_count [OF inv] num(2) look3 by simp
  moreover note look3
  moreover have "kv_slot kvs3 i" using d a assms(3) by simp
  ultimately show ?thesis
    using a d look2 assms(4) slot2 kv.find [OF a(3) slot2, of k] kv.find [OF d(2), of i k]
      kv.entry_val [OF a(3) slot2 look2] by auto
qed

text \<open>
  (C40) A deletion that leaves one key in a dictionary adds one to
  \<open>non_empty_dicts\<close>, although no dictionary became non-empty: the counter only looks at the size
  after the change. From the next size on it leaves the counter alone, and it subtracts one where
  the dictionary becomes empty.
\<close>

theorem kv_delete_non_empty_drift:
  assumes "kv_inv D kvs" "kv_slot kvs i" "kv_lookup kvs i k = Some v"
  shows "\<exists>kvs'. kv_store_dict_delete_key D kvs i k = Inr (kvs', Some v) \<and>
    non_empty_dicts kvs' - non_empty_dicts kvs =
      (if card (dom (kv_lookup kvs i)) = 2 then 1 else if card (dom (kv_lookup kvs i)) = 1 then -1 else 0)"
proof -
  have "length (dict_of (dicts kvs ! i)) = card (dom (kv_lookup kvs i))"
    using kv_size_card [OF assms(1), of i] assms(2) kv_invD [OF assms(1,2)]
    by (simp add: kv_slot_def kv_sizes_nth)
  with kv_store_dict_delete_key_spec [OF assms] show ?thesis by auto
qed

section \<open>Concrete stores\<close>

text \<open>
  Two dictionaries on the reference library, created on demand, with the key \<open>a\<close> added to the
  second one; and one dictionary with the keys \<open>a\<close> and \<open>b\<close>.
\<close>

definition D0 :: "nat dict_ops" where
  "D0 = dict_ref (\<lambda>k. k)"

definition kv_ex0 :: "nat kv_store" where
  "kv_ex0 = projr (kv_store_create D0 kv_store_keys_dict_type 1 KVSTORE_ALLOCATE_DICTS_ON_DEMAND)"

definition kv_ex1 :: "nat kv_store" where
  "kv_ex1 = fst (projr (kv_store_dict_add_raw D0 kv_ex0 1 ''a''))"

lemma D0_laws: "dict_laws (\<lambda>k. k) D0"
  unfolding D0_def by (rule dict_ref_laws)

lemma kv_ex0_create: "kv_store_create D0 kv_store_keys_dict_type 1 KVSTORE_ALLOCATE_DICTS_ON_DEMAND = Inr kv_ex0"
  by code_simp

lemma kv_ex1_add: "kv_store_dict_add_raw D0 kv_ex0 1 ''a'' = Inr (kv_ex1, Some ''a'', None)"
  by code_simp

lemma kv_ex1_reachable: "kv_reachable D0 kv_ex1"
  by (rule kv_reachable.add_raw [OF kv_reachable.create [OF kv_ex0_create] _ kv_ex1_add]) code_simp

definition kv_ex2 :: "nat kv_store" where
  "kv_ex2 = fst (projr (kv_store_dict_add_raw D0 kv_ex1 1 ''b''))"

lemma kv_ex2_add: "kv_store_dict_add_raw D0 kv_ex1 1 ''b'' = Inr (kv_ex2, Some ''b'', None)"
  by code_simp

lemma kv_ex2_reachable: "kv_reachable D0 kv_ex2"
  by (rule kv_reachable.add_raw [OF kv_ex1_reachable _ kv_ex2_add]) code_simp

lemma kv_ex_facts:
  "kv_slot kv_ex2 1" "kv_lookup kv_ex2 1 ''c'' = None" "kv_lookup kv_ex2 1 ''a'' = Some None"
  "num_dicts kv_ex2 = 2" "key_count kv_ex2 = 2" "non_empty_dicts kv_ex2 = 1"
  by code_simp+

lemma kv_ex2_dom: "dom (kv_lookup kv_ex2 1) = {''a'', ''b''}"
proof -
  have "map fst (dict_of (dicts kv_ex2 ! 1)) = [''b'', ''a'']" by code_simp
  moreover have "dom (kv_lookup kv_ex2 1) = fst ` set (dict_of (dicts kv_ex2 ! 1))"
    using dict_map_dom [of "\<lambda>k. k" "dict_of (dicts kv_ex2 ! 1)"] by (auto simp: kv_lookup_def dom_def)
  ultimately show ?thesis by (metis insert_commute list.simps(15) list.set(1) set_map)
qed

theorem kv_store_counts_witness:
  "dict_laws (\<lambda>k. k) D0 \<and> kv_reachable D0 kv_ex2 \<and>
   2 = (\<Sum>i<2. int (card (dom (kv_lookup kv_ex2 i))))"
  using kv_store_counts [OF D0_laws kv_ex2_reachable] D0_laws kv_ex2_reachable
  by (simp only: kv_ex_facts)

theorem kv_store_add_find_delete_witness:
  "\<exists>kvs1 kvs2 kvs3. kv_store_dict_add_raw D0 kv_ex2 1 ''c'' = Inr (kvs1, Some ''c'', None) \<and>
     kv_store_dict_set_val D0 kvs1 1 ''c'' 7 = Inr kvs2 \<and>
     kv_store_entry_val D0 kvs2 1 ''c'' = Inr (Some 7) \<and>
     kv_store_dict_delete_key D0 kvs2 1 ''c'' = Inr (kvs3, Some (Some 7)) \<and>
     kv_lookup kvs3 = kv_lookup kv_ex2 \<and> key_count kvs3 = key_count kv_ex2"
  using kv_store_add_find_delete [OF D0_laws kv_ex2_reachable kv_ex_facts(1,2), of 7] by blast

theorem kv_delete_non_empty_drift_witness:
  "\<exists>kvs'. kv_store_dict_delete_key D0 kv_ex2 1 ''a'' = Inr (kvs', Some None) \<and>
     non_empty_dicts kvs' = 2"
  using kv_delete_non_empty_drift [OF kv_reachable_inv [OF D0_laws kv_ex2_reachable] kv_ex_facts(1,3)]
  unfolding kv_ex2_dom kv_ex_facts by auto

end
