(* ===== verification/Db.thy ===== *)
theory Db
  imports Kv_Store
begin

text \<open>
  The database layer of \<open>src/redis/db.c\<close>: a \<open>redis_db_t\<close> with its keyspace and its expire times,
  both key-value stores, the insertion and deletion of keys, lazy expiration, and the LRU and LFU
  stamp of a new object. A database together with the object heap is a state; the section on the
  specification gives the map of live keys and the map of deadlines it stands for, and the
  interface \<open>keyspace\<close> the commands rely on.
\<close>

section \<open>State\<close>

text \<open>The server fields the stamp of an object depends on; \<open>redis_server\<close> extends this record.\<close>

record lru_state =
  unixtime :: int
  hz :: int
  maxmemory_policy :: "32 word"
  lruclock :: "32 word"

definition MAXMEMORY_FLAG_LRU :: "32 word" where "MAXMEMORY_FLAG_LRU = 1"
definition MAXMEMORY_FLAG_LFU :: "32 word" where "MAXMEMORY_FLAG_LFU = 2"
definition MAXMEMORY_FLAG_ALLKEYS :: "32 word" where "MAXMEMORY_FLAG_ALLKEYS = 4"

record redis_db =
  keys :: "nat kv_store"
  expires :: "int kv_store"
  blocking_keys :: "nat dict"
  blocking_keys_unblock_on_nokey :: "nat dict"
  ready_keys :: "nat dict"
  watched_keys :: "nat dict"
  db_id :: nat
  avg_ttl :: int
  expires_cursor :: nat
  defrag_later :: "string list"

section \<open>The stamp of an object\<close>

definition LRU_CLOCK_RESOLUTION :: int where "LRU_CLOCK_RESOLUTION = 1000"

definition LFU_INIT_VAL :: "32 word" where "LFU_INIT_VAL = 5"

definition lfu_get_time_in_minutes :: "'a lru_state_scheme \<Rightarrow> 64 word" where
  "lfu_get_time_in_minutes server = word_of_int (c_quot (unixtime server) 60) AND 65535"

definition get_lru_clock :: "latte_c \<Rightarrow> int \<Rightarrow> 32 word" where
  "get_lru_clock L mstime = word_of_int (c_quot mstime LRU_CLOCK_RESOLUTION) AND LRU_CLOCK_MAX L"

definition lru_clock :: "latte_c \<Rightarrow> int \<Rightarrow> 'a lru_state_scheme \<Rightarrow> (32 word) res" where
  "lru_clock L mstime server =
     res_bind (c_div 1000 (hz server)) (\<lambda>q.
       if q \<le> LRU_CLOCK_RESOLUTION then Inr (lruclock server) else Inr (get_lru_clock L mstime))"

definition init_object_lru_or_lfu ::
  "latte_c \<Rightarrow> int \<Rightarrow> 'a lru_state_scheme \<Rightarrow> obj_heap \<Rightarrow> nat \<Rightarrow> obj_heap res" where
  "init_object_lru_or_lfu L mstime server h o_addr =
     res_bind (obj_get h o_addr) (\<lambda>obj.
       if refcount obj = OBJ_SHARED_REFCOUNT L then Inr h
       else if maxmemory_policy server AND MAXMEMORY_FLAG_LFU \<noteq> 0 then
         Inr (obj_put h o_addr (Some (obj\<lparr>lru :=
           push_bit 8 (ucast (lfu_get_time_in_minutes server)) OR LFU_INIT_VAL\<rparr>)))
       else res_bind (lru_clock L mstime server) (\<lambda>clock.
         Inr (obj_put h o_addr (Some (obj\<lparr>lru := clock\<rparr>)))))"

section \<open>Keys and values\<close>

text \<open>The value destructor of the keyspace dictionary.\<close>

definition dict_object_destructor :: "latte_c \<Rightarrow> obj_heap \<Rightarrow> nat option \<Rightarrow> obj_heap res" where
  "dict_object_destructor L h val =
     (case val of None \<Rightarrow> Inr h | Some a \<Rightarrow> latte_object_decr_ref_count L h a)"

definition db_set_value ::
  "latte_c \<Rightarrow> nat dict_ops \<Rightarrow> redis_db \<Rightarrow> obj_heap \<Rightarrow> nat \<Rightarrow> nat \<Rightarrow> bool \<Rightarrow> string option
     \<Rightarrow> (redis_db \<times> obj_heap \<times> int) res" where
  "db_set_value L Dk db h key val overwrite de =
     res_bind (obj_get h key) (\<lambda>key_obj.
     case get_sds_from_object L key_obj of
       None \<Rightarrow> Inl (Assert_fail ''key is not a string'')
     | Some key_ptr \<Rightarrow>
         let dict_index = get_kv_store_index_for_key key_ptr in
         res_bind (case de of
                     None \<Rightarrow> kv_store_dict_find Dk (keys db) dict_index key_ptr
                   | Some e \<Rightarrow> Inr (Some e)) (\<lambda>de.
         case de of
           None \<Rightarrow> Inl (Assert_fail ''[db_set_value] kv_store dict unfind key'')
         | Some de \<Rightarrow>
             res_bind (kv_store_entry_val Dk (keys db) dict_index de) (\<lambda>old.
             case old of
               None \<Rightarrow> Inl (Null_deref ''old->lru'')
             | Some old \<Rightarrow>
                 res_bind (obj_get h old) (\<lambda>old_obj.
                 res_bind (obj_get h val) (\<lambda>val_obj.
                 let h = obj_put h val (Some (val_obj\<lparr>lru := lru old_obj\<rparr>)) in
                 res_bind (latte_assert (\<not> overwrite) ''overwrite is not supported'') (\<lambda>_.
                 res_bind (kv_store_dict_set_val Dk (keys db) dict_index de val) (\<lambda>ks.
                 res_bind (latte_object_decr_ref_count L h old) (\<lambda>h.
                 Inr (db\<lparr>keys := ks\<rparr>, h, 0))))))))) "

text \<open>
  \<open>sds_new(key->ptr)\<close> copies up to the first NUL byte; the code passes \<open>overwrite = 1\<close> where the
  key is there already.
\<close>

definition db_add_key_value_internal ::
  "latte_c \<Rightarrow> nat dict_ops \<Rightarrow> int \<Rightarrow> 'a lru_state_scheme \<Rightarrow> redis_db \<Rightarrow> obj_heap \<Rightarrow> nat \<Rightarrow> nat \<Rightarrow> bool
     \<Rightarrow> (redis_db \<times> obj_heap \<times> int) res" where
  "db_add_key_value_internal L Dk mstime server db h key val update_if_existing =
     res_bind (obj_get h key) (\<lambda>key_obj.
     case get_sds_from_object L key_obj of
       None \<Rightarrow> Inl (Assert_fail ''key is not a string'')
     | Some key_ptr \<Rightarrow>
         let dict_index = get_kv_store_index_for_key key_ptr in
         case ptr key_obj of
           Ptr_bytes bytes \<Rightarrow>
             let new_key = c_string bytes in
             res_bind (kv_store_dict_add_raw Dk (keys db) dict_index new_key) (\<lambda>(ks, de, existing).
             let db = db\<lparr>keys := ks\<rparr> in
             case existing of
               Some e \<Rightarrow> res_bind (db_set_value L Dk db h key val True (Some e)) (\<lambda>(db, h, _). Inr (db, h, 0))
             | None \<Rightarrow>
                 (case de of
                    None \<Rightarrow> Inr (db, h, -1)
                  | Some de \<Rightarrow>
                      res_bind (init_object_lru_or_lfu L mstime server h val) (\<lambda>h.
                      res_bind (kv_store_dict_set_val Dk (keys db) dict_index de val) (\<lambda>ks.
                      Inr (db\<lparr>keys := ks\<rparr>, h, 0)))))
         | _ \<Rightarrow> Inl (Null_deref ''sds_new(key->ptr)''))"

definition db_add_key_value ::
  "latte_c \<Rightarrow> nat dict_ops \<Rightarrow> int \<Rightarrow> 'a lru_state_scheme \<Rightarrow> redis_db \<Rightarrow> obj_heap \<Rightarrow> nat \<Rightarrow> nat
     \<Rightarrow> (redis_db \<times> obj_heap \<times> int) res" where
  "db_add_key_value L Dk mstime server db h key value =
     db_add_key_value_internal L Dk mstime server db h key value False"

section \<open>Expire times\<close>

definition db_get_expire :: "int dict_ops \<Rightarrow> redis_db \<Rightarrow> string \<Rightarrow> int res" where
  "db_get_expire De db key =
     (let didx = get_kv_store_index_for_key key in
      res_bind (kv_store_dict_find De (expires db) didx key) (\<lambda>de.
        case de of
          None \<Rightarrow> Inr 0
        | Some de \<Rightarrow> res_bind (kv_store_entry_val De (expires db) didx de) (\<lambda>v.
            Inr (case v of None \<Rightarrow> 0 | Some when_ms \<Rightarrow> when_ms))))"

definition db_set_expire ::
  "int dict_ops \<Rightarrow> redis_db \<Rightarrow> string \<Rightarrow> int \<Rightarrow> (redis_db \<times> int) res" where
  "db_set_expire De db key when_ms =
     (let didx = get_kv_store_index_for_key key in
      res_bind (kv_store_dict_add_raw De (expires db) didx key) (\<lambda>(es, de, existing).
        let db = db\<lparr>expires := es\<rparr> in
        case de of
          None \<Rightarrow> Inr (db, -1)
        | Some de \<Rightarrow> res_bind (kv_store_dict_set_val De (expires db) didx de when_ms) (\<lambda>es.
            Inr (db\<lparr>expires := es\<rparr>, 0))))"

definition db_remove_expire :: "int dict_ops \<Rightarrow> redis_db \<Rightarrow> string \<Rightarrow> redis_db res" where
  "db_remove_expire De db key =
     res_bind (kv_store_dict_delete_key De (expires db) (get_kv_store_index_for_key key) key)
       (\<lambda>(es, _). Inr (db\<lparr>expires := es\<rparr>))"

definition db_delete_key ::
  "latte_c \<Rightarrow> nat dict_ops \<Rightarrow> int dict_ops \<Rightarrow> redis_db \<Rightarrow> obj_heap \<Rightarrow> string \<Rightarrow> (redis_db \<times> obj_heap) res" where
  "db_delete_key L Dk De db h key =
     (let didx = get_kv_store_index_for_key key in
      res_bind (kv_store_dict_delete_key De (expires db) didx key) (\<lambda>(es, _).
      let db = db\<lparr>expires := es\<rparr> in
      res_bind (kv_store_dict_delete_key Dk (keys db) didx key) (\<lambda>(ks, removed).
      res_bind (case removed of None \<Rightarrow> Inr h | Some val \<Rightarrow> dict_object_destructor L h val) (\<lambda>h.
      Inr (db\<lparr>keys := ks\<rparr>, h)))))"

definition expire_if_needed ::
  "latte_c \<Rightarrow> nat dict_ops \<Rightarrow> int dict_ops \<Rightarrow> int \<Rightarrow> redis_db \<Rightarrow> obj_heap \<Rightarrow> string
     \<Rightarrow> (redis_db \<times> obj_heap \<times> bool) res" where
  "expire_if_needed L Dk De mstime db h key =
     res_bind (kv_store_dict_find De (expires db) (get_kv_store_index_for_key key) key) (\<lambda>de.
       case de of
         None \<Rightarrow> Inr (db, h, False)
       | Some de \<Rightarrow>
           res_bind (kv_store_entry_val De (expires db) (get_kv_store_index_for_key key) de) (\<lambda>v.
           let when_ms = (case v of None \<Rightarrow> 0 | Some w \<Rightarrow> w) in
           if mstime < when_ms then Inr (db, h, False)
           else res_bind (db_delete_key L Dk De db h key) (\<lambda>(db, h). Inr (db, h, True))))"

section \<open>Creating the databases\<close>

definition new_redis_db :: "nat dict_ops \<Rightarrow> int dict_ops \<Rightarrow> nat \<Rightarrow> redis_db res" where
  "new_redis_db Dk De i =
     res_bind (kv_store_create Dk kv_store_keys_dict_type 0 KVSTORE_ALLOCATE_DICTS_ON_DEMAND) (\<lambda>ks.
     res_bind (kv_store_create De kv_store_expires_dict_type 0 KVSTORE_ALLOCATE_DICTS_ON_DEMAND) (\<lambda>es.
     Inr \<lparr>keys = ks, expires = es, blocking_keys = dict_new Dk, blocking_keys_unblock_on_nokey = dict_new Dk,
          ready_keys = dict_new Dk, watched_keys = dict_new Dk, db_id = i, avg_ttl = 0,
          expires_cursor = 0, defrag_later = []\<rparr>))"

fun init_redis_server_dbs :: "nat dict_ops \<Rightarrow> int dict_ops \<Rightarrow> nat \<Rightarrow> nat \<Rightarrow> redis_db list res" where
  "init_redis_server_dbs Dk De i 0 = Inr []"
| "init_redis_server_dbs Dk De i (Suc n) =
     res_bind (new_redis_db Dk De i) (\<lambda>db.
     res_bind (init_redis_server_dbs Dk De (Suc i) n) (\<lambda>dbs. Inr (db # dbs)))"

section \<open>Specification\<close>

text \<open>The live objects of a database and the deadlines it holds, in milliseconds.\<close>

definition db_vals :: "redis_db \<Rightarrow> string \<rightharpoonup> nat" where
  "db_vals db k = Option.bind (kv_lookup (keys db) 0 k) (\<lambda>v. v)"

definition db_ttl :: "redis_db \<Rightarrow> string \<rightharpoonup> int" where
  "db_ttl db k = Option.bind (kv_lookup (expires db) 0 k) (\<lambda>v. v)"

definition db_inv :: "nat dict_ops \<Rightarrow> int dict_ops \<Rightarrow> redis_db \<Rightarrow> bool" where
  "db_inv Dk De db \<longleftrightarrow>
     kv_inv Dk (keys db) \<and> kv_slot (keys db) 0 \<and> (\<forall>k. kv_lookup (keys db) 0 k \<noteq> Some None) \<and>
     kv_inv De (expires db) \<and> kv_slot (expires db) 0 \<and> (\<forall>k. kv_lookup (expires db) 0 k \<noteq> Some None)"

text \<open>Every object of the keyspace is allocated, and its one reference is the entry's.\<close>

definition db_owns :: "redis_db \<Rightarrow> obj_heap \<Rightarrow> bool" where
  "db_owns db h \<longleftrightarrow>
     (\<forall>k a. db_vals db k = Some a \<longrightarrow> (\<exists>obj. cells h a = Some obj \<and> refcount obj = 1)) \<and>
     (\<forall>k k' a. db_vals db k = Some a \<longrightarrow> db_vals db k' = Some a \<longrightarrow> k = k')"

definition keyspace_inv :: "latte_c \<Rightarrow> nat dict_ops \<Rightarrow> int dict_ops \<Rightarrow> redis_db \<Rightarrow> obj_heap \<Rightarrow> bool" where
  "keyspace_inv L Dk De db h \<longleftrightarrow>
     object_laws L \<and> db_inv Dk De db \<and> db_owns db h \<and> heap_wf h \<and> dom (db_ttl db) \<subseteq> dom (db_vals db)"

text \<open>The heap without the object of a deleted entry.\<close>

definition heap_free :: "obj_heap \<Rightarrow> nat option \<Rightarrow> obj_heap" where
  "heap_free h v = (case v of None \<Rightarrow> h | Some a \<Rightarrow> obj_put h a None)"

text \<open>What a reader sees at time \<open>now\<close>: the values whose deadline has not come.\<close>

definition live :: "(string \<rightharpoonup> nat) \<Rightarrow> (string \<rightharpoonup> int) \<Rightarrow> int \<Rightarrow> string \<rightharpoonup> nat" where
  "live vs ts now k = (case ts k of None \<Rightarrow> vs k | Some t \<Rightarrow> if t \<le> now then None else vs k)"

lemma bind_Some_id [simp]: "Option.bind (map_option Some v) (\<lambda>v. v) = v"
  by (cases v) simp_all

lemma map_option_Some_Some [simp]: "map_option Some v \<noteq> Some None"
  by (cases v) simp_all

lemma db_vals_lookup:
  assumes "db_inv Dk De db"
  shows "kv_lookup (keys db) 0 k = map_option Some (db_vals db k)"
proof (cases "kv_lookup (keys db) 0 k")
  case (Some v)
  then obtain w where "v = Some w" using assms unfolding db_inv_def by (cases v) auto
  then show ?thesis using Some by (auto simp: db_vals_def)
qed (simp add: db_vals_def)

lemma db_ttl_lookup:
  assumes "db_inv Dk De db"
  shows "kv_lookup (expires db) 0 k = map_option Some (db_ttl db k)"
proof (cases "kv_lookup (expires db) 0 k")
  case (Some v)
  then obtain w where "v = Some w" using assms unfolding db_inv_def by (cases v) auto
  then show ?thesis using Some by (auto simp: db_ttl_def)
qed (simp add: db_ttl_def)

lemma db_invD:
  assumes "db_inv Dk De db"
  shows "kv_inv Dk (keys db)" "kv_slot (keys db) 0" "kv_inv De (expires db)" "kv_slot (expires db) 0"
  using assms by (simp_all add: db_inv_def)

lemma index_zero [simp]: "get_kv_store_index_for_key k = 0"
  by (simp add: get_kv_store_index_for_key_def)

text \<open>A new keyspace or a new table of deadlines, put in place of the old one.\<close>

lemma db_inv_keys:
  assumes "db_inv Dk De db" "kv_inv Dk ks" "kv_slot ks = kv_slot (keys db)"
    "kv_lookup ks = (kv_lookup (keys db))(0 := (kv_lookup (keys db) 0)(k := map_option Some v))"
  shows "db_inv Dk De (db\<lparr>keys := ks\<rparr>)" "db_vals (db\<lparr>keys := ks\<rparr>) = (db_vals db)(k := v)"
    "db_ttl (db\<lparr>keys := ks\<rparr>) = db_ttl db"
  using assms by (auto simp: db_inv_def db_vals_def db_ttl_def fun_eq_iff)

lemma db_inv_expires:
  assumes "db_inv Dk De db" "kv_inv De es" "kv_slot es = kv_slot (expires db)"
    "kv_lookup es = (kv_lookup (expires db))(0 := (kv_lookup (expires db) 0)(k := map_option Some v))"
  shows "db_inv Dk De (db\<lparr>expires := es\<rparr>)" "db_ttl (db\<lparr>expires := es\<rparr>) = (db_ttl db)(k := v)"
    "db_vals (db\<lparr>expires := es\<rparr>) = db_vals db"
  using assms by (auto simp: db_inv_def db_vals_def db_ttl_def fun_eq_iff)

lemma db_find_spec:
  "db_inv Dk De db \<Longrightarrow> kv_store_dict_find Dk (keys db) 0 k = Inr (map_option (\<lambda>_. k) (db_vals db k))"
  by (simp add: kv.find [OF db_invD(1,2)] db_vals_lookup option.map_comp comp_def)

lemma db_find_expire_spec:
  "db_inv Dk De db \<Longrightarrow> kv_store_dict_find De (expires db) 0 k = Inr (map_option (\<lambda>_. k) (db_ttl db k))"
  by (simp add: kv.find [OF db_invD(3,4)] db_ttl_lookup option.map_comp comp_def)

subsection \<open>Deletion and expiration\<close>

lemma db_delete_key_spec:
  assumes "keyspace_inv L Dk De db h"
  shows "\<exists>db'. db_delete_key L Dk De db h k = Inr (db', heap_free h (db_vals db k)) \<and>
    keyspace_inv L Dk De db' (heap_free h (db_vals db k)) \<and>
    db_vals db' = (db_vals db)(k := None) \<and> db_ttl db' = (db_ttl db)(k := None)"
proof -
  have inv: "db_inv Dk De db" and own: "db_owns db h" and L: "object_laws L" and wf: "heap_wf h"
    using assms by (simp_all add: keyspace_inv_def)
  obtain es where es: "kv_store_dict_delete_key De (expires db) 0 k = Inr (es, kv_lookup (expires db) 0 k)"
    "kv_inv De es" "kv_slot es = kv_slot (expires db)"
    "kv_lookup es = (kv_lookup (expires db))(0 := (kv_lookup (expires db) 0)(k := None))"
    using db_invD(3,4) [OF inv] by (rule kv.delete_any)
  let ?db1 = "db\<lparr>expires := es\<rparr>"
  have d1: "db_inv Dk De ?db1" "db_ttl ?db1 = (db_ttl db)(k := None)" "db_vals ?db1 = db_vals db"
    using db_inv_expires [OF inv es(2,3), of k None] es(4) by simp_all
  obtain ks where ks: "kv_store_dict_delete_key Dk (keys ?db1) 0 k = Inr (ks, kv_lookup (keys ?db1) 0 k)"
    "kv_inv Dk ks" "kv_slot ks = kv_slot (keys ?db1)"
    "kv_lookup ks = (kv_lookup (keys ?db1))(0 := (kv_lookup (keys ?db1) 0)(k := None))"
    using db_invD(1,2) [OF d1(1)] by (rule kv.delete_any)
  let ?db2 = "?db1\<lparr>keys := ks\<rparr>"
  have d2: "db_inv Dk De ?db2" "db_vals ?db2 = (db_vals db)(k := None)" "db_ttl ?db2 = (db_ttl db)(k := None)"
    using db_inv_keys [OF d1(1) ks(2,3), of k None] ks(4) d1 by simp_all
  let ?h = "heap_free h (db_vals db k)"
  have "(case kv_lookup (keys ?db1) 0 k of None \<Rightarrow> Inr h | Some val \<Rightarrow> dict_object_destructor L h val) = Inr ?h"
  proof (cases "db_vals db k")
    case None
    then show ?thesis using db_vals_lookup [OF d1(1), of k] d1(3) by (simp add: heap_free_def)
  next
    case (Some a)
    then obtain obj where "cells h a = Some obj" "refcount obj = 1" using own unfolding db_owns_def by blast
    then have "latte_object_decr_ref_count L h a = Inr (obj_put h a None)"
      using L by (simp add: object_laws_def)
    then show ?thesis using Some db_vals_lookup [OF d1(1), of k] d1(3) by (simp add: dict_object_destructor_def heap_free_def)
  qed
  then have "db_delete_key L Dk De db h k = Inr (?db2, ?h)"
    using es(1) ks(1) by (simp add: db_delete_key_def)
  moreover have "db_owns ?db2 ?h"
    using own d2(2) unfolding db_owns_def by (auto simp: heap_free_def split: option.splits)
  moreover have "heap_wf ?h"
    using wf by (auto simp: heap_wf_def heap_free_def split: option.splits if_splits)
  moreover have "dom (db_ttl ?db2) \<subseteq> dom (db_vals ?db2)"
    using d2(2,3) assms by (auto simp: keyspace_inv_def)
  ultimately show ?thesis using d2 L by (auto simp: keyspace_inv_def)
qed

lemma expire_if_needed_due:
  assumes "keyspace_inv L Dk De db h" "db_ttl db k = Some t" "t \<le> now"
  shows "\<exists>db'. expire_if_needed L Dk De now db h k = Inr (db', heap_free h (db_vals db k), True) \<and>
    keyspace_inv L Dk De db' (heap_free h (db_vals db k)) \<and>
    db_vals db' = (db_vals db)(k := None) \<and> db_ttl db' = (db_ttl db)(k := None)"
proof -
  have inv: "db_inv Dk De db" using assms(1) by (simp add: keyspace_inv_def)
  have "kv_store_entry_val De (expires db) 0 k = Inr (Some t)"
    using kv.entry_val [OF db_invD(3,4) [OF inv], of k] assms(2) by (simp add: db_ttl_lookup [OF inv])
  moreover have "kv_store_dict_find De (expires db) 0 k = Inr (Some k)"
    using assms(2) by (simp add: db_find_expire_spec [OF inv])
  ultimately have "expire_if_needed L Dk De now db h k =
    res_bind (db_delete_key L Dk De db h k) (\<lambda>(db, h). Inr (db, h, True))"
    using assms(3) by (simp add: expire_if_needed_def)
  with db_delete_key_spec [OF assms(1), of k] show ?thesis by auto
qed

lemma expire_if_needed_live:
  assumes "keyspace_inv L Dk De db h" "\<And>t. db_ttl db k = Some t \<Longrightarrow> now < t"
  shows "expire_if_needed L Dk De now db h k = Inr (db, h, False)"
proof -
  have inv: "db_inv Dk De db" using assms(1) by (simp add: keyspace_inv_def)
  show ?thesis
  proof (cases "db_ttl db k")
    case None
    then show ?thesis by (simp add: expire_if_needed_def db_find_expire_spec [OF inv])
  next
    case (Some t)
    then have "kv_store_entry_val De (expires db) 0 k = Inr (Some t)"
      using kv.entry_val [OF db_invD(3,4) [OF inv], of k] by (simp add: db_ttl_lookup [OF inv])
    then show ?thesis using Some assms(2)
      by (simp add: expire_if_needed_def db_find_expire_spec [OF inv])
  qed
qed

subsection \<open>Deadlines\<close>

lemma db_get_expire_spec:
  assumes "db_inv Dk De db"
  shows "db_get_expire De db k = Inr (case db_ttl db k of None \<Rightarrow> 0 | Some t \<Rightarrow> t)"
proof (cases "db_ttl db k")
  case None
  then show ?thesis by (simp add: db_get_expire_def db_find_expire_spec [OF assms])
next
  case (Some t)
  then have "kv_store_entry_val De (expires db) 0 k = Inr (Some t)"
    using kv.entry_val [OF db_invD(3,4) [OF assms], of k] by (simp add: db_ttl_lookup [OF assms])
  then show ?thesis using Some by (simp add: db_get_expire_def db_find_expire_spec [OF assms])
qed

lemma db_set_expire_new:
  assumes inv: "db_inv Dk De db" and none: "db_ttl db k = None"
  shows "\<exists>db'. db_set_expire De db k t = Inr (db', 0) \<and> db_inv Dk De db' \<and>
    db_vals db' = db_vals db \<and> db_ttl db' = (db_ttl db)(k \<mapsto> t)"
proof -
  have "kv_lookup (expires db) 0 k = None" using none by (simp add: db_ttl_lookup [OF inv])
  with db_invD(3,4) [OF inv] obtain es1 es where es: "kv_store_dict_add_raw De (expires db) 0 k = Inr (es1, Some k, None)"
    "kv_store_dict_set_val De es1 0 k t = Inr es" "kv_inv De es" "kv_slot es = kv_slot (expires db)"
    "kv_lookup es = (kv_lookup (expires db))(0 := (kv_lookup (expires db) 0)(k \<mapsto> Some t))"
    by (rule kv.store_new)
  then have "db_set_expire De db k t = Inr (db\<lparr>expires := es\<rparr>, 0)" by (simp add: db_set_expire_def)
  then show ?thesis using db_inv_expires [OF inv es(3,4), of k "Some t"] es(5) by simp
qed

lemma db_set_expire_old:
  assumes inv: "db_inv Dk De db" and some: "db_ttl db k = Some t0"
  shows "\<exists>db'. db_set_expire De db k t = Inr (db', -1) \<and> db_inv Dk De db' \<and>
    db_vals db' = db_vals db \<and> db_ttl db' = db_ttl db"
proof -
  have "kv_lookup (expires db) 0 k = Some (Some t0)" using some by (simp add: db_ttl_lookup [OF inv])
  from kv.add_raw_old [OF db_invD(3,4) [OF inv] this] obtain es where
    es: "kv_store_dict_add_raw De (expires db) 0 k = Inr (es, None, Some k)" "kv_inv De es"
    "kv_slot es = kv_slot (expires db)" "kv_lookup es = kv_lookup (expires db)" by blast
  then have "db_set_expire De db k t = Inr (db\<lparr>expires := es\<rparr>, -1)" by (simp add: db_set_expire_def)
  moreover have "kv_lookup es = (kv_lookup (expires db))(0 := (kv_lookup (expires db) 0)(k := map_option Some (Some t0)))"
    using es(4) some by (auto simp: fun_eq_iff db_ttl_lookup [OF inv])
  ultimately show ?thesis using db_inv_expires [OF inv es(2,3), of k "Some t0"] some by (auto simp: fun_eq_iff)
qed

subsection \<open>Insertion\<close>

lemma init_object_spec:
  assumes "cells h a = Some obj" "hz server \<noteq> 0"
  shows "\<exists>l. init_object_lru_or_lfu L now server h a = Inr (obj_put h a (Some (obj\<lparr>lru := l\<rparr>)))"
proof (cases "refcount obj = OBJ_SHARED_REFCOUNT L")
  case True
  have "obj_put h a (Some (obj\<lparr>lru := lru obj\<rparr>)) = h" using assms(1) by (simp add: obj_put_def fun_upd_idem)
  then show ?thesis using True assms by (auto simp: init_object_lru_or_lfu_def intro!: exI [of _ "lru obj"])
qed (use assms in \<open>auto simp: init_object_lru_or_lfu_def lru_clock_def c_div_def\<close>)

lemma db_add_new:
  assumes inv: "db_inv Dk De db" and L: "object_laws L" and hz: "hz server \<noteq> 0"
    and key: "cells h ka = Some kobj" "string_obj L kobj ks"
    and val: "cells h va = Some vobj" and new: "db_vals db (c_string ks) = None"
  shows "\<exists>db' l. db_add_key_value L Dk now server db h ka va =
      Inr (db', obj_put h va (Some (vobj\<lparr>lru := l\<rparr>)), 0) \<and> db_inv Dk De db' \<and>
    db_vals db' = (db_vals db)(c_string ks \<mapsto> va) \<and> db_ttl db' = db_ttl db"
proof -
  have sds: "get_sds_from_object L kobj = Some ks" "ptr kobj = Ptr_bytes ks"
    using L key(2) by (auto simp: object_laws_def string_obj_def)
  have "kv_lookup (keys db) 0 (c_string ks) = None" using new by (simp add: db_vals_lookup [OF inv])
  with db_invD(1,2) [OF inv] obtain s1 s2 where
    s: "kv_store_dict_add_raw Dk (keys db) 0 (c_string ks) = Inr (s1, Some (c_string ks), None)"
    "kv_store_dict_set_val Dk s1 0 (c_string ks) va = Inr s2" "kv_inv Dk s2" "kv_slot s2 = kv_slot (keys db)"
    "kv_lookup s2 = (kv_lookup (keys db))(0 := (kv_lookup (keys db) 0)(c_string ks \<mapsto> Some va))"
    by (rule kv.store_new)
  obtain l where "init_object_lru_or_lfu L now server h va = Inr (obj_put h va (Some (vobj\<lparr>lru := l\<rparr>)))"
    using init_object_spec [OF val hz] by blast
  then have "db_add_key_value L Dk now server db h ka va =
    Inr (db\<lparr>keys := s2\<rparr>, obj_put h va (Some (vobj\<lparr>lru := l\<rparr>)), 0)"
    using s(1,2) key(1) sds by (simp add: db_add_key_value_def db_add_key_value_internal_def)
  then show ?thesis using db_inv_keys [OF inv s(3,4), of "c_string ks" "Some va"] s(5) by auto
qed

lemma db_add_existing:
  assumes inv: "db_inv Dk De db" and own: "db_owns db h" and L: "object_laws L"
    and key: "cells h ka = Some kobj" "string_obj L kobj ks"
    and val: "cells h va = Some vobj" and old: "db_vals db (c_string ks) = Some a"
  shows "db_add_key_value L Dk now server db h ka va = Inl (Assert_fail ''overwrite is not supported'')"
proof -
  have sds: "get_sds_from_object L kobj = Some ks" "ptr kobj = Ptr_bytes ks"
    using L key(2) by (auto simp: object_laws_def string_obj_def)
  have lk: "kv_lookup (keys db) 0 (c_string ks) = Some (Some a)" using old by (simp add: db_vals_lookup [OF inv])
  from kv.add_raw_old [OF db_invD(1,2) [OF inv] this] obtain s1 where
    s1: "kv_store_dict_add_raw Dk (keys db) 0 (c_string ks) = Inr (s1, None, Some (c_string ks))" "kv_inv Dk s1"
    "kv_slot s1 = kv_slot (keys db)" "kv_lookup s1 = kv_lookup (keys db)" by blast
  have "kv_store_entry_val Dk s1 0 (c_string ks) = Inr (Some a)"
    using kv.entry_val [OF s1(2)] s1(3,4) lk db_invD(2) [OF inv] by simp
  moreover obtain oobj where "cells h a = Some oobj" using own old unfolding db_owns_def by blast
  ultimately show ?thesis using s1(1) key(1) val sds
    by (simp add: db_add_key_value_def db_add_key_value_internal_def db_set_value_def)
qed

text \<open>
  A value stored under a key: what is left of the old objects keeps its one reference, and the new
  one has it.
\<close>

lemma db_owns_store:
  assumes own: "db_owns db h" and vals: "db_vals db' = (db_vals db)(k \<mapsto> a)"
    and a: "cells h' a = Some obj" "refcount obj = 1" "a \<notin> ran (db_vals db)"
    and same: "\<And>k' b. k' \<noteq> k \<Longrightarrow> db_vals db k' = Some b \<Longrightarrow> cells h' b = cells h b"
  shows "db_owns db' h'"
  unfolding db_owns_def
proof (intro conjI allI impI)
  fix k1 k2 b assume b: "db_vals db' k1 = Some b" "db_vals db' k2 = Some b"
  then show "k1 = k2" using own a(3) unfolding vals db_owns_def
    by (auto simp: ran_def split: if_splits)
next
  fix k1 b assume b: "db_vals db' k1 = Some b"
  show "\<exists>obj. cells h' b = Some obj \<and> refcount obj = 1"
  proof (cases "k1 = k")
    case True
    then show ?thesis using a b vals by simp
  next
    case False
    then have "db_vals db k1 = Some b" using b vals by simp
    then show ?thesis using same [OF False] own unfolding db_owns_def by metis
  qed
qed

subsection \<open>The interface the commands rely on\<close>

text \<open>
  A keyspace with deadlines: a map of values and a map of deadlines, an expiration that deletes
  exactly the due key, a lookup, and a deadline that can be set once. \<open>lookup_live\<close> is what every
  reading command needs: expire, then find, returns what is live at that time and loses nothing
  that is live.
\<close>

locale keyspace =
  fixes inv :: "'d \<Rightarrow> obj_heap \<Rightarrow> bool"
    and vals :: "'d \<Rightarrow> string \<rightharpoonup> nat"
    and ttl :: "'d \<Rightarrow> string \<rightharpoonup> int"
    and find :: "'d \<Rightarrow> string \<Rightarrow> string option res"
    and expire :: "int \<Rightarrow> 'd \<Rightarrow> obj_heap \<Rightarrow> string \<Rightarrow> ('d \<times> obj_heap \<times> bool) res"
    and set_expire :: "'d \<Rightarrow> string \<Rightarrow> int \<Rightarrow> ('d \<times> int) res"
  assumes find: "inv d h \<Longrightarrow> find d k = Inr (map_option (\<lambda>_. k) (vals d k))"
    and expire_due: "inv d h \<Longrightarrow> ttl d k = Some t \<Longrightarrow> t \<le> now \<Longrightarrow>
      \<exists>d'. expire now d h k = Inr (d', heap_free h (vals d k), True) \<and> inv d' (heap_free h (vals d k)) \<and>
        vals d' = (vals d)(k := None) \<and> ttl d' = (ttl d)(k := None)"
    and expire_live: "inv d h \<Longrightarrow> (\<And>t. ttl d k = Some t \<Longrightarrow> now < t) \<Longrightarrow> expire now d h k = Inr (d, h, False)"
    and set_expire_new: "inv d h \<Longrightarrow> vals d k = Some a \<Longrightarrow> ttl d k = None \<Longrightarrow>
      \<exists>d'. set_expire d k t = Inr (d', 0) \<and> inv d' h \<and> vals d' = vals d \<and> ttl d' = (ttl d)(k \<mapsto> t)"
    and set_expire_old: "inv d h \<Longrightarrow> ttl d k = Some t0 \<Longrightarrow>
      \<exists>d'. set_expire d k t = Inr (d', -1) \<and> inv d' h \<and> vals d' = vals d \<and> ttl d' = ttl d"
begin

text \<open>One step of lazy expiration on a key.\<close>

definition expired_by :: "int \<Rightarrow> string \<Rightarrow> 'd \<Rightarrow> obj_heap \<Rightarrow> 'd \<Rightarrow> obj_heap \<Rightarrow> bool" where
  "expired_by now k d h d' h' \<longleftrightarrow>
     (if \<exists>t. ttl d k = Some t \<and> t \<le> now
      then vals d' = (vals d)(k := None) \<and> ttl d' = (ttl d)(k := None) \<and> h' = heap_free h (vals d k)
      else d' = d \<and> h' = h)"

lemma expire_any:
  assumes "inv d h"
  obtains d' h' where "expire now d h k = Inr (d', h', \<exists>t. ttl d k = Some t \<and> t \<le> now)" "inv d' h'"
    "expired_by now k d h d' h'"
proof (cases "\<exists>t. ttl d k = Some t \<and> t \<le> now")
  case True
  then obtain t where "ttl d k = Some t" "t \<le> now" by blast
  from expire_due [OF assms this] that show thesis using True by (auto simp: expired_by_def)
next
  case False
  then have "expire now d h k = Inr (d, h, False)" by (intro expire_live [OF assms]) force
  with that [of d h] False assms show thesis by (simp add: expired_by_def)
qed

lemma expired_by_live:
  assumes "expired_by now k d h d' h'"
  shows "live (vals d') (ttl d') now = live (vals d) (ttl d) now"
    "vals d' k = live (vals d) (ttl d) now k"
  using assms by (auto simp: expired_by_def live_def fun_eq_iff split: if_splits option.splits)

lemma lookup_live:
  assumes "inv d h"
  obtains d' h' where
    "res_bind (expire now d h k) (\<lambda>(d, h, e). if e then Inr (d, h, None) else res_bind (find d k) (\<lambda>r. Inr (d, h, r)))
       = Inr (d', h', map_option (\<lambda>_. k) (live (vals d) (ttl d) now k))"
    "inv d' h'" "expired_by now k d h d' h'"
proof -
  obtain d' h' where e: "expire now d h k = Inr (d', h', \<exists>t. ttl d k = Some t \<and> t \<le> now)" "inv d' h'"
    "expired_by now k d h d' h'"
    using expire_any [OF assms] by blast
  have "res_bind (expire now d h k) (\<lambda>(d, h, e). if e then Inr (d, h, None) else res_bind (find d k) (\<lambda>r. Inr (d, h, r)))
       = Inr (d', h', map_option (\<lambda>_. k) (live (vals d) (ttl d) now k))"
  proof (cases "\<exists>t. ttl d k = Some t \<and> t \<le> now")
    case True
    then show ?thesis using e(1) by (auto simp: live_def)
  next
    case False
    then have "vals d' k = live (vals d) (ttl d) now k" using expired_by_live(2) [OF e(3)] by simp
    then show ?thesis using e(1) False find [OF e(2), of k] by simp
  qed
  with e that show thesis by blast
qed

end

interpretation ks: keyspace "keyspace_inv L Dk De" db_vals db_ttl
  "\<lambda>db k. kv_store_dict_find Dk (keys db) (get_kv_store_index_for_key k) k"
  "expire_if_needed L Dk De" "db_set_expire De" for L Dk De
proof
  fix db h k and t t0 now :: int
  assume inv: "keyspace_inv L Dk De db h"
  then have db: "db_inv Dk De db" by (simp add: keyspace_inv_def)
  show "kv_store_dict_find Dk (keys db) (get_kv_store_index_for_key k) k = Inr (map_option (\<lambda>_. k) (db_vals db k))"
    using db_find_spec [OF db] by simp
  show "db_vals db k = Some a \<Longrightarrow> db_ttl db k = None \<Longrightarrow> \<exists>d'. db_set_expire De db k t = Inr (d', 0) \<and>
    keyspace_inv L Dk De d' h \<and> db_vals d' = db_vals db \<and> db_ttl d' = (db_ttl db)(k \<mapsto> t)" for a
    using db_set_expire_new [OF db, of k t] inv by (auto simp: keyspace_inv_def db_owns_def)
  show "db_ttl db k = Some t0 \<Longrightarrow> \<exists>d'. db_set_expire De db k t = Inr (d', -1) \<and>
    keyspace_inv L Dk De d' h \<and> db_vals d' = db_vals db \<and> db_ttl d' = db_ttl db"
    using db_set_expire_old [OF db, of k t0 t] inv by (auto simp: keyspace_inv_def db_owns_def)
qed (use expire_if_needed_due expire_if_needed_live in blast)+

subsection \<open>The databases the server starts with\<close>

lemma new_redis_db_spec:
  assumes "dict_laws (\<lambda>k. k) Dk" "dict_laws (\<lambda>k. k) De"
  shows "\<exists>db. new_redis_db Dk De i = Inr db \<and> db_inv Dk De db \<and> db_id db = i \<and>
    db_vals db = Map.empty \<and> db_ttl db = Map.empty"
proof -
  obtain ks where ks: "kv_store_create Dk kv_store_keys_dict_type 0 KVSTORE_ALLOCATE_DICTS_ON_DEMAND = Inr ks" "kv_inv Dk ks"
    "num_dicts ks = 1" "\<forall>i k. kv_slot ks i \<longrightarrow> kv_lookup ks i k = None"
    using kv_store_create_spec [OF assms(1), of 0 kv_store_keys_dict_type KVSTORE_ALLOCATE_DICTS_ON_DEMAND] by (auto simp: kv_store_keys_dict_type_def)
  obtain es where es: "kv_store_create De kv_store_expires_dict_type 0 KVSTORE_ALLOCATE_DICTS_ON_DEMAND = Inr es" "kv_inv De es"
    "num_dicts es = 1" "\<forall>i k. kv_slot es i \<longrightarrow> kv_lookup es i k = None"
    using kv_store_create_spec [OF assms(2), of 0 kv_store_expires_dict_type KVSTORE_ALLOCATE_DICTS_ON_DEMAND] by (auto simp: kv_store_expires_dict_type_def)
  have "kv_slot ks 0" "kv_slot es 0" using ks(3) es(3) by (simp_all add: kv_slot_def)
  then show ?thesis using ks es by (auto simp: new_redis_db_def db_inv_def db_vals_def db_ttl_def fun_eq_iff)
qed

lemma init_redis_server_dbs_spec:
  assumes "dict_laws (\<lambda>k. k) Dk" "dict_laws (\<lambda>k. k) De"
  shows "\<exists>dbs. init_redis_server_dbs Dk De i n = Inr dbs \<and> length dbs = n \<and>
    (\<forall>j<n. db_inv Dk De (dbs ! j) \<and> db_id (dbs ! j) = i + j \<and>
       db_vals (dbs ! j) = Map.empty \<and> db_ttl (dbs ! j) = Map.empty)"
proof (induction n arbitrary: i)
  case (Suc n)
  obtain db where db: "new_redis_db Dk De i = Inr db" "db_inv Dk De db" "db_id db = i"
    "db_vals db = Map.empty" "db_ttl db = Map.empty"
    using new_redis_db_spec [OF assms] by blast
  obtain dbs where dbs: "init_redis_server_dbs Dk De (Suc i) n = Inr dbs" "length dbs = n"
    "\<forall>j<n. db_inv Dk De (dbs ! j) \<and> db_id (dbs ! j) = Suc i + j \<and>
       db_vals (dbs ! j) = Map.empty \<and> db_ttl (dbs ! j) = Map.empty"
    using Suc.IH [of "Suc i"] by blast
  have "init_redis_server_dbs Dk De i (Suc n) = Inr (db # dbs)" using db dbs by simp
  moreover have "db_inv Dk De ((db # dbs) ! j) \<and> db_id ((db # dbs) ! j) = i + j \<and>
       db_vals ((db # dbs) ! j) = Map.empty \<and> db_ttl ((db # dbs) ! j) = Map.empty" if "j < Suc n" for j
    using db dbs that by (cases j) auto
  ultimately show ?case using dbs(2) by (intro exI [of _ "db # dbs"]) auto
qed simp

section \<open>Properties\<close>

text \<open>
  C10. Lazy expiration refines the abstract step "delete the key if its deadline has come": on a
  database that keeps the invariant it never fails, it reports and deletes exactly when the
  key has a deadline that is not after the current time, it removes both the value and the
  deadline and frees the object, it keeps the invariant, and what is live at that time stays live.
\<close>

theorem expire_if_needed_exact:
  assumes "keyspace_inv L Dk De db h"
  shows "\<exists>db' h'. expire_if_needed L Dk De now db h k = Inr (db', h', \<exists>t. db_ttl db k = Some t \<and> t \<le> now) \<and>
    keyspace_inv L Dk De db' h' \<and>
    live (db_vals db') (db_ttl db') now = live (db_vals db) (db_ttl db) now \<and>
    (if \<exists>t. db_ttl db k = Some t \<and> t \<le> now
     then db_vals db' = (db_vals db)(k := None) \<and> db_ttl db' = (db_ttl db)(k := None) \<and>
          h' = heap_free h (db_vals db k)
     else db' = db \<and> h' = h)"
proof -
  obtain db' h' where e: "expire_if_needed L Dk De now db h k = Inr (db', h', \<exists>t. db_ttl db k = Some t \<and> t \<le> now)"
    "keyspace_inv L Dk De db' h'" "ks.expired_by now k db h db' h'"
    by (rule ks.expire_any [OF assms])
  show ?thesis
    by (intro exI [of _ db'] exI [of _ h'] conjI e(1,2) ks.expired_by_live(1) [OF e(3)]
        e(3) [unfolded ks.expired_by_def])
qed

text \<open>
  C35. The first deadline set on a key is stored and read back by \<open>db_get_expire\<close>; a second one is
  refused with -1 and the first stays.
\<close>

theorem db_set_expire_once:
  assumes "db_inv Dk De db" "db_ttl db k = None"
  shows "\<exists>db1 db2. db_set_expire De db k t1 = Inr (db1, 0) \<and> db_inv Dk De db1 \<and>
    db_get_expire De db1 k = Inr t1 \<and> db_vals db1 = db_vals db \<and>
    db_set_expire De db1 k t2 = Inr (db2, -1) \<and> db_get_expire De db2 k = Inr t1"
proof -
  obtain db1 where d1: "db_set_expire De db k t1 = Inr (db1, 0)" "db_inv Dk De db1"
    "db_vals db1 = db_vals db" "db_ttl db1 = (db_ttl db)(k \<mapsto> t1)"
    using db_set_expire_new [OF assms] by blast
  obtain db2 where d2: "db_set_expire De db1 k t2 = Inr (db2, -1)" "db_inv Dk De db2" "db_ttl db2 = db_ttl db1"
    using db_set_expire_old [OF d1(2), of k t1 t2] d1(4) by auto
  show ?thesis using d1 d2 by (simp add: db_get_expire_spec)
qed

text \<open>
  A new value is stored under the key's bytes up to the first NUL byte, not under the whole
  key, with no deadline added and nothing else of the database changed; the stored object is the
  caller's, stamped.
\<close>

lemma db_add_truncates_key:
  assumes "db_inv Dk De db" "object_laws L" "hz server \<noteq> 0"
    "cells h ka = Some kobj" "string_obj L kobj ks" "cells h va = Some vobj" "db_vals db (c_string ks) = None"
  shows "\<exists>db' l. db_add_key_value L Dk now server db h ka va =
      Inr (db', obj_put h va (Some (vobj\<lparr>lru := l\<rparr>)), 0) \<and> db_inv Dk De db' \<and>
    db_vals db' = (db_vals db)(c_string ks \<mapsto> va) \<and> db_ttl db' = db_ttl db"
  using assms by (rule db_add_new)

text \<open>
  Adding a key that is there already does not update it in place: the process stops at the
  assertion "overwrite is not supported".
\<close>

lemma db_add_existing_aborts:
  assumes "keyspace_inv L Dk De db h" "cells h ka = Some kobj" "string_obj L kobj ks"
    "cells h va = Some vobj" "db_vals db (c_string ks) \<noteq> None"
  shows "db_add_key_value L Dk now server db h ka va = Inl (Assert_fail ''overwrite is not supported'')"
  using assms db_add_existing unfolding keyspace_inv_def by blast

text \<open>
  The clock that stamps objects is the cached field for every nonzero frequency (1000 / hz is
  never above the resolution), so the branch that reads the time never runs; a frequency of zero
  is a division by zero.
\<close>

lemma lru_clock_always_cached:
  "lru_clock L now server = (if hz server = 0 then Inl Div_by_zero else Inr (lruclock server))"
  using c_quot_le [of 1000 "hz server"] by (simp add: lru_clock_def c_div_def LRU_CLOCK_RESOLUTION_def)

text \<open>
  The databases the server starts with are as many as configured, numbered from zero, empty,
  and keep the invariant.
\<close>

lemma init_redis_server_dbs_fresh:
  assumes "dict_laws (\<lambda>k. k) Dk" "dict_laws (\<lambda>k. k) De" "object_laws L"
  shows "\<exists>dbs. init_redis_server_dbs Dk De 0 n = Inr dbs \<and> length dbs = n \<and>
    (\<forall>j<n. keyspace_inv L Dk De (dbs ! j) empty_heap \<and> db_id (dbs ! j) = j \<and>
       db_vals (dbs ! j) = Map.empty \<and> db_ttl (dbs ! j) = Map.empty)"
  using init_redis_server_dbs_spec [OF assms(1,2), of 0 n] assms(3)
  by (auto simp: keyspace_inv_def db_owns_def)

section \<open>Witnesses\<close>

text \<open>One database with the key \<open>k\<close>, whose object is at address 1 and whose deadline is 50.\<close>

definition D0e :: "int dict_ops" where
  "D0e = dict_ref (\<lambda>k. k)"

definition server_ex :: "lru_state" where
  "server_ex = \<lparr>unixtime = 0, hz = 10, maxmemory_policy = 0, lruclock = 0\<rparr>"

definition h_ex :: obj_heap where
  "h_ex = \<lparr>cells = [0 \<mapsto> mk_string_obj ''k'', 1 \<mapsto> mk_string_obj ''v''], next_addr = 2\<rparr>"

definition db_ex0 :: redis_db where
  "db_ex0 = projr (new_redis_db D0 D0e 0)"

definition db_ex1 :: redis_db where
  "db_ex1 = fst (projr (db_add_key_value latte_c_ref D0 7 server_ex db_ex0 h_ex 0 1))"

definition db_ex2 :: redis_db where
  "db_ex2 = fst (projr (db_set_expire D0e db_ex1 ''k'' 50))"

lemma D0e_laws: "dict_laws (\<lambda>k. k) D0e"
  unfolding D0e_def by (rule dict_ref_laws)

lemma db_ex0: "db_inv D0 D0e db_ex0" "db_vals db_ex0 = Map.empty" "db_ttl db_ex0 = Map.empty"
  using new_redis_db_spec [OF D0_laws D0e_laws, of 0] by (auto simp: db_ex0_def)

lemma h_ex: "cells h_ex 0 = Some (mk_string_obj ''k'')" "cells h_ex 1 = Some (mk_string_obj ''v'')"
  "string_obj latte_c_ref (mk_string_obj s) s" "hz server_ex \<noteq> 0" "heap_wf h_ex"
  by (auto simp: h_ex_def string_obj_def mk_string_obj_def latte_c_ref_def server_ex_def heap_wf_def split: if_splits)

lemma db_ex1: "db_inv D0 D0e db_ex1" "db_vals db_ex1 = [''k'' \<mapsto> 1]" "db_ttl db_ex1 = Map.empty"
proof -
  have "c_string ''k'' = ''k''" by simp
  with db_add_new [OF db_ex0(1) object_laws_ref h_ex(4,1,3) h_ex(2), of 7] db_ex0
  show "db_inv D0 D0e db_ex1" "db_vals db_ex1 = [''k'' \<mapsto> 1]" "db_ttl db_ex1 = Map.empty"
    by (auto simp: db_ex1_def)
qed

lemma db_ex2: "db_inv D0 D0e db_ex2" "db_vals db_ex2 = [''k'' \<mapsto> 1]" "db_ttl db_ex2 = [''k'' \<mapsto> 50]"
  using db_set_expire_new [OF db_ex1(1), of "''k''" 50] db_ex1 by (auto simp: db_ex2_def)

lemma db_ex2_inv: "keyspace_inv latte_c_ref D0 D0e db_ex2 h_ex"
  using h_ex db_ex2 object_laws_ref by (auto simp: keyspace_inv_def db_owns_def mk_string_obj_def split: if_splits)

theorem expire_if_needed_exact_witness:
  "\<exists>db'. expire_if_needed latte_c_ref D0 D0e 60 db_ex2 h_ex ''k'' = Inr (db', obj_put h_ex 1 None, True) \<and>
     db_vals db' = Map.empty"
  using expire_if_needed_exact [OF db_ex2_inv, of 60 "''k''"] db_ex2 by (auto simp: heap_free_def)

theorem db_set_expire_once_witness:
  "\<exists>db1 db2. db_set_expire D0e db_ex1 ''k'' 50 = Inr (db1, 0) \<and> db_get_expire D0e db1 ''k'' = Inr 50 \<and>
     db_set_expire D0e db1 ''k'' 70 = Inr (db2, -1) \<and> db_get_expire D0e db2 ''k'' = Inr 50"
  using db_set_expire_once [OF db_ex1(1), of "''k''" 50 70] db_ex1(3) by auto

end
