(* ===== verification/Command_Table.thy ===== *)
theory Command_Table
  imports Latte_C
begin

text \<open>
  The command manager of \<open>src/commands/command_manager.c\<close>: the table of built-in commands, the
  parsing of their flag strings, the ids that index ACL bitmaps, registration and lookup. The
  radix tree of the ids is part of latte\_c and a parameter, like the dictionary.
\<close>

named_theorems flag_values \<open>the values of the command flags\<close>

section \<open>Flags and categories\<close>

definition CMD_WRITE :: "64 word" where [flag_values]: "CMD_WRITE = 1"
definition CMD_READONLY :: "64 word" where [flag_values]: "CMD_READONLY = 2"
definition CMD_DENYOOM :: "64 word" where [flag_values]: "CMD_DENYOOM = 4"
definition CMD_MODULE :: "64 word" where [flag_values]: "CMD_MODULE = 8"
definition CMD_ADMIN :: "64 word" where [flag_values]: "CMD_ADMIN = 16"
definition CMD_PUBSUB :: "64 word" where [flag_values]: "CMD_PUBSUB = 32"
definition CMD_NOSCRIPT :: "64 word" where [flag_values]: "CMD_NOSCRIPT = 64"
definition CMD_RANDOM :: "64 word" where [flag_values]: "CMD_RANDOM = 128"
definition CMD_SORT_FOR_SCRIPT :: "64 word" where [flag_values]: "CMD_SORT_FOR_SCRIPT = 256"
definition CMD_LOADING :: "64 word" where [flag_values]: "CMD_LOADING = 512"
definition CMD_STALE :: "64 word" where [flag_values]: "CMD_STALE = 1024"
definition CMD_SKIP_MONITOR :: "64 word" where [flag_values]: "CMD_SKIP_MONITOR = 2048"
definition CMD_SKIP_SLOWLOG :: "64 word" where [flag_values]: "CMD_SKIP_SLOWLOG = 4096"
definition CMD_ASKING :: "64 word" where [flag_values]: "CMD_ASKING = 8192"
definition CMD_FAST :: "64 word" where [flag_values]: "CMD_FAST = 16384"
definition CMD_NO_AUTH :: "64 word" where [flag_values]: "CMD_NO_AUTH = 32768"
definition CMD_MAY_REPLICATE :: "64 word" where [flag_values]: "CMD_MAY_REPLICATE = 65536"
definition CMD_MODULE_GETKEYS :: "64 word" where [flag_values]: "CMD_MODULE_GETKEYS = 131072"
definition CMD_MODULE_NO_CLUSTER :: "64 word" where [flag_values]: "CMD_MODULE_NO_CLUSTER = 262144"
definition CMD_CATEGORY_KEYSPACE :: "64 word" where [flag_values]: "CMD_CATEGORY_KEYSPACE = 524288"
definition CMD_CATEGORY_READ :: "64 word" where [flag_values]: "CMD_CATEGORY_READ = 1048576"
definition CMD_CATEGORY_WRITE :: "64 word" where [flag_values]: "CMD_CATEGORY_WRITE = 2097152"
definition CMD_CATEGORY_SET :: "64 word" where [flag_values]: "CMD_CATEGORY_SET = 4194304"
definition CMD_CATEGORY_SORTEDSET :: "64 word" where [flag_values]: "CMD_CATEGORY_SORTEDSET = 8388608"
definition CMD_CATEGORY_LIST :: "64 word" where [flag_values]: "CMD_CATEGORY_LIST = 16777216"
definition CMD_CATEGORY_HASH :: "64 word" where [flag_values]: "CMD_CATEGORY_HASH = 33554432"
definition CMD_CATEGORY_STRING :: "64 word" where [flag_values]: "CMD_CATEGORY_STRING = 67108864"
definition CMD_CATEGORY_BITMAP :: "64 word" where [flag_values]: "CMD_CATEGORY_BITMAP = 134217728"
definition CMD_CATEGORY_HYPERLOGLOG :: "64 word" where [flag_values]: "CMD_CATEGORY_HYPERLOGLOG = 268435456"
definition CMD_CATEGORY_GEO :: "64 word" where [flag_values]: "CMD_CATEGORY_GEO = 536870912"
definition CMD_CATEGORY_STREAM :: "64 word" where [flag_values]: "CMD_CATEGORY_STREAM = 1073741824"
definition CMD_CATEGORY_PUBSUB :: "64 word" where [flag_values]: "CMD_CATEGORY_PUBSUB = 2147483648"
definition CMD_CATEGORY_ADMIN :: "64 word" where [flag_values]: "CMD_CATEGORY_ADMIN = 4294967296"
definition CMD_CATEGORY_FAST :: "64 word" where [flag_values]: "CMD_CATEGORY_FAST = 8589934592"
definition CMD_CATEGORY_SLOW :: "64 word" where [flag_values]: "CMD_CATEGORY_SLOW = 17179869184"
definition CMD_CATEGORY_BLOCKING :: "64 word" where [flag_values]: "CMD_CATEGORY_BLOCKING = 34359738368"
definition CMD_CATEGORY_DANGEROUS :: "64 word" where [flag_values]: "CMD_CATEGORY_DANGEROUS = 68719476736"
definition CMD_CATEGORY_CONNECTION :: "64 word" where [flag_values]: "CMD_CATEGORY_CONNECTION = 137438953472"
definition CMD_CATEGORY_TRANSACTION :: "64 word" where [flag_values]: "CMD_CATEGORY_TRANSACTION = 274877906944"
definition CMD_CATEGORY_SCRIPTING :: "64 word" where [flag_values]: "CMD_CATEGORY_SCRIPTING = 549755813888"
definition CMD_SWAP_DATATYPE_KEYSPACE :: "64 word" where [flag_values]: "CMD_SWAP_DATATYPE_KEYSPACE = 1099511627776"
definition CMD_SWAP_DATATYPE_STRING :: "64 word" where [flag_values]: "CMD_SWAP_DATATYPE_STRING = 2199023255552"
definition CMD_SWAP_DATATYPE_HASH :: "64 word" where [flag_values]: "CMD_SWAP_DATATYPE_HASH = 4398046511104"
definition CMD_SWAP_DATATYPE_SET :: "64 word" where [flag_values]: "CMD_SWAP_DATATYPE_SET = 8796093022208"
definition CMD_SWAP_DATATYPE_ZSET :: "64 word" where [flag_values]: "CMD_SWAP_DATATYPE_ZSET = 17592186044416"
definition CMD_SWAP_DATATYPE_LIST :: "64 word" where [flag_values]: "CMD_SWAP_DATATYPE_LIST = 35184372088832"
definition CMD_SWAP_DATATYPE_BITMAP :: "64 word" where [flag_values]: "CMD_SWAP_DATATYPE_BITMAP = 70368744177664"


definition SWAP_NOP :: int where "SWAP_NOP = 0"

text \<open>The terminator \<open>{NULL,0}\<close> is the end of the list.\<close>

definition acl_command_categories :: "(string \<times> 64 word) list" where
  "acl_command_categories = [
     (''write'', CMD_WRITE OR CMD_CATEGORY_WRITE),
     (''read-only'', CMD_READONLY OR CMD_CATEGORY_READ),
     (''use-memory'', CMD_DENYOOM),
     (''admin'', CMD_ADMIN OR CMD_CATEGORY_ADMIN OR CMD_CATEGORY_DANGEROUS),
     (''pub-sub'', CMD_PUBSUB OR CMD_CATEGORY_PUBSUB),
     (''no-script'', CMD_NOSCRIPT),
     (''random'', CMD_RANDOM),
     (''to-sort'', CMD_SORT_FOR_SCRIPT),
     (''ok-loading'', CMD_LOADING),
     (''ok-stale'', CMD_STALE),
     (''no-monitor'', CMD_SKIP_MONITOR),
     (''no-slowlog'', CMD_SKIP_SLOWLOG),
     (''cluster-asking'', CMD_ASKING),
     (''fast'', CMD_FAST OR CMD_CATEGORY_FAST),
     (''no-auth'', CMD_NO_AUTH),
     (''may-replicate'', CMD_MAY_REPLICATE),
     (''@keyspace'', CMD_CATEGORY_KEYSPACE),
     (''@read'', CMD_CATEGORY_READ),
     (''@write'', CMD_CATEGORY_WRITE),
     (''@set'', CMD_CATEGORY_SET),
     (''@sortedset'', CMD_CATEGORY_SORTEDSET),
     (''@list'', CMD_CATEGORY_LIST),
     (''@hash'', CMD_CATEGORY_HASH),
     (''@string'', CMD_CATEGORY_STRING),
     (''@bitmap'', CMD_CATEGORY_BITMAP),
     (''@hyperloglog'', CMD_CATEGORY_HYPERLOGLOG),
     (''@geo'', CMD_CATEGORY_GEO),
     (''@stream'', CMD_CATEGORY_STREAM),
     (''@pubsub'', CMD_CATEGORY_PUBSUB),
     (''@admin'', CMD_CATEGORY_ADMIN),
     (''@fast'', CMD_CATEGORY_FAST),
     (''@slow'', CMD_CATEGORY_SLOW),
     (''@blocking'', CMD_CATEGORY_BLOCKING),
     (''@dangerous'', CMD_CATEGORY_DANGEROUS),
     (''@connection'', CMD_CATEGORY_CONNECTION),
     (''@transaction'', CMD_CATEGORY_TRANSACTION),
     (''@scripting'', CMD_CATEGORY_SCRIPTING),
     (''@swap_keyspace'', CMD_SWAP_DATATYPE_KEYSPACE),
     (''@swap_string'', CMD_SWAP_DATATYPE_STRING),
     (''@swap_hash'', CMD_SWAP_DATATYPE_HASH),
     (''@swap_set'', CMD_SWAP_DATATYPE_SET),
     (''@swap_zset'', CMD_SWAP_DATATYPE_ZSET),
     (''@swap_list'', CMD_SWAP_DATATYPE_LIST),
     (''@swap_bitmap'', CMD_SWAP_DATATYPE_BITMAP)]"

fun flag_search :: "(string \<times> 64 word) list \<Rightarrow> string \<Rightarrow> 64 word" where
  "flag_search [] name = 0"
| "flag_search ((n, f) # items) name =
     (if f = 0 then 0 else if strcase_eq name n then f else flag_search items name)"

definition command_data_type_flag_by_name :: "string \<Rightarrow> 64 word" where
  "command_data_type_flag_by_name name = flag_search acl_command_categories name"

section \<open>Commands\<close>

text \<open>
  \<open>proc\<close> points to one of the functions of the sources; a module command has the dispatcher
  there and its proxy, the module and its function, in \<open>get_keys_proc\<close>.
\<close>

datatype module_func = Set_command | Get_command | Hello_test_redis_command

record module_proxy =
  cp_module :: string
  cp_func :: module_func

datatype command_proc = Quit_command | Module_command | Ping_command | Info_command | Expire_command
  | Redis_module_command_dispatcher

record redis_command =
  cmd_name :: string
  cmd_proc :: command_proc
  arity :: int
  sflags :: string
  cmd_flags :: "64 word"
  get_keys_proc :: "module_proxy option"
  intention :: int
  firstkey :: int
  lastkey :: int
  keystep :: int
  microseconds :: int
  calls :: int
  rejected_calls :: int
  failed_calls :: int
  cmd_id :: nat

text \<open>
  The local variable \<open>catflag\<close> is an \<open>int\<close>: the 64-bit flag is cut to its low 32 bits, and
  sign-extended again when it is or-ed into the command's flags. The result says whether the
  function returned 0.
\<close>

fun parse_flag_words :: "string list \<Rightarrow> redis_command \<Rightarrow> redis_command \<times> bool" where
  "parse_flag_words [] c = (c, True)"
| "parse_flag_words (flag # argv) c =
     (let catflag = (ucast (command_data_type_flag_by_name flag) :: 32 word) in
      if catflag \<noteq> 0 then parse_flag_words argv (c\<lparr>cmd_flags := cmd_flags c OR scast catflag\<rparr>)
      else (c, False))"

definition populate_command_table_parse_flags ::
  "latte_c \<Rightarrow> redis_command \<Rightarrow> string \<Rightarrow> redis_command \<times> bool" where
  "populate_command_table_parse_flags L c strflags =
     (case sds_split_args L strflags of
        None \<Rightarrow> (c, False)
      | Some argv \<Rightarrow>
          (case parse_flag_words argv c of
             (c, False) \<Rightarrow> (c, False)
           | (c, True) \<Rightarrow>
               (if cmd_flags c AND CMD_CATEGORY_FAST = 0
                then c\<lparr>cmd_flags := cmd_flags c OR CMD_CATEGORY_SLOW\<rparr> else c, True)))"

definition builtin :: "string \<Rightarrow> command_proc \<Rightarrow> int \<Rightarrow> string \<Rightarrow> redis_command" where
  "builtin n p ar fl =
     \<lparr>cmd_name = n, cmd_proc = p, arity = ar, sflags = fl, cmd_flags = 0, get_keys_proc = None,
      intention = SWAP_NOP, firstkey = 0, lastkey = 0, keystep = 0, microseconds = 0, calls = 0,
      rejected_calls = 0, failed_calls = 0, cmd_id = 0\<rparr>"

definition redis_command_table :: "redis_command list" where
  "redis_command_table =
     [builtin ''quit'' Quit_command 0 ''admin'',
      builtin ''module'' Module_command (-2) ''admin no-script'',
      builtin ''ping'' Ping_command (-2) ''admin'',
      builtin ''info'' Info_command (-2) ''admin'',
      builtin ''expire'' Expire_command 3 ''write fast'']"

section \<open>The manager\<close>

type_synonym rax = "(string \<times> nat) list"

record rax_ops =
  raxNew :: rax
  raxFind :: "rax \<Rightarrow> string \<Rightarrow> nat option"
  raxInsert :: "rax \<Rightarrow> string \<Rightarrow> nat \<Rightarrow> rax"

definition rax_laws :: "rax_ops \<Rightarrow> bool" where
  "rax_laws R \<longleftrightarrow> (\<forall>k. raxFind R (raxNew R) k = None) \<and>
     (\<forall>r k v k'. raxFind R (raxInsert R r k v) k' = (if k' = k then Some v else raxFind R r k'))"

definition rax_ref :: rax_ops where
  "rax_ref = \<lparr>raxNew = [], raxFind = map_of, raxInsert = (\<lambda>r k v. (k, v) # r)\<rparr>"

lemma rax_ref_laws: "rax_laws rax_ref"
  by (simp add: rax_laws_def rax_ref_def)

record command_manager =
  commands :: "redis_command dict"
  commandId :: rax
  nextid :: nat

definition USER_COMMAND_BITS_COUNT :: nat where "USER_COMMAND_BITS_COUNT = 1024"

definition command_manager_lookup ::
  "redis_command dict_ops \<Rightarrow> command_manager \<Rightarrow> string \<Rightarrow> redis_command option" where
  "command_manager_lookup Dc cm command = dict_fetch_value Dc (commands cm) command"

definition acl_get_command_id ::
  "latte_c \<Rightarrow> rax_ops \<Rightarrow> command_manager \<Rightarrow> string \<Rightarrow> command_manager \<times> nat" where
  "acl_get_command_id L R cm cmdname =
     (let lowername = sds_to_lower L (c_string cmdname) in
      case raxFind R (commandId cm) lowername of
        Some i \<Rightarrow> (cm, i)
      | None \<Rightarrow>
          let cm = cm\<lparr>commandId := raxInsert R (commandId cm) (c_string lowername) (nextid cm)\<rparr>;
              thisid = nextid cm;
              cm = cm\<lparr>nextid := nextid cm + 1\<rparr>;
              cm = (if nextid cm = USER_COMMAND_BITS_COUNT - 1 then cm\<lparr>nextid := nextid cm + 1\<rparr> else cm)
          in (cm, thisid))"

definition command_manager_register_command ::
  "latte_c \<Rightarrow> rax_ops \<Rightarrow> redis_command dict_ops \<Rightarrow> command_manager \<Rightarrow> redis_command \<Rightarrow> command_manager \<times> bool" where
  "command_manager_register_command L R Dc cm cmd =
     (let (cm, i) = acl_get_command_id L R cm (cmd_name cmd);
          (d, ok) = dict_add Dc (commands cm) (c_string (cmd_name cmd)) (cmd\<lparr>cmd_id := i\<rparr>)
      in (cm\<lparr>commands := d\<rparr>, ok))"

fun command_manager_init ::
  "latte_c \<Rightarrow> rax_ops \<Rightarrow> redis_command dict_ops \<Rightarrow> redis_command list \<Rightarrow> command_manager \<Rightarrow> command_manager res" where
  "command_manager_init L R Dc [] cm = Inr cm"
| "command_manager_init L R Dc (c # cs) cm =
     (case populate_command_table_parse_flags L c (sflags c) of
        (c, False) \<Rightarrow> Inl (Panic ''unsupported command flag'')
      | (c, True) \<Rightarrow> command_manager_init L R Dc cs (fst (command_manager_register_command L R Dc cm c)))"

definition command_manager_new ::
  "latte_c \<Rightarrow> rax_ops \<Rightarrow> redis_command dict_ops \<Rightarrow> command_manager res" where
  "command_manager_new L R Dc =
     command_manager_init L R Dc redis_command_table
       \<lparr>commands = dict_new Dc, commandId = raxNew R, nextid = 0\<rparr>"

section \<open>Ids\<close>

text \<open>Ids are below the counter, never the last bit of the bitmap, and tell names apart.\<close>

definition acl_inv :: "rax_ops \<Rightarrow> command_manager \<Rightarrow> bool" where
  "acl_inv R cm \<longleftrightarrow> nextid cm \<noteq> USER_COMMAND_BITS_COUNT - 1 \<and>
     (\<forall>k i. raxFind R (commandId cm) k = Some i \<longrightarrow> i < nextid cm \<and> i \<noteq> USER_COMMAND_BITS_COUNT - 1) \<and>
     (\<forall>k k' i. raxFind R (commandId cm) k = Some i \<longrightarrow> raxFind R (commandId cm) k' = Some i \<longrightarrow> k = k')"

lemma sds_laws_lower [simp]: "sds_laws L \<Longrightarrow> sds_to_lower L s = map to_lower s"
  by (simp add: sds_laws_def)

lemma of_char_zero: "of_char c = (0 :: nat) \<Longrightarrow> c = NUL"
  by (rule of_char_eqI [where 'a = nat]) simp

lemma NUL_to_lower: "to_lower c = NUL \<Longrightarrow> c = NUL"
proof -
  assume "to_lower c = NUL"
  then have "of_char (to_lower c) = (0 :: nat)" by simp
  then have "of_char c = (0 :: nat)"
    by (auto simp: to_lower_def Let_def split: if_splits)
  then show "c = NUL" by (rule of_char_zero)
qed

lemma c_string_lower [simp]: "c_string (map to_lower (c_string s)) = map to_lower (c_string s)"
proof (rule c_string_id)
  show "NUL \<notin> set (map to_lower (c_string s))"
    using NUL_to_lower NUL_c_string [of s] by (metis imageE list.set_map)
qed

lemma acl_get_command_id_spec:
  assumes R: "rax_laws R" and L: "sds_laws L" and inv: "acl_inv R cm"
    and call: "acl_get_command_id L R cm n = (cm', i)"
  shows "acl_inv R cm'" "raxFind R (commandId cm') (map to_lower (c_string n)) = Some i"
    "\<And>k j. raxFind R (commandId cm) k = Some j \<Longrightarrow> raxFind R (commandId cm') k = Some j"
    "commands cm' = commands cm"
proof -
  let ?k = "map to_lower (c_string n)"
  have "acl_inv R cm' \<and> raxFind R (commandId cm') ?k = Some i \<and> commands cm' = commands cm \<and>
    (\<forall>k j. raxFind R (commandId cm) k = Some j \<longrightarrow> raxFind R (commandId cm') k = Some j)"
  proof (cases "raxFind R (commandId cm) ?k")
    case (Some j)
    then show ?thesis using call inv L by (simp add: acl_get_command_id_def Let_def)
  next
    case None
    then have cm': "i = nextid cm" "commands cm' = commands cm"
      "commandId cm' = raxInsert R (commandId cm) ?k (nextid cm)"
      "nextid cm' = (if nextid cm + 1 = USER_COMMAND_BITS_COUNT - 1 then nextid cm + 2 else nextid cm + 1)"
      using call L by (auto simp: acl_get_command_id_def Let_def split: if_splits)
    have find: "raxFind R (commandId cm') k = (if k = ?k then Some (nextid cm) else raxFind R (commandId cm) k)" for k
      using R by (simp add: cm' rax_laws_def)
    have "acl_inv R cm'" unfolding acl_inv_def find cm'(4)
    proof (intro conjI allI impI)
      fix k j assume "(if k = ?k then Some (nextid cm) else raxFind R (commandId cm) k) = Some j"
      then have "j = nextid cm \<or> j < nextid cm" "j \<noteq> USER_COMMAND_BITS_COUNT - 1"
        using inv unfolding acl_inv_def by (auto split: if_splits)
      then show "j < (if nextid cm + 1 = USER_COMMAND_BITS_COUNT - 1 then nextid cm + 2 else nextid cm + 1)"
        "j \<noteq> USER_COMMAND_BITS_COUNT - 1" by auto
    next
      fix k k' j assume "(if k = ?k then Some (nextid cm) else raxFind R (commandId cm) k) = Some j"
        "(if k' = ?k then Some (nextid cm) else raxFind R (commandId cm) k') = Some j"
      then show "k = k'" using inv unfolding acl_inv_def by (metis less_irrefl option.inject)
    qed (auto simp: USER_COMMAND_BITS_COUNT_def)
    then show ?thesis using find cm' None by auto
  qed
  then show "acl_inv R cm'" "raxFind R (commandId cm') ?k = Some i" "commands cm' = commands cm"
    "\<And>k j. raxFind R (commandId cm) k = Some j \<Longrightarrow> raxFind R (commandId cm') k = Some j" by blast+
qed

text \<open>The managers the server reaches: the one it starts with, then registrations.\<close>

inductive cm_reachable :: "latte_c \<Rightarrow> rax_ops \<Rightarrow> redis_command dict_ops \<Rightarrow> command_manager \<Rightarrow> bool"
  for L R Dc where
  empty: "cm_reachable L R Dc \<lparr>commands = dict_new Dc, commandId = raxNew R, nextid = 0\<rparr>"
| register: "cm_reachable L R Dc cm \<Longrightarrow>
    cm_reachable L R Dc (fst (command_manager_register_command L R Dc cm cmd))"

lemma register_ids:
  assumes "acl_get_command_id L R cm (cmd_name cmd) = (cm1, i)"
  shows "commandId (fst (command_manager_register_command L R Dc cm cmd)) = commandId cm1"
    "nextid (fst (command_manager_register_command L R Dc cm cmd)) = nextid cm1"
  using assms by (simp_all add: command_manager_register_command_def Let_def split: prod.splits)

lemma acl_inv_cong: "commandId cm = commandId cm' \<Longrightarrow> nextid cm = nextid cm' \<Longrightarrow> acl_inv R cm = acl_inv R cm'"
  by (simp add: acl_inv_def)

lemma cm_reachable_inv:
  assumes "rax_laws R" "sds_laws L"
  shows "cm_reachable L R Dc cm \<Longrightarrow> acl_inv R cm"
proof (induction rule: cm_reachable.induct)
  case empty
  then show ?case using assms(1) by (simp add: acl_inv_def rax_laws_def USER_COMMAND_BITS_COUNT_def)
next
  case (register cm cmd)
  obtain cm1 i where c: "acl_get_command_id L R cm (cmd_name cmd) = (cm1, i)" by fastforce
  have "acl_inv R cm1" using acl_get_command_id_spec(1) [OF assms register.IH c] .
  then show ?case using acl_inv_cong register_ids [OF c] by metis
qed

section \<open>Registration and lookup\<close>

definition cm_wf :: "command_manager \<Rightarrow> bool" where
  "cm_wf cm \<longleftrightarrow> dict_wf (map to_lower) (commands cm) \<and>
     (\<forall>k e. dict_map (map to_lower) (commands cm) k = Some e \<longrightarrow> snd e \<noteq> None)"

definition cm_map :: "command_manager \<Rightarrow> string \<rightharpoonup> redis_command" where
  "cm_map cm n = Option.bind (dict_map (map to_lower) (commands cm) n) snd"

lemma command_manager_lookup_spec:
  "dict_laws (map to_lower) Dc \<Longrightarrow> cm_wf cm \<Longrightarrow> command_manager_lookup Dc cm n = cm_map cm (map to_lower n)"
  by (simp add: command_manager_lookup_def cm_wf_def cm_map_def dict_laws_fetch)

lemma register_new:
  assumes Dc: "dict_laws (map to_lower) Dc" and wf: "cm_wf cm" and n: "NUL \<notin> set (cmd_name c)"
    and new: "dict_map (map to_lower) (commands cm) (map to_lower (cmd_name c)) = None"
    and i: "acl_get_command_id L R cm (cmd_name c) = (cm1, i)" "commands cm1 = commands cm"
  shows "\<exists>cm'. command_manager_register_command L R Dc cm c = (cm', True) \<and> cm_wf cm' \<and>
    dict_map (map to_lower) (commands cm') =
      (dict_map (map to_lower) (commands cm))(map to_lower (cmd_name c) \<mapsto> (cmd_name c, Some (c\<lparr>cmd_id := i\<rparr>))) \<and>
    commandId cm' = commandId cm1 \<and> nextid cm' = nextid cm1"
proof -
  obtain d where "dict_add Dc (commands cm) (cmd_name c) (c\<lparr>cmd_id := i\<rparr>) = (d, True)" "dict_wf (map to_lower) d"
    "dict_map (map to_lower) d = (dict_map (map to_lower) (commands cm))(map to_lower (cmd_name c) \<mapsto> (cmd_name c, Some (c\<lparr>cmd_id := i\<rparr>)))"
    using dict_laws_add_new [OF Dc _ new] wf unfolding cm_wf_def by blast
  then show ?thesis using i n wf by (auto simp: command_manager_register_command_def cm_wf_def)
qed

lemma cm_map_None: "cm_wf cm \<Longrightarrow> cm_map cm k = None \<longleftrightarrow> dict_map (map to_lower) (commands cm) k = None"
  by (cases "dict_map (map to_lower) (commands cm) k") (auto simp: cm_map_def cm_wf_def)

text \<open>A command with a new name is found under every spelling of it, and nothing else changes.\<close>

lemma register_new_map:
  assumes "sds_laws L" "dict_laws (map to_lower) Dc" "cm_wf cm" "NUL \<notin> set (cmd_name c)"
    "cm_map cm (map to_lower (cmd_name c)) = None"
  shows "\<exists>cm' i. command_manager_register_command L R Dc cm c = (cm', True) \<and> cm_wf cm' \<and>
    cm_map cm' = (cm_map cm)(map to_lower (cmd_name c) \<mapsto> c\<lparr>cmd_id := i\<rparr>)"
proof -
  obtain cm1 i where i: "acl_get_command_id L R cm (cmd_name c) = (cm1, i)" by fastforce
  have "commands cm1 = commands cm"
    using i by (auto simp: acl_get_command_id_def Let_def split: option.splits if_splits)
  moreover have "dict_map (map to_lower) (commands cm) (map to_lower (cmd_name c)) = None"
    using cm_map_None [OF assms(3)] assms(5) by simp
  ultimately obtain cm' where "command_manager_register_command L R Dc cm c = (cm', True)" "cm_wf cm'"
    "dict_map (map to_lower) (commands cm') =
      (dict_map (map to_lower) (commands cm))(map to_lower (cmd_name c) \<mapsto> (cmd_name c, Some (c\<lparr>cmd_id := i\<rparr>)))"
    using register_new [OF assms(2,3,4) _ i] by blast
  then show ?thesis by (intro exI [of _ cm'] exI [of _ i]) (auto simp: cm_map_def fun_eq_iff)
qed

text \<open>The name is fresh: the id is the counter, and the counter goes up by one below the last bit.\<close>

lemma acl_get_command_id_new:
  assumes "rax_laws R" "sds_laws L" "raxFind R (commandId cm) (map to_lower (c_string n)) = None"
    "nextid cm < 1022"
  shows "acl_get_command_id L R cm n = (cm\<lparr>commandId := raxInsert R (commandId cm) (map to_lower (c_string n)) (nextid cm),
    nextid := nextid cm + 1\<rparr>, nextid cm)"
  using assms by (simp add: acl_get_command_id_def Let_def USER_COMMAND_BITS_COUNT_def)

text \<open>The table \<open>t\<close> after the commands \<open>cs\<close> were registered under the ids from \<open>n\<close> on.\<close>

definition with_commands :: "redis_command list \<Rightarrow> nat \<Rightarrow> (string \<Rightarrow> (string \<times> redis_command option) option) \<Rightarrow>
    string \<Rightarrow> (string \<times> redis_command option) option" where
  "with_commands cs n t k =
     (case map_of (zip (map (map to_lower \<circ> cmd_name) cs) (zip cs [n ..< n + length cs])) k of
        None \<Rightarrow> t k
      | Some (c, i) \<Rightarrow> Some (cmd_name c, Some (c\<lparr>cmd_id := i\<rparr>)))"

lemma with_commands_Cons:
  assumes "map to_lower (cmd_name c) \<notin> (map to_lower \<circ> cmd_name) ` set cs"
  shows "with_commands (c # cs) n t = with_commands cs (n + 1) (t(map to_lower (cmd_name c) \<mapsto> (cmd_name c, Some (c\<lparr>cmd_id := n\<rparr>))))"
proof
  fix k
  define U where "U = [n + 1 ..< n + 1 + length cs]"
  have up: "[n ..< n + length (c # cs)] = n # U" by (simp add: U_def upt_rec)
  have "map_of (zip (map (map to_lower \<circ> cmd_name) cs) (zip cs U)) (map to_lower (cmd_name c)) = None"
    using assms by (auto simp: map_of_eq_None_iff dest!: set_zip_leftD)
  then show "with_commands (c # cs) n t k =
      with_commands cs (n + 1) (t(map to_lower (cmd_name c) \<mapsto> (cmd_name c, Some (c\<lparr>cmd_id := n\<rparr>)))) k"
    unfolding with_commands_def up U_def [symmetric] by (auto split: option.splits)
qed

lemma command_manager_init_spec:
  assumes R: "rax_laws R" and L: "sds_laws L" and Dc: "dict_laws (map to_lower) Dc"
  shows "list_all2 (\<lambda>c c'. populate_command_table_parse_flags L c (sflags c) = (c', True)) cs cs' \<Longrightarrow>
    list_all (\<lambda>c. NUL \<notin> set (cmd_name c)) cs' \<Longrightarrow> distinct (map (map to_lower \<circ> cmd_name) cs') \<Longrightarrow>
    \<forall>c\<in>set cs'. dict_map (map to_lower) (commands cm) (map to_lower (cmd_name c)) = None \<and>
      raxFind R (commandId cm) (map to_lower (cmd_name c)) = None \<Longrightarrow>
    cm_wf cm \<Longrightarrow> nextid cm + length cs' < 1022 \<Longrightarrow>
    \<exists>cm'. command_manager_init L R Dc cs cm = Inr cm' \<and> cm_wf cm' \<and> nextid cm' = nextid cm + length cs' \<and>
      dict_map (map to_lower) (commands cm') = with_commands cs' (nextid cm) (dict_map (map to_lower) (commands cm))"
proof (induction cs arbitrary: cs' cm)
  case Nil
  then show ?case by (auto simp: with_commands_def fun_eq_iff)
next
  case (Cons c cs)
  then obtain c' ds where cs': "cs' = c' # ds"
    and c': "populate_command_table_parse_flags L c (sflags c) = (c', True)"
    and rest: "list_all2 (\<lambda>c c'. populate_command_table_parse_flags L c (sflags c) = (c', True)) cs ds"
    by (auto simp: list_all2_Cons1)
  have n: "NUL \<notin> set (cmd_name c')" using Cons.prems cs' by simp
  have free: "raxFind R (commandId cm) (map to_lower (c_string (cmd_name c'))) = None" and lt: "nextid cm < 1022"
    using Cons.prems cs' n by auto
  note i = acl_get_command_id_new [OF R L free lt]
  have none: "dict_map (map to_lower) (commands cm) (map to_lower (cmd_name c')) = None" using Cons.prems cs' by simp
  obtain cm1 where cm1: "command_manager_register_command L R Dc cm c' = (cm1, True)" "cm_wf cm1"
    "dict_map (map to_lower) (commands cm1) =
       (dict_map (map to_lower) (commands cm))(map to_lower (cmd_name c') \<mapsto> (cmd_name c', Some (c'\<lparr>cmd_id := nextid cm\<rparr>)))"
    "commandId cm1 = raxInsert R (commandId cm) (map to_lower (cmd_name c')) (nextid cm)" "nextid cm1 = nextid cm + 1"
    using register_new [OF Dc _ n none i] Cons.prems n by auto
  have fresh: "\<forall>c\<in>set ds. dict_map (map to_lower) (commands cm1) (map to_lower (cmd_name c)) = None \<and>
      raxFind R (commandId cm1) (map to_lower (cmd_name c)) = None"
    using Cons.prems cs' R by (auto simp: cm1 rax_laws_def image_iff)
  obtain cm' where cm': "command_manager_init L R Dc cs cm1 = Inr cm'" "cm_wf cm'" "nextid cm' = nextid cm1 + length ds"
      "dict_map (map to_lower) (commands cm') = with_commands ds (nextid cm1) (dict_map (map to_lower) (commands cm1))"
  proof -
    have "list_all (\<lambda>c. NUL \<notin> set (cmd_name c)) ds" "distinct (map (map to_lower \<circ> cmd_name) ds)" "nextid cm1 + length ds < 1022"
      using Cons.prems cs' cm1(5) by (simp_all add: o_def)
    from Cons.IH [OF rest this(1,2) fresh cm1(2) this(3)] show ?thesis using that by blast
  qed
  have "map to_lower (cmd_name c') \<notin> (map to_lower \<circ> cmd_name) ` set ds" using Cons.prems(3) cs' by auto
  from with_commands_Cons [OF this] cm'(4) cm1(3,5)
  have "dict_map (map to_lower) (commands cm') = with_commands cs' (nextid cm) (dict_map (map to_lower) (commands cm))" by (simp add: cs')
  then show ?case using cm' c' cm1 cs' by auto
qed

text \<open>The built-in commands as they end up in the manager.\<close>

definition registered_builtins :: "redis_command list" where
  "registered_builtins =
     [(builtin ''quit'' Quit_command 0 ''admin'')\<lparr>cmd_flags := CMD_ADMIN OR CMD_CATEGORY_SLOW, cmd_id := 0\<rparr>,
      (builtin ''module'' Module_command (-2) ''admin no-script'')
        \<lparr>cmd_flags := CMD_ADMIN OR CMD_NOSCRIPT OR CMD_CATEGORY_SLOW, cmd_id := 1\<rparr>,
      (builtin ''ping'' Ping_command (-2) ''admin'')\<lparr>cmd_flags := CMD_ADMIN OR CMD_CATEGORY_SLOW, cmd_id := 2\<rparr>,
      (builtin ''info'' Info_command (-2) ''admin'')\<lparr>cmd_flags := CMD_ADMIN OR CMD_CATEGORY_SLOW, cmd_id := 3\<rparr>,
      (builtin ''expire'' Expire_command 3 ''write fast'')
        \<lparr>cmd_flags := CMD_WRITE OR CMD_CATEGORY_WRITE OR CMD_FAST OR CMD_CATEGORY_SLOW, cmd_id := 4\<rparr>]"

lemma sds_laws_split:
  "sds_laws L \<Longrightarrow> ws \<noteq> [] \<Longrightarrow> list_all plain_word ws \<Longrightarrow> sds_split_args L (unwords ws) = Some ws"
  by (simp add: sds_laws_def)

lemma split_flag_strings:
  assumes "sds_laws L"
  shows "sds_split_args L ''admin'' = Some [''admin'']"
    "sds_split_args L ''admin no-script'' = Some [''admin'', ''no-script'']"
    "sds_split_args L ''write fast'' = Some [''write'', ''fast'']"
proof -
  have "list_all plain_word [''admin'']" "list_all plain_word [''admin'', ''no-script'']"
    "list_all plain_word [''write'', ''fast'']" by code_simp+
  moreover have "unwords [''admin''] = ''admin''" "unwords [''admin'', ''no-script''] = ''admin no-script''"
    "unwords [''write'', ''fast''] = ''write fast''" by simp_all
  ultimately show "sds_split_args L ''admin'' = Some [''admin'']"
    "sds_split_args L ''admin no-script'' = Some [''admin'', ''no-script'']"
    "sds_split_args L ''write fast'' = Some [''write'', ''fast'']"
    using sds_laws_split [OF assms, of "[''admin'']"] sds_laws_split [OF assms, of "[''admin'', ''no-script'']"]
      sds_laws_split [OF assms, of "[''write'', ''fast'']"] by (simp_all only:) simp_all
qed

lemma parse_table_words:
  "parse_flag_words [''admin''] (builtin n p a f) = ((builtin n p a f)\<lparr>cmd_flags := CMD_ADMIN\<rparr>, True)"
  "parse_flag_words [''admin'', ''no-script''] (builtin n p a f) =
     ((builtin n p a f)\<lparr>cmd_flags := CMD_ADMIN OR CMD_NOSCRIPT\<rparr>, True)"
  "parse_flag_words [''write'', ''fast''] (builtin n p a f) =
     ((builtin n p a f)\<lparr>cmd_flags := CMD_WRITE OR CMD_CATEGORY_WRITE OR CMD_FAST\<rparr>, True)"
proof -
  have "(ucast (command_data_type_flag_by_name ''admin'') :: 32 word) = 16"
    "(ucast (command_data_type_flag_by_name ''no-script'') :: 32 word) = 64"
    "(ucast (command_data_type_flag_by_name ''write'') :: 32 word) = 0x200001"
    "(ucast (command_data_type_flag_by_name ''fast'') :: 32 word) = 0x4000"
    by code_simp+
  then show "parse_flag_words [''admin''] (builtin n p a f) = ((builtin n p a f)\<lparr>cmd_flags := CMD_ADMIN\<rparr>, True)"
    "parse_flag_words [''admin'', ''no-script''] (builtin n p a f) =
       ((builtin n p a f)\<lparr>cmd_flags := CMD_ADMIN OR CMD_NOSCRIPT\<rparr>, True)"
    "parse_flag_words [''write'', ''fast''] (builtin n p a f) =
       ((builtin n p a f)\<lparr>cmd_flags := CMD_WRITE OR CMD_CATEGORY_WRITE OR CMD_FAST\<rparr>, True)"
    by (simp_all add: builtin_def flag_values)
qed

lemma populate_builtin:
  assumes "sds_laws L"
  shows "populate_command_table_parse_flags L (builtin n p a f) ''admin'' =
      ((builtin n p a f)\<lparr>cmd_flags := CMD_ADMIN OR CMD_CATEGORY_SLOW\<rparr>, True)"
    "populate_command_table_parse_flags L (builtin n p a f) ''admin no-script'' =
      ((builtin n p a f)\<lparr>cmd_flags := CMD_ADMIN OR CMD_NOSCRIPT OR CMD_CATEGORY_SLOW\<rparr>, True)"
    "populate_command_table_parse_flags L (builtin n p a f) ''write fast'' =
      ((builtin n p a f)\<lparr>cmd_flags := CMD_WRITE OR CMD_CATEGORY_WRITE OR CMD_FAST OR CMD_CATEGORY_SLOW\<rparr>, True)"
  unfolding populate_command_table_parse_flags_def
  by (simp_all add: split_flag_strings [OF assms] parse_table_words flag_values del: parse_flag_words.simps)

lemma builtin_simps [simp]: "cmd_name (builtin n p a f) = n" "sflags (builtin n p a f) = f"
  by (simp_all add: builtin_def)

lemma builtin_id: "(builtin n p a f)\<lparr>cmd_flags := x, cmd_id := 0\<rparr> = (builtin n p a f)\<lparr>cmd_flags := x\<rparr>"
  by (simp add: builtin_def)

lemma command_manager_new_spec:
  assumes "rax_laws R" "sds_laws L" "dict_laws (map to_lower) Dc"
  shows "\<exists>cm. command_manager_new L R Dc = Inr cm \<and> cm_wf cm \<and>
    cm_map cm = map_of (map (\<lambda>c. (cmd_name c, c)) registered_builtins)"
proof -
  let ?cm0 = "\<lparr>commands = dict_new Dc, commandId = raxNew R, nextid = 0\<rparr> :: command_manager"
  have c0: "commands ?cm0 = []" "\<And>k. raxFind R (commandId ?cm0) k = None" "cm_wf ?cm0"
    using assms by (simp_all add: dict_laws_new rax_laws_def cm_wf_def)
  define cs' where "cs' = map (\<lambda>c. c\<lparr>cmd_id := 0\<rparr>) registered_builtins"
  have names: "map (map to_lower \<circ> cmd_name) cs' = [''quit'', ''module'', ''ping'', ''info'', ''expire'']"
    "length cs' = 5" "list_all (\<lambda>c. NUL \<notin> set (cmd_name c)) cs'" unfolding cs'_def by code_simp+
  have pop: "list_all2 (\<lambda>c c'. populate_command_table_parse_flags L c (sflags c) = (c', True)) redis_command_table cs'"
    by (simp add: cs'_def redis_command_table_def registered_builtins_def populate_builtin [OF assms(2)] builtin_id)
  have dist: "distinct (map (map to_lower \<circ> cmd_name) cs')" unfolding names(1) by simp
  have free: "\<forall>c\<in>set cs'. dict_map (map to_lower) (commands ?cm0) (map to_lower (cmd_name c)) = None \<and>
      raxFind R (commandId ?cm0) (map to_lower (cmd_name c)) = None" by (simp only: c0) simp
  have small: "nextid ?cm0 + length cs' < 1022" using names(2) by simp
  obtain cm where cm: "command_manager_init L R Dc redis_command_table ?cm0 = Inr cm" "cm_wf cm"
    "dict_map (map to_lower) (commands cm) = with_commands cs' (nextid ?cm0) (dict_map (map to_lower) (commands ?cm0))"
    using command_manager_init_spec [OF assms pop names(3) dist free c0(3) small] by blast
  have m: "dict_map (map to_lower) (commands cm) k =
        (case map_of (zip [''quit'', ''module'', ''ping'', ''info'', ''expire''] (zip cs' [0 ..< 5])) k of
           None \<Rightarrow> None
         | Some (c, i) \<Rightarrow> Some (cmd_name c, Some (c\<lparr>cmd_id := i\<rparr>)))" for k
    using fun_cong [OF cm(3), of k] unfolding with_commands_def names(1,2) c0(1) dict_map_Nil by simp
  have "[0 ..< 5] = [0 :: nat, 1, 2, 3, 4]" by code_simp
  then have "cm_map cm k = map_of (map (\<lambda>c. (cmd_name c, c)) registered_builtins) k" for k
    by (simp add: cm_map_def m cs'_def registered_builtins_def builtin_def)
  then show ?thesis using cm by (auto simp: command_manager_new_def)
qed

section \<open>Properties\<close>

text \<open>
  C18. The server's command table is built without a panic and contains exactly the five built-in
  commands, found under any spelling of their names, with ids in the order of the table. The
  flags of \<open>expire\<close>, declared "write fast", carry the category slow and not the category fast:
  \<open>catflag\<close> is an \<open>int\<close> and loses the category bits above 31.
\<close>

theorem builtin_commands_found:
  assumes "rax_laws R" "sds_laws L" "dict_laws (map to_lower) Dc"
  shows "\<exists>cm. command_manager_new L R Dc = Inr cm \<and>
    (\<forall>n. command_manager_lookup Dc cm n =
       map_of (map (\<lambda>c. (cmd_name c, c)) registered_builtins) (map to_lower n)) \<and>
    (\<forall>c. command_manager_lookup Dc cm ''expire'' = Some c \<longrightarrow>
       cmd_flags c AND CMD_FAST \<noteq> 0 \<and> cmd_flags c AND CMD_CATEGORY_FAST = 0 \<and> cmd_flags c AND CMD_CATEGORY_SLOW \<noteq> 0)"
proof -
  obtain cm where cm: "command_manager_new L R Dc = Inr cm" "cm_wf cm"
    "cm_map cm = map_of (map (\<lambda>c. (cmd_name c, c)) registered_builtins)"
    using command_manager_new_spec [OF assms] by blast
  have lk: "command_manager_lookup Dc cm n = map_of (map (\<lambda>c. (cmd_name c, c)) registered_builtins) (map to_lower n)" for n
    by (simp add: command_manager_lookup_spec [OF assms(3) cm(2)] cm(3))
  have "map to_lower ''expire'' = ''expire''" by code_simp
  then have "command_manager_lookup Dc cm ''expire'' = Some (registered_builtins ! 4)"
    by (simp add: lk registered_builtins_def builtin_def)
  then show ?thesis using cm(1) lk by (auto simp: registered_builtins_def flag_values)
qed

text \<open>
  C17. In every state the command manager reaches, a command name (up to case) gets an id that is
  never the reserved last bit 1023; asking again for a name with the same spelling up to case
  returns the same id and changes nothing; another name gets another id.
\<close>

theorem acl_ids_unique_stable:
  assumes "rax_laws R" "sds_laws L" "cm_reachable L R Dc cm" "acl_get_command_id L R cm n = (cm1, i)"
  shows "i \<noteq> 1023 \<and>
    (\<forall>n'. map to_lower (c_string n') = map to_lower (c_string n) \<longrightarrow> acl_get_command_id L R cm1 n' = (cm1, i)) \<and>
    (\<forall>n'. map to_lower (c_string n') \<noteq> map to_lower (c_string n) \<longrightarrow> snd (acl_get_command_id L R cm1 n') \<noteq> i)"
proof (intro conjI allI impI)
  have inv: "acl_inv R cm" by (rule cm_reachable_inv [OF assms(1-3)])
  note s = acl_get_command_id_spec [OF assms(1,2) inv assms(4)]
  show "i \<noteq> 1023" using s(1,2) by (auto simp: acl_inv_def USER_COMMAND_BITS_COUNT_def)
  fix n'
  show "map to_lower (c_string n') = map to_lower (c_string n) \<Longrightarrow> acl_get_command_id L R cm1 n' = (cm1, i)"
    using s(2) assms(2) by (simp add: acl_get_command_id_def)
  assume ne: "map to_lower (c_string n') \<noteq> map to_lower (c_string n)"
  obtain cm2 i' where c: "acl_get_command_id L R cm1 n' = (cm2, i')" by fastforce
  note s' = acl_get_command_id_spec [OF assms(1,2) s(1) c]
  from s'(1,2) s'(3) [OF s(2)] ne c show "snd (acl_get_command_id L R cm1 n') \<noteq> i"
    unfolding acl_inv_def by auto
qed

lemma flag_search_distinct:
  "map fst items = map (map to_lower \<circ> c_string) (map fst items) \<Longrightarrow> distinct (map fst items) \<Longrightarrow>
   list_all (\<lambda>(n, f). f \<noteq> 0) items \<Longrightarrow> (n, f) \<in> set items \<Longrightarrow> flag_search items n = f"
proof (induction items n rule: flag_search.induct)
  case (2 m g items n)
  show ?case
  proof (cases "(n, f) = (m, g)")
    case True
    then show ?thesis using 2 by (simp add: strcase_eq_def)
  next
    case False
    then have "(n, f) \<in> set items" "n \<noteq> m" using 2(3,5) by (auto simp: image_iff)
    moreover have "map to_lower (c_string n) = n"
      using 2(2) calculation(1) by (auto simp: map_eq_conv dest!: bspec)
    moreover have "map to_lower (c_string m) = m" using 2(2) by simp
    ultimately show ?thesis using 2 by (simp add: strcase_eq_def)
  qed
qed simp

text \<open>
  A flag word naming one of the categories above bit 31 (\<open>@admin\<close>, \<open>@fast\<close>, \<open>@slow\<close> and the
  ones after them) is rejected as unknown, although it is in the table; \<open>@pubsub\<close>, the category of
  bit 31, sets all higher bits.
\<close>

lemma high_categories_rejected:
  "\<forall>(n, f) \<in> set acl_command_categories.
     parse_flag_words [n] c =
       (if f AND 0xFFFFFFFF = 0 then (c, False)
        else (c\<lparr>cmd_flags := cmd_flags c OR
               (if f AND 0x80000000 = 0 then f AND 0xFFFFFFFF else (f AND 0xFFFFFFFF) OR 0xFFFFFFFF00000000)\<rparr>, True))"
proof -
  have found: "command_data_type_flag_by_name n = f" if "(n, f) \<in> set acl_command_categories" for n f
  proof -
    have "map fst acl_command_categories = map (map to_lower \<circ> c_string) (map fst acl_command_categories)"
      by code_simp
    moreover have "distinct (map fst acl_command_categories)" by code_simp
    moreover have "list_all (\<lambda>(n, f). f \<noteq> 0) acl_command_categories"
      by (simp add: acl_command_categories_def flag_values)
    ultimately show ?thesis using that flag_search_distinct by (simp add: command_data_type_flag_by_name_def)
  qed
  have "list_all (\<lambda>f. ((ucast f :: 32 word) = 0) = (f AND 0xFFFFFFFF = 0) \<and>
      (scast (ucast f :: 32 word) :: 64 word) =
        (if f AND 0x80000000 = 0 then f AND 0xFFFFFFFF else (f AND 0xFFFFFFFF) OR 0xFFFFFFFF00000000)) (map snd acl_command_categories)"
    unfolding acl_command_categories_def list.map snd_conv flag_values by simp
  with found show ?thesis by (fastforce simp: list_all_iff Let_def)
qed

section \<open>Witnesses\<close>

definition Dc0 :: "redis_command dict_ops" where
  "Dc0 = dict_ref (map to_lower)"

lemma Dc0_laws: "dict_laws (map to_lower) Dc0"
  unfolding Dc0_def by (rule dict_ref_laws)

theorem builtin_commands_found_witness:
  "\<exists>cm. command_manager_new latte_c_ref rax_ref Dc0 = Inr cm \<and>
     map_option cmd_proc (command_manager_lookup Dc0 cm ''PiNg'') = Some Ping_command \<and>
     command_manager_lookup Dc0 cm ''select'' = None"
proof -
  have "map to_lower ''PiNg'' = ''ping''" "map to_lower ''select'' = ''select''" by code_simp+
  then show ?thesis using builtin_commands_found [OF rax_ref_laws sds_laws_ref Dc0_laws]
    by (auto simp: registered_builtins_def builtin_def)
qed

theorem acl_ids_unique_stable_witness:
  "acl_get_command_id latte_c_ref rax_ref
     (fst (acl_get_command_id latte_c_ref rax_ref \<lparr>commands = dict_new Dc0, commandId = raxNew rax_ref, nextid = 0\<rparr> ''get''))
     ''GET'' =
   acl_get_command_id latte_c_ref rax_ref \<lparr>commands = dict_new Dc0, commandId = raxNew rax_ref, nextid = 0\<rparr> ''get''"
proof -
  let ?cm = "\<lparr>commands = dict_new Dc0, commandId = raxNew rax_ref, nextid = 0\<rparr> :: command_manager"
  obtain cm1 i where c: "acl_get_command_id latte_c_ref rax_ref ?cm ''get'' = (cm1, i)" by fastforce
  have "map to_lower (c_string ''GET'') = map to_lower (c_string ''get'')" by code_simp
  with acl_ids_unique_stable [OF rax_ref_laws sds_laws_ref cm_reachable.empty c] c show ?thesis by simp
qed

end
