(* ===== verification/Client.thy ===== *)
theory Client
  imports Command_Table
begin

text \<open>
  The client of \<open>src/redis/client.h\<close> and \<open>src/redis/client.c\<close> (its state, its class, its creation,
  its argument vector and its reset) and the replies of \<open>src/redis/client_reply.c\<close> with the
  shared objects of \<open>src/shared/shared.c\<close>.
\<close>

section \<open>State\<close>

definition CLIENT_SLAVE :: "32 word" where "CLIENT_SLAVE = 0x1"
definition CLIENT_MASTER :: "32 word" where "CLIENT_MASTER = 0x2"
definition CLIENT_MONITOR :: "32 word" where "CLIENT_MONITOR = 0x4"
definition CLIENT_LUA :: "32 word" where "CLIENT_LUA = 0x100"
definition CLIENT_PUBSUB :: "32 word" where "CLIENT_PUBSUB = 0x40000"

definition PROTO_REQ_INLINE :: int where "PROTO_REQ_INLINE = 1"
definition PROTO_REQ_MULTIBULK :: int where "PROTO_REQ_MULTIBULK = 2"
definition PROTO_INLINE_MAX_SIZE :: nat where "PROTO_INLINE_MAX_SIZE = 1024 * 64"

text \<open>
  \<open>argv\<close> is NULL, an array that \<open>zmalloc\<close> has handed out, with the length it was allocated with, or what uninitialised memory
  happens to hold. A cell no object has been stored in yet is \<open>None\<close>.
\<close>

datatype argv_ptr = Argv_null | Argv_garbage | Argv "nat option list"

record redis_client =
  client :: latte_client
  flag :: "32 word"
  req_type :: int
  read_reploff :: int
  argc :: nat
  argv :: argv_ptr
  cmd :: "redis_command option"
  lastcmd :: "redis_command option"
  argv_len_sum :: nat
  bulk_len :: int
  multi_bulk_len :: int
  reply_bytes :: "64 word"
  repl_ack_time :: int
  dbid :: nat
  current_decode_time :: int
  current_encode_time :: int
  current_call_time :: int

text \<open>Reading and writing a cell of the argument vector.\<close>

definition argv_get :: "redis_client \<Rightarrow> nat \<Rightarrow> nat res" where
  "argv_get rc i =
     (case argv rc of
        Argv_null \<Rightarrow> Inl (Null_deref ''argv'')
      | Argv_garbage \<Rightarrow> Inl (Bad_pointer ''argv'')
      | Argv arr \<Rightarrow>
          if length arr \<le> i then Inl (Out_of_bounds ''argv'')
          else (case arr ! i of None \<Rightarrow> Inl (Null_deref ''argv cell'') | Some a \<Rightarrow> Inr a))"

definition argv_push :: "redis_client \<Rightarrow> nat \<Rightarrow> redis_client res" where
  "argv_push rc a =
     (case argv rc of
        Argv_null \<Rightarrow> Inl (Null_deref ''argv'')
      | Argv_garbage \<Rightarrow> Inl (Bad_pointer ''argv'')
      | Argv arr \<Rightarrow>
          if length arr \<le> argc rc then Inl (Out_of_bounds ''argv'')
          else Inr (rc\<lparr>argv := Argv (arr[argc rc := Some a]), argc := argc rc + 1\<rparr>))"

text \<open>\<open>if (rc->argv) zfree(rc->argv); rc->argv = zmalloc(...)\<close>: an old array is freed, a NULL is not.\<close>

definition argv_alloc :: "redis_client \<Rightarrow> nat \<Rightarrow> redis_client res" where
  "argv_alloc rc n =
     (case argv rc of
        Argv_garbage \<Rightarrow> Inl (Bad_pointer ''zfree(rc->argv)'')
      | _ \<Rightarrow> Inr (rc\<lparr>argv := Argv (replicate n None)\<rparr>))"

section \<open>Class, creation and reset\<close>

datatype client_type = CLIENT_TYPE_NORMAL | CLIENT_TYPE_SLAVE | CLIENT_TYPE_PUBSUB | CLIENT_TYPE_MASTER

definition get_client_type :: "redis_client \<Rightarrow> client_type" where
  "get_client_type c =
     (if flag c AND CLIENT_MASTER \<noteq> 0 then CLIENT_TYPE_MASTER
      else if flag c AND CLIENT_SLAVE \<noteq> 0 \<and> flag c AND CLIENT_MONITOR = 0 then CLIENT_TYPE_SLAVE
      else if flag c AND CLIENT_PUBSUB \<noteq> 0 then CLIENT_TYPE_PUBSUB
      else CLIENT_TYPE_NORMAL)"

text \<open>
  The memory of a new client comes from \<open>zmalloc\<close> and is not cleared: every field the function
  does not assign keeps what the memory \<open>mem\<close> held.
\<close>

definition create_redis_client :: "redis_client \<Rightarrow> redis_client" where
  "create_redis_client mem =
     mem\<lparr>client := (client mem)\<lparr>exec_cb := Some Cb_redis_client_handle, start_cb := None,
           end_cb := Some Cb_redis_client_command_end, start_time := 0, read_time := 0, exec_time := 0,
           exec_end_time := 0, write_time := 0, end_time := 0, cl_flags := 0\<rparr>,
         dbid := 0, multi_bulk_len := 0, bulk_len := -1,
         current_decode_time := 0, current_encode_time := 0, current_call_time := 0\<rparr>"

fun decr_args :: "latte_c \<Rightarrow> redis_client \<Rightarrow> nat \<Rightarrow> nat \<Rightarrow> obj_heap \<Rightarrow> obj_heap res" where
  "decr_args L rc j 0 h = Inr h"
| "decr_args L rc j (Suc n) h =
     res_bind (argv_get rc j) (\<lambda>a.
     res_bind (latte_object_decr_ref_count L h a) (\<lambda>h. decr_args L rc (Suc j) n h))"

definition free_client_argv :: "latte_c \<Rightarrow> redis_client \<Rightarrow> obj_heap \<Rightarrow> (redis_client \<times> obj_heap) res" where
  "free_client_argv L rc h =
     res_bind (decr_args L rc 0 (argc rc) h) (\<lambda>h.
     Inr (rc\<lparr>argc := 0, cmd := None, argv_len_sum := 0\<rparr>, h))"

definition reset_redis_client :: "latte_c \<Rightarrow> redis_client \<Rightarrow> obj_heap \<Rightarrow> (redis_client \<times> obj_heap) res" where
  "reset_redis_client L rc h =
     res_bind (free_client_argv L rc h) (\<lambda>(rc, h).
     Inr (rc\<lparr>req_type := 0, multi_bulk_len := 0, bulk_len := -1\<rparr>, h))"

definition command_processed :: "latte_c \<Rightarrow> redis_client \<Rightarrow> obj_heap \<Rightarrow> (redis_client \<times> obj_heap) res" where
  "command_processed L rc h = reset_redis_client L rc h"

text \<open>\<open>set_protocol_error\<close> writes to the log and does nothing to the client.\<close>

definition set_protocol_error :: "string \<Rightarrow> redis_client \<Rightarrow> redis_client" where
  "set_protocol_error errstr rc = rc"

definition auth_required :: "redis_client \<Rightarrow> bool" where
  "auth_required c = False"

text \<open>
  Closing: \<open>clients_to_close\<close> is the server's list of clients to free later, \<open>self\<close> the client's
  own address in it.
\<close>

definition free_redis_client :: "latte_c \<Rightarrow> nat list \<Rightarrow> nat \<Rightarrow> redis_client \<Rightarrow> nat list res" where
  "free_redis_client L clients_to_close self rc =
     (if cl_flags (client rc) AND CLIENT_CLOSE_ASAP L \<noteq> 0 then
        res_bind (latte_assert (self \<in> set clients_to_close) ''ln != NULL'') (\<lambda>_.
        Inr (remove1 self clients_to_close))
      else Inr clients_to_close)"

definition free_redis_client_async :: "latte_c \<Rightarrow> nat list \<Rightarrow> nat \<Rightarrow> redis_client \<Rightarrow> nat list \<times> redis_client" where
  "free_redis_client_async L clients_to_close self rc =
     (if cl_flags (client rc) AND CLIENT_CLOSE_ASAP L \<noteq> 0 \<or> flag rc AND CLIENT_LUA \<noteq> 0 then (clients_to_close, rc)
      else (clients_to_close @ [self],
            rc\<lparr>client := (client rc)\<lparr>cl_flags := cl_flags (client rc) OR CLIENT_CLOSE_ASAP L\<rparr>\<rparr>))"

section \<open>Shared objects\<close>

definition OBJ_SHARED_BULKHDR_LEN :: nat where "OBJ_SHARED_BULKHDR_LEN = 32"

record shared_objects =
  sh_crlf :: latte_object
  sh_ok :: latte_object
  sh_pong :: latte_object
  sh_wrongtypeerr :: latte_object
  sh_mbulkhdr :: "latte_object list"
  sh_bulkhdr :: "latte_object list"

definition init_shared_objects :: "latte_c \<Rightarrow> shared_objects" where
  "init_shared_objects L =
     \<lparr>sh_crlf = latte_object_new L OBJ_STRING crlf,
      sh_ok = latte_object_new L OBJ_STRING (''+OK'' @ crlf),
      sh_pong = latte_object_new L OBJ_STRING (''+PONG'' @ crlf),
      sh_wrongtypeerr = latte_object_new L OBJ_STRING
        (''-WRONGTYPE Operation against a key holding the wrong kind of value'' @ crlf),
      sh_mbulkhdr = map (\<lambda>j. latte_object_new L OBJ_STRING (sds_cat_vprintf L (''*'' @ dec (int j) @ crlf)))
        [0 ..< OBJ_SHARED_BULKHDR_LEN],
      sh_bulkhdr = map (\<lambda>j. latte_object_new L OBJ_STRING (sds_cat_vprintf L (''$'' @ dec (int j) @ crlf)))
        [0 ..< OBJ_SHARED_BULKHDR_LEN]\<rparr>"

section \<open>Replies\<close>

definition prepare_client_to_write :: "redis_client \<Rightarrow> int" where
  "prepare_client_to_write c = 0"

definition reply_proto :: "latte_c \<Rightarrow> redis_client \<Rightarrow> string \<Rightarrow> redis_client" where
  "reply_proto L c s = c\<lparr>client := add_reply_proto L (client c) s\<rparr>"

definition get_client_output_buffer_memory_usage :: "nat \<Rightarrow> redis_client \<Rightarrow> 64 word" where
  "get_client_output_buffer_memory_usage list_item_size c =
     reply_bytes c + of_nat (list_item_size * length (reply (client c)))"

definition check_client_output_buffer_limits :: "redis_client \<Rightarrow> int" where
  "check_client_output_buffer_limits c = 0"

text \<open>
  \<open>SIZE_MAX\<close> is \<open>2 ^ 64 - 1\<close>. The limits check always answers 0, so the branches that close the
  client are written out but never taken.
\<close>

definition close_client_on_output_buffer_limit_reached ::
  "latte_c \<Rightarrow> nat list \<Rightarrow> nat \<Rightarrow> redis_client \<Rightarrow> bool \<Rightarrow> (nat list \<times> redis_client \<times> bool) res" where
  "close_client_on_output_buffer_limit_reached L clients_to_close self c async =
     (if \<not> conn (client c) then Inr (clients_to_close, c, False)
      else res_bind (latte_assert (reply_bytes c < - 1 - 65536) ''c->reply_bytes < SIZE_MAX-(1024*64)'') (\<lambda>_.
        if reply_bytes c = 0 \<or> cl_flags (client c) AND CLIENT_CLOSE_ASAP L \<noteq> 0 then Inr (clients_to_close, c, False)
        else if check_client_output_buffer_limits c \<noteq> 0 then
          (if async then
             let (cs, c) = free_redis_client_async L clients_to_close self c in Inr (cs, c, True)
           else res_bind (free_redis_client L clients_to_close self c) (\<lambda>cs. Inr (cs, c, True)))
        else Inr (clients_to_close, c, False)))"

definition add_reply_error_length :: "latte_c \<Rightarrow> redis_client \<Rightarrow> string \<Rightarrow> redis_client" where
  "add_reply_error_length L c s =
     (let c = (if s = [] \<or> hd s \<noteq> CHR ''-'' then reply_proto L c ''-ERR '' else c);
          c = reply_proto L c s
      in reply_proto L c crlf)"

definition add_reply_error :: "latte_c \<Rightarrow> redis_client \<Rightarrow> string \<Rightarrow> redis_client" where
  "add_reply_error L c err = add_reply_error_length L c (c_string err)"

definition add_reply_error_format :: "latte_c \<Rightarrow> redis_client \<Rightarrow> string \<Rightarrow> redis_client" where
  "add_reply_error_format L c text =
     (let s = sds_cat_vprintf L text;
          s = sds_trim L s crlf;
          s = sds_map_chars L s crlf ''  ''
      in add_reply_error_length L c s)"

definition add_reply :: "latte_c \<Rightarrow> redis_client \<Rightarrow> latte_object \<Rightarrow> redis_client res" where
  "add_reply L c obj =
     (if prepare_client_to_write c \<noteq> 0 then Inr c
      else if sds_encoded_object L obj then
        (case ptr obj of Ptr_bytes s \<Rightarrow> Inr (reply_proto L c s) | _ \<Rightarrow> Inl (Null_deref ''obj->ptr''))
      else if encoding obj = OBJ_ENCODING_INT then
        (case ptr obj of Ptr_long n \<Rightarrow> Inr (reply_proto L c (ll2string L n)) | _ \<Rightarrow> Inl (Null_deref ''obj->ptr''))
      else Inl (Unreachable ''Wrong obj->encoding in addReply()''))"

definition add_reply_long_long_with_prefix ::
  "latte_c \<Rightarrow> shared_objects \<Rightarrow> redis_client \<Rightarrow> int \<Rightarrow> char \<Rightarrow> redis_client res" where
  "add_reply_long_long_with_prefix L sh c ll prefix =
     (if prefix = CHR ''*'' \<and> ll < int OBJ_SHARED_BULKHDR_LEN \<and> 0 \<le> ll then add_reply L c (sh_mbulkhdr sh ! nat ll)
      else if prefix = CHR ''$'' \<and> ll < int OBJ_SHARED_BULKHDR_LEN \<and> 0 \<le> ll then add_reply L c (sh_bulkhdr sh ! nat ll)
      else Inr (reply_proto L c (prefix # ll2string L ll @ crlf)))"

definition add_reply_bulk_len :: "latte_c \<Rightarrow> shared_objects \<Rightarrow> redis_client \<Rightarrow> latte_object \<Rightarrow> redis_client res" where
  "add_reply_bulk_len L sh c obj =
     add_reply_long_long_with_prefix L sh c (int (string_object_len L obj)) CHR ''$''"

definition add_reply_bulk :: "latte_c \<Rightarrow> shared_objects \<Rightarrow> redis_client \<Rightarrow> latte_object \<Rightarrow> redis_client res" where
  "add_reply_bulk L sh c obj =
     res_bind (add_reply_bulk_len L sh c obj) (\<lambda>c.
     res_bind (add_reply L c obj) (\<lambda>c. add_reply L c (sh_crlf sh)))"

definition add_reply_status_length :: "latte_c \<Rightarrow> redis_client \<Rightarrow> string \<Rightarrow> redis_client" where
  "add_reply_status_length L c s = reply_proto L (reply_proto L (reply_proto L c ''+'') s) crlf"

definition add_reply_status_format :: "latte_c \<Rightarrow> redis_client \<Rightarrow> string \<Rightarrow> redis_client" where
  "add_reply_status_format L c text = add_reply_status_length L c (sds_cat_vprintf L text)"

definition add_reply_status :: "latte_c \<Rightarrow> redis_client \<Rightarrow> string \<Rightarrow> redis_client" where
  "add_reply_status L c status = add_reply_status_length L c (c_string status)"

subsection \<open>Deferred lengths\<close>

text \<open>
  A node of the reply list is its position. \<open>used\<close> is the length of a block's bytes, which the
  library keeps at most \<open>size\<close>.
\<close>

definition trim_reply_unused_tail_space :: "latte_c \<Rightarrow> redis_client \<Rightarrow> redis_client" where
  "trim_reply_unused_tail_space L c =
     (if reply (client c) = [] then c
      else case last (reply (client c)) of
        None \<Rightarrow> c
      | Some tail \<Rightarrow>
          if bsize tail div 4 < bsize tail - length (bdata tail) \<and> length (bdata tail) < PROTO_REPLY_CHUNK_BYTES L then
            let old_size = bsize tail;
                tail = tail\<lparr>bsize := zmalloc_usable_size L (length (bdata tail))\<rparr>
            in c\<lparr>client := (client c)\<lparr>reply := butlast (reply (client c)) @ [Some tail]\<rparr>,
                 reply_bytes := reply_bytes c + of_nat (bsize tail) - of_nat old_size\<rparr>
          else c)"

definition add_reply_deferred_len :: "latte_c \<Rightarrow> redis_client \<Rightarrow> redis_client \<times> nat option" where
  "add_reply_deferred_len L c =
     (if prepare_client_to_write c \<noteq> 0 then (c, None)
      else let c = trim_reply_unused_tail_space L c;
               c = c\<lparr>client := (client c)\<lparr>reply := reply (client c) @ [None]\<rparr>\<rparr>
           in (c, Some (length (reply (client c)) - 1)))"

definition set_reply :: "redis_client \<Rightarrow> reply_block option list \<Rightarrow> redis_client" where
  "set_reply c r = c\<lparr>client := (client c)\<lparr>reply := r\<rparr>\<rparr>"

definition del_node :: "nat \<Rightarrow> 'a list \<Rightarrow> 'a list" where
  "del_node i xs = take i xs @ drop (Suc i) xs"

text \<open>The second half of \<open>set_deferred_reply\<close>: into the next block, or into a new one.\<close>

definition set_deferred_next :: "latte_c \<Rightarrow> redis_client \<Rightarrow> nat \<Rightarrow> string \<Rightarrow> redis_client" where
  "set_deferred_next L c ln s =
     (let r = reply (client c);
          new_node =
            (let size = zmalloc_usable_size L (length s)
             in (set_reply c (r[ln := Some \<lparr>bsize = size, bdata = s\<rparr>]))\<lparr>reply_bytes := reply_bytes c + of_nat size\<rparr>)
      in if Suc ln < length r then
           (case r ! Suc ln of
              None \<Rightarrow> new_node
            | Some next \<Rightarrow>
                if length s \<le> bsize next - length (bdata next) \<and> length (bdata next) < PROTO_REPLY_CHUNK_BYTES L * 4
                then set_reply c (del_node ln (r[Suc ln := Some (next\<lparr>bdata := s @ bdata next\<rparr>)]))
                else new_node)
         else new_node)"

definition set_deferred_reply :: "latte_c \<Rightarrow> redis_client \<Rightarrow> nat option \<Rightarrow> string \<Rightarrow> redis_client res" where
  "set_deferred_reply L c node s =
     (case node of
        None \<Rightarrow> Inr c
      | Some ln \<Rightarrow>
          let r = reply (client c) in
          if length r \<le> ln then Inl (Out_of_bounds ''reply node'')
          else res_bind (latte_assert (r ! ln = None) ''!list_node_value(ln)'') (\<lambda>_.
            case (if 0 < ln then r ! (ln - 1) else None) of
              Some prev \<Rightarrow>
                if 0 < bsize prev - length (bdata prev) then
                  let len_to_copy = min (bsize prev - length (bdata prev)) (length s);
                      prev = prev\<lparr>bdata := bdata prev @ take len_to_copy s\<rparr>;
                      r = r[ln - 1 := Some prev]
                  in if length s - len_to_copy = 0 then Inr (set_reply c (del_node ln r))
                     else Inr (set_deferred_next L (set_reply c r) ln (drop len_to_copy s))
                else Inr (set_deferred_next L c ln s)
            | None \<Rightarrow> Inr (set_deferred_next L c ln s)))"

definition set_deferred_aggregate_len ::
  "latte_c \<Rightarrow> redis_client \<Rightarrow> nat option \<Rightarrow> int \<Rightarrow> char \<Rightarrow> redis_client res" where
  "set_deferred_aggregate_len L c node len prefix =
     res_bind (latte_assert (0 \<le> len) ''length >= 0'') (\<lambda>_.
     case node of None \<Rightarrow> Inr c | Some ln \<Rightarrow> set_deferred_reply L c node (prefix # dec len @ crlf))"

definition set_deferred_array_len :: "latte_c \<Rightarrow> redis_client \<Rightarrow> nat option \<Rightarrow> int \<Rightarrow> redis_client res" where
  "set_deferred_array_len L c node len = set_deferred_aggregate_len L c node len CHR ''*''"

definition add_reply_help :: "latte_c \<Rightarrow> obj_heap \<Rightarrow> redis_client \<Rightarrow> string list \<Rightarrow> redis_client res" where
  "add_reply_help L h c help =
     res_bind (argv_get c 0) (\<lambda>a.
     res_bind (obj_get h a) (\<lambda>obj.
     case ptr obj of
       Ptr_bytes s \<Rightarrow>
         let (c, blenp) = add_reply_deferred_len L c;
             cmd = sds_to_upper L (c_string s);
             c = add_reply_status_format L c (cmd @ '' <subcommand> [<arg> [value] [opt] ...]. Subcommands are:'');
             c = fold (\<lambda>line c. add_reply_status L c line) help c;
             c = add_reply_status L c ''HELP'';
             c = add_reply_status L c ''   Prints this help.'';
             blen = int (length help) + 1 + 2
         in set_deferred_array_len L c blenp blen
     | _ \<Rightarrow> Inl (Null_deref ''argv[0]->ptr'')))"

section \<open>What a reply adds to the output\<close>

definition sent :: "redis_client \<Rightarrow> string" where
  "sent c = client_output (client c)"

text \<open>Nothing but the queued output and its size differs.\<close>

definition reply_frame :: "redis_client \<Rightarrow> redis_client \<Rightarrow> bool" where
  "reply_frame c c' \<longleftrightarrow> (\<exists>b r n. c' = c\<lparr>client := (client c)\<lparr>obuf := b, reply := r\<rparr>, reply_bytes := n\<rparr>)"

definition emits :: "redis_client \<Rightarrow> string \<Rightarrow> redis_client \<Rightarrow> bool" where
  "emits c s c' \<longleftrightarrow> sent c' = sent c @ s \<and> reply_frame c c'"

lemma reply_frame_refl [simp]: "reply_frame c c"
  unfolding reply_frame_def by (intro exI [of _ "obuf (client c)"] exI [of _ "reply (client c)"] exI [of _ "reply_bytes c"]) simp

lemma reply_frame_trans: "reply_frame a b \<Longrightarrow> reply_frame b c \<Longrightarrow> reply_frame a c"
  unfolding reply_frame_def by fastforce

lemma reply_frame_fields:
  assumes "reply_frame c c'"
  shows "argc c' = argc c" "argv c' = argv c" "cmd c' = cmd c" "lastcmd c' = lastcmd c" "req_type c' = req_type c"
    "bulk_len c' = bulk_len c" "multi_bulk_len c' = multi_bulk_len c" "dbid c' = dbid c" "flag c' = flag c"
    "querybuf (client c') = querybuf (client c)" "qb_pos (client c') = qb_pos (client c)"
    "cl_flags (client c') = cl_flags (client c)" "argv_len_sum c' = argv_len_sum c"
    "start_time (client c') = start_time (client c)" "end_time (client c') = end_time (client c)"
  using assms by (auto simp: reply_frame_def)

text \<open>
  The channel every reply function is written on: putting bytes appends them, and appending is
  transitive. The lemmas are the lines of the protocol.
\<close>

locale reply_channel =
  fixes ok :: bool
    and emitted :: "'c \<Rightarrow> string \<Rightarrow> 'c \<Rightarrow> bool"
    and put :: "'c \<Rightarrow> string \<Rightarrow> 'c"
  assumes emitted_nil: "emitted c [] c"
    and emitted_trans: "emitted c s c1 \<Longrightarrow> emitted c1 t c2 \<Longrightarrow> emitted c (s @ t) c2"
    and emitted_put: "ok \<Longrightarrow> emitted c s (put c s)"
begin

lemma put_two: "ok \<Longrightarrow> emitted c (s @ t) (put (put c s) t)"
  by (rule emitted_trans [OF emitted_put emitted_put])

lemma put_three: "ok \<Longrightarrow> emitted c (s @ t @ u) (put (put (put c s) t) u)"
  by (rule emitted_trans [OF emitted_put put_two])

lemma put_fold:
  assumes "\<And>c x. emitted c (line x) (f x c)"
  shows "emitted c (concat (map line xs)) (fold f xs c)"
  by (induction xs arbitrary: c) (auto intro: emitted_nil emitted_trans [OF assms])

end

interpretation out: reply_channel "reply_laws L" emits "reply_proto L" for L
proof
  show "emits c [] c" for c by (simp add: emits_def)
  show "emits c s c1 \<Longrightarrow> emits c1 t c2 \<Longrightarrow> emits c (s @ t) c2" for c s c1 t c2
    by (auto simp: emits_def intro: reply_frame_trans)
  show "reply_laws L \<Longrightarrow> emits c s (reply_proto L c s)" for c s
  proof -
    assume L: "reply_laws L"
    then obtain b r where "add_reply_proto L (client c) s = (client c)\<lparr>obuf := b, reply := r\<rparr>"
      unfolding reply_laws_def by blast
    moreover have "client_output (add_reply_proto L (client c) s) = client_output (client c) @ s"
      using L by (simp add: reply_laws_def)
    ultimately show ?thesis unfolding emits_def reply_frame_def sent_def reply_proto_def
      by (auto intro!: exI [of _ b] exI [of _ r] exI [of _ "reply_bytes c"])
  qed
qed

subsection \<open>The replies of the protocol\<close>

datatype resp = Simple string | Err string | Integer int | Bulk string | Array "resp list"

fun resp_encode :: "resp \<Rightarrow> string" where
  "resp_encode (Simple s) = ''+'' @ s @ crlf"
| "resp_encode (Err s) = ''-'' @ s @ crlf"
| "resp_encode (Integer n) = '':'' @ dec n @ crlf"
| "resp_encode (Bulk s) = ''$'' @ dec (int (length s)) @ crlf @ s @ crlf"
| "resp_encode (Array rs) = ''*'' @ dec (int (length rs)) @ crlf @ concat (map resp_encode rs)"

text \<open>A line carries no line break of its own.\<close>

fun resp_wf :: "resp \<Rightarrow> bool" where
  "resp_wf (Simple s) \<longleftrightarrow> CR \<notin> set s \<and> LF \<notin> set s"
| "resp_wf (Err s) \<longleftrightarrow> CR \<notin> set s \<and> LF \<notin> set s"
| "resp_wf (Integer n) \<longleftrightarrow> True"
| "resp_wf (Bulk s) \<longleftrightarrow> True"
| "resp_wf (Array rs) \<longleftrightarrow> list_all resp_wf rs"

definition err_text :: "string \<Rightarrow> string" where
  "err_text s = (if s \<noteq> [] \<and> hd s = CHR ''-'' then tl s else ''ERR '' @ s)"

lemma add_reply_error_length_spec:
  assumes "reply_laws L"
  shows "emits c (resp_encode (Err (err_text s))) (add_reply_error_length L c s)"
proof (cases "s = [] \<or> hd s \<noteq> CHR ''-''")
  case True
  then show ?thesis using out.put_three [OF assms, of c "''-ERR ''" s crlf]
    by (auto simp: add_reply_error_length_def err_text_def)
next
  case False
  then have "s = CHR ''-'' # tl s" by (cases s) auto
  then have eq: "resp_encode (Err (err_text s)) = s @ crlf" using False by (simp add: err_text_def)
  show ?thesis using out.put_two [OF assms, of c s crlf] False unfolding eq by (simp add: add_reply_error_length_def)
qed

lemma add_reply_error_spec:
  "reply_laws L \<Longrightarrow> emits c (resp_encode (Err (err_text (c_string s)))) (add_reply_error L c s)"
  unfolding add_reply_error_def by (rule add_reply_error_length_spec)

lemma add_reply_status_length_spec:
  "reply_laws L \<Longrightarrow> emits c (resp_encode (Simple s)) (add_reply_status_length L c s)"
  using out.put_three [of L c "''+''" s crlf] by (simp add: add_reply_status_length_def)

lemma add_reply_spec:
  assumes "reply_laws L" "string_obj L obj s"
  shows "\<exists>c'. add_reply L c obj = Inr c' \<and> emits c s c'"
  using assms out.emitted_put [OF assms(1), of c s]
  by (auto simp: add_reply_def string_obj_def prepare_client_to_write_def)

lemma shared_objects_spec:
  assumes "object_laws L" "sds_laws L"
  shows "string_obj L (sh_crlf (init_shared_objects L)) crlf"
    "string_obj L (sh_ok (init_shared_objects L)) (resp_encode (Simple ''OK''))"
    "string_obj L (sh_pong (init_shared_objects L)) (resp_encode (Simple ''PONG''))"
    "string_obj L (sh_wrongtypeerr (init_shared_objects L))
       (resp_encode (Err ''WRONGTYPE Operation against a key holding the wrong kind of value''))"
    "j < OBJ_SHARED_BULKHDR_LEN \<Longrightarrow> string_obj L (sh_mbulkhdr (init_shared_objects L) ! j) (''*'' @ dec (int j) @ crlf)"
    "j < OBJ_SHARED_BULKHDR_LEN \<Longrightarrow> string_obj L (sh_bulkhdr (init_shared_objects L) ! j) (''$'' @ dec (int j) @ crlf)"
proof -
  have new: "string_obj L (latte_object_new L OBJ_STRING s) s" for s using assms(1) by (simp add: object_laws_def)
  have fmt: "NUL \<notin> set s \<Longrightarrow> sds_cat_vprintf L s = s" for s using assms(2) by (simp add: sds_laws_def)
  show "string_obj L (sh_crlf (init_shared_objects L)) crlf"
    "string_obj L (sh_ok (init_shared_objects L)) (resp_encode (Simple ''OK''))"
    "string_obj L (sh_pong (init_shared_objects L)) (resp_encode (Simple ''PONG''))"
    "string_obj L (sh_wrongtypeerr (init_shared_objects L))
       (resp_encode (Err ''WRONGTYPE Operation against a key holding the wrong kind of value''))"
    by (simp_all add: init_shared_objects_def new)
  show "j < OBJ_SHARED_BULKHDR_LEN \<Longrightarrow> string_obj L (sh_mbulkhdr (init_shared_objects L) ! j) (''*'' @ dec (int j) @ crlf)"
    "j < OBJ_SHARED_BULKHDR_LEN \<Longrightarrow> string_obj L (sh_bulkhdr (init_shared_objects L) ! j) (''$'' @ dec (int j) @ crlf)"
    by (simp_all add: init_shared_objects_def new fmt)
qed

text \<open>The shared headers and the formatted ones are the same bytes.\<close>

lemma add_reply_long_long_spec:
  assumes "latte_c_laws L" "llong_min \<le> n" "n \<le> llong_max"
  shows "\<exists>c'. add_reply_long_long_with_prefix L (init_shared_objects L) c n p = Inr c' \<and> emits c (p # dec n @ crlf) c'"
proof -
  have L: "reply_laws L" "object_laws L" "sds_laws L" "number_laws L" using assms(1) by (simp_all add: latte_c_laws_def)
  have "ll2string L n = dec n" using L(4) assms(2,3) by (simp add: number_laws_def)
  moreover have "n = int (nat n)" "nat n < OBJ_SHARED_BULKHDR_LEN" if "0 \<le> n" "n < int OBJ_SHARED_BULKHDR_LEN"
    using that by auto
  ultimately show ?thesis
    using out.emitted_put [OF L(1), of c "p # dec n @ crlf"]
      add_reply_spec [OF L(1) shared_objects_spec(5) [OF L(2,3), of "nat n"], of c]
      add_reply_spec [OF L(1) shared_objects_spec(6) [OF L(2,3), of "nat n"], of c]
    by (auto simp: add_reply_long_long_with_prefix_def)
qed

lemma add_reply_bulk_spec:
  assumes "latte_c_laws L" "string_obj L obj s" "int (length s) \<le> llong_max"
  shows "\<exists>c'. add_reply_bulk L (init_shared_objects L) c obj = Inr c' \<and> emits c (resp_encode (Bulk s)) c'"
proof -
  have L: "reply_laws L" "object_laws L" "sds_laws L" using assms(1) by (simp_all add: latte_c_laws_def)
  have "string_object_len L obj = length s" using L(2) assms(2) unfolding object_laws_def by blast
  then obtain c1 where c1: "add_reply_bulk_len L (init_shared_objects L) c obj = Inr c1"
    "emits c (''$'' @ dec (int (length s)) @ crlf) c1"
    using add_reply_long_long_spec [OF assms(1), of "int (length s)" c "CHR ''$''"] assms(3)
    by (auto simp: add_reply_bulk_len_def)
  obtain c2 where c2: "add_reply L c1 obj = Inr c2" "emits c1 s c2" using add_reply_spec [OF L(1) assms(2)] by blast
  obtain c3 where c3: "add_reply L c2 (sh_crlf (init_shared_objects L)) = Inr c3" "emits c2 crlf c3"
    using add_reply_spec [OF L(1) shared_objects_spec(1) [OF L(2,3)]] by blast
  have "emits c ((''$'' @ dec (int (length s)) @ crlf) @ s @ crlf) c3"
    by (rule out.emitted_trans [OF c1(2) out.emitted_trans [OF c2(2) c3(2)]])
  then show ?thesis using c1(1) c2(1) c3(1) by (simp add: add_reply_bulk_def)
qed

subsection \<open>Errors on one line\<close>

lemma add_reply_error_format_spec:
  assumes "reply_laws L" "sds_laws L"
  shows "\<exists>text. emits c (resp_encode (Err text)) (add_reply_error_format L c s) \<and> resp_wf (Err text) \<and>
    (NUL \<notin> set s \<and> CR \<notin> set s \<and> LF \<notin> set s \<longrightarrow> text = err_text s)"
proof -
  let ?m = "\<lambda>c. case map_of (zip crlf ''  '') c of None \<Rightarrow> c | Some d \<Rightarrow> d"
  define u where "u = sds_trim L (sds_cat_vprintf L s) crlf"
  define t where "t = sds_map_chars L u crlf ''  ''"
  have t: "t = map ?m u" using assms(2) by (simp add: t_def sds_laws_def)
  have clean: "CR \<notin> set t" "LF \<notin> set t" by (auto simp: t split: if_splits)
  have "resp_wf (Err (err_text t))" using clean by (cases t) (auto simp: err_text_def)
  moreover have "err_text t = err_text s" if "NUL \<notin> set s" "CR \<notin> set s" "LF \<notin> set s"
  proof -
    have "sds_cat_vprintf L s = s" using that assms(2) by (simp add: sds_laws_def)
    moreover have dw: "dropWhile (\<lambda>c. c \<in> set crlf) xs = xs" if "CR \<notin> set xs" "LF \<notin> set xs" for xs
      using that by (cases xs) auto
    ultimately have u: "u = s" using that assms(2) dw [of s] dw [of "rev s"] by (simp add: u_def sds_laws_def)
    have "map ?m s = s" using that by (intro map_idI) auto
    then show ?thesis by (simp add: t u)
  qed
  moreover have "add_reply_error_format L c s = add_reply_error_length L c t"
    by (simp add: add_reply_error_format_def t_def u_def)
  ultimately show ?thesis using add_reply_error_length_spec [OF assms(1), of c t] by (intro exI [of _ "err_text t"]) simp
qed

subsection \<open>Deferred lengths land where they were promised\<close>

lemma del_node_middle [simp]: "del_node (length xs) (xs @ y # ys) = xs @ ys"
  by (simp add: del_node_def)

lemma reply_frame_set_reply [simp]: "reply_frame c (set_reply c r)"
  unfolding reply_frame_def set_reply_def
  by (intro exI [of _ "obuf (client c)"] exI [of _ r] exI [of _ "reply_bytes c"]) simp

lemma reply_frame_bytes [simp]: "reply_frame c (c\<lparr>reply_bytes := n\<rparr>)"
  unfolding reply_frame_def
  by (intro exI [of _ "obuf (client c)"] exI [of _ "reply (client c)"] exI [of _ n]) simp

lemma set_reply_simps [simp]: "reply (client (set_reply c r)) = r" "obuf (client (set_reply c r)) = obuf (client c)"
  "reply_bytes (set_reply c r) = reply_bytes c" "set_reply (set_reply c r) r' = set_reply c r'"
  by (simp_all add: set_reply_def)

lemma set_deferred_next_spec:
  assumes "sds_laws L" "reply (client c) = xs @ None # ys" "list_all block_ok (xs @ ys)"
  shows "sent (set_deferred_next L c (length xs) s) = obuf (client c) @ reply_bytes_of xs @ s @ reply_bytes_of ys"
    "reply_frame c (set_deferred_next L c (length xs) s)"
    "list_all block_ok (reply (client (set_deferred_next L c (length xs) s)))"
proof -
  have size: "length s \<le> zmalloc_usable_size L (length s)" using assms(1) by (simp add: sds_laws_def)
  let ?new = "(set_reply c (xs @ Some \<lparr>bsize = zmalloc_usable_size L (length s), bdata = s\<rparr> # ys))
      \<lparr>reply_bytes := reply_bytes c + of_nat (zmalloc_usable_size L (length s))\<rparr>"
  have new: "sent ?new = obuf (client c) @ reply_bytes_of xs @ s @ reply_bytes_of ys" "reply_frame c ?new"
    "list_all block_ok (reply (client ?new))"
    using assms(3) size reply_frame_trans [OF reply_frame_set_reply reply_frame_bytes]
    by (auto simp: sent_def client_output_def)
  have "sent (set_deferred_next L c (length xs) s) = obuf (client c) @ reply_bytes_of xs @ s @ reply_bytes_of ys \<and>
    reply_frame c (set_deferred_next L c (length xs) s) \<and>
    list_all block_ok (reply (client (set_deferred_next L c (length xs) s)))"
  proof (cases ys)
    case Nil
    then show ?thesis using new assms(2) by (simp add: set_deferred_next_def Let_def)
  next
    case (Cons y zs)
    have nth: "(xs @ None # y # zs) ! Suc (length xs) = y" "(xs @ None # y # zs)[Suc (length xs) := b] = xs @ None # b # zs" for b
      by (simp_all add: nth_append list_update_append)
    show ?thesis
    proof (cases "\<exists>next. y = Some next \<and> length s \<le> bsize next - length (bdata next) \<and>
        length (bdata next) < PROTO_REPLY_CHUNK_BYTES L * 4")
      case True
      then obtain nx where y: "y = Some nx" and room: "length s \<le> bsize nx - length (bdata nx)"
        "length (bdata nx) < PROTO_REPLY_CHUNK_BYTES L * 4" by blast
      have "set_deferred_next L c (length xs) s = set_reply c (xs @ Some (nx\<lparr>bdata := s @ bdata nx\<rparr>) # zs)"
        using room assms(2) Cons y nth by (simp add: set_deferred_next_def Let_def)
      then show ?thesis using assms(3) Cons y room by (auto simp: sent_def client_output_def)
    next
      case False
      then have "set_deferred_next L c (length xs) s = ?new"
        using assms(2) Cons nth(1) by (auto simp: set_deferred_next_def Let_def split: option.splits)
      then show ?thesis using new by simp
    qed
  qed
  then show "sent (set_deferred_next L c (length xs) s) = obuf (client c) @ reply_bytes_of xs @ s @ reply_bytes_of ys"
    "reply_frame c (set_deferred_next L c (length xs) s)"
    "list_all block_ok (reply (client (set_deferred_next L c (length xs) s)))" by blast+
qed

lemma set_deferred_reply_spec:
  assumes "sds_laws L" "reply (client c) = xs @ None # ys" "list_all block_ok (xs @ ys)"
  shows "\<exists>c'. set_deferred_reply L c (Some (length xs)) s = Inr c' \<and>
    sent c' = obuf (client c) @ reply_bytes_of xs @ s @ reply_bytes_of ys \<and> reply_frame c c' \<and>
    list_all block_ok (reply (client c'))"
proof (cases "\<exists>ws p. xs = ws @ [Some p] \<and> 0 < bsize p - length (bdata p)")
  case False
  have "(if 0 < length xs then (xs @ None # ys) ! (length xs - 1) else None) = None \<or>
    (\<exists>p. (if 0 < length xs then (xs @ None # ys) ! (length xs - 1) else None) = Some p \<and> \<not> 0 < bsize p - length (bdata p))"
  proof (cases xs rule: rev_cases)
    case (snoc ws w)
    then show ?thesis using False by (cases w) (auto simp: nth_append)
  qed simp
  then have "set_deferred_reply L c (Some (length xs)) s = Inr (set_deferred_next L c (length xs) s)"
    using assms(2) by (auto simp: set_deferred_reply_def Let_def)
  then show ?thesis using set_deferred_next_spec [OF assms, of s] by simp
next
  case True
  then obtain ws p where xs: "xs = ws @ [Some p]" and room: "0 < bsize p - length (bdata p)" by blast
  define n where "n = min (bsize p - length (bdata p)) (length s)"
  define q where "q = p\<lparr>bdata := bdata p @ take n s\<rparr>"
  have q: "block_ok (Some q)" using room by (auto simp: q_def n_def)
  have upd: "(xs @ None # ys)[length xs - 1 := Some q] = (ws @ [Some q]) @ None # ys" and len: "length xs = length (ws @ [Some q])"
    and prev: "(xs @ None # ys) ! (length xs - 1) = Some p" "0 < length xs" "(xs @ None # ys) ! length xs = None"
    by (simp_all add: xs list_update_append nth_append)
  have ok: "list_all block_ok ((ws @ [Some q]) @ ys)" using assms(3) q by (simp add: xs)
  show ?thesis
  proof (cases "length s - n = 0")
    case True
    then have qs: "q = p\<lparr>bdata := bdata p @ s\<rparr>" by (simp add: q_def)
    with True have "set_deferred_reply L c (Some (length xs)) s = Inr (set_reply c (del_node (length xs) ((ws @ [Some q]) @ None # ys)))"
      using assms(2) room prev upd by (simp add: set_deferred_reply_def Let_def n_def [symmetric] qs [symmetric])
    also have "del_node (length xs) ((ws @ [Some q]) @ None # ys) = (ws @ [Some q]) @ ys"
      unfolding len by (rule del_node_middle)
    finally show ?thesis using ok True by (auto simp: sent_def client_output_def xs q_def)
  next
    case False
    let ?c = "set_reply c ((ws @ [Some q]) @ None # ys)"
    have "set_deferred_reply L c (Some (length xs)) s = Inr (set_deferred_next L ?c (length (ws @ [Some q])) (drop n s))"
      using assms(2) room prev upd False len by (simp add: set_deferred_reply_def Let_def n_def [symmetric] q_def [symmetric])
    moreover have "reply (client ?c) = (ws @ [Some q]) @ None # ys" by simp
    note spec = set_deferred_next_spec [OF assms(1) this ok, of "drop n s"]
    have "reply_bytes_of (ws @ [Some q]) = reply_bytes_of xs @ take n s" by (simp add: xs q_def)
    with spec(1) have "sent (set_deferred_next L ?c (length (ws @ [Some q])) (drop n s)) =
      obuf (client c) @ reply_bytes_of xs @ (take n s @ drop n s) @ reply_bytes_of ys"
      by (simp only: append_assoc set_reply_simps)
    ultimately show ?thesis using spec(2,3) reply_frame_trans [OF reply_frame_set_reply]
      unfolding append_take_drop_id by blast
  qed
qed

subsection \<open>The help of a container command\<close>

text \<open>Once a placeholder is in the list, bytes go behind it.\<close>

definition behind :: "redis_client \<Rightarrow> reply_block option list \<Rightarrow> string \<Rightarrow> redis_client \<Rightarrow> bool" where
  "behind c xs s c' \<longleftrightarrow> reply_frame c c' \<and> obuf (client c') = obuf (client c) \<and>
     (\<exists>ys. reply (client c') = xs @ None # ys \<and> reply_bytes_of ys = s \<and> list_all block_ok ys)"

lemma behind_put:
  assumes "reply_laws L" "behind c xs s c'" "list_all block_ok xs"
  shows "behind c xs (s @ t) (reply_proto L c' t)"
proof -
  obtain ys where ys: "reply (client c') = xs @ None # ys" "reply_bytes_of ys = s" "list_all block_ok ys"
    and b: "reply_frame c c'" "obuf (client c') = obuf (client c)" using assms(2) by (auto simp: behind_def)
  from assms(1) ys(1) obtain zs where "reply (add_reply_proto L (client c') t) = xs @ None # zs"
    "reply_bytes_of zs = s @ t" "obuf (add_reply_proto L (client c') t) = obuf (client c')"
    unfolding reply_laws_def ys(2) [symmetric] by blast
  moreover have "list_all block_ok (reply (add_reply_proto L (client c') t))"
    using assms(1,3) ys(1,3) unfolding reply_laws_def by simp
  moreover have "reply_frame c (reply_proto L c' t)"
    using reply_frame_trans [OF b(1)] out.emitted_put [OF assms(1), of c' t] by (simp add: emits_def)
  ultimately show ?thesis using b by (auto simp: behind_def reply_proto_def)
qed

lemma behind_status:
  assumes "reply_laws L" "list_all block_ok xs" "behind c xs s c'"
  shows "behind c xs (s @ resp_encode (Simple t)) (add_reply_status_length L c' t)"
  using behind_put [OF assms(1) behind_put [OF assms(1) behind_put [OF assms(1,3,2), of "''+''"] assms(2), of t] assms(2), of crlf]
  by (simp add: add_reply_status_length_def)

lemma behind_lines:
  assumes "reply_laws L" "list_all block_ok xs"
  shows "behind c xs s c' \<Longrightarrow> list_all (\<lambda>t. NUL \<notin> set t) ts \<Longrightarrow>
    behind c xs (s @ concat (map (\<lambda>t. resp_encode (Simple t)) ts)) (fold (\<lambda>line c. add_reply_status L c line) ts c')"
proof (induction ts arbitrary: s c')
  case (Cons t ts)
  have "behind c xs (s @ resp_encode (Simple t)) (add_reply_status L c' t)"
    using behind_status [OF assms Cons.prems(1), of t] Cons.prems(2) by (simp add: add_reply_status_def)
  from Cons.IH [OF this] Cons.prems(2) show ?case by simp
qed simp

lemma trim_reply_spec:
  assumes "sds_laws L" "list_all block_ok (reply (client c))"
  shows "sent (trim_reply_unused_tail_space L c) = sent c" "reply_frame c (trim_reply_unused_tail_space L c)"
    "list_all block_ok (reply (client (trim_reply_unused_tail_space L c)))"
    "obuf (client (trim_reply_unused_tail_space L c)) = obuf (client c)"
proof -
  have "sent (trim_reply_unused_tail_space L c) = sent c \<and> reply_frame c (trim_reply_unused_tail_space L c) \<and>
    list_all block_ok (reply (client (trim_reply_unused_tail_space L c))) \<and>
    obuf (client (trim_reply_unused_tail_space L c)) = obuf (client c)"
  proof (cases "reply (client c)" rule: rev_cases)
    case Nil
    then show ?thesis by (simp add: trim_reply_unused_tail_space_def)
  next
    case (snoc ws w)
    show ?thesis
    proof (cases w)
      case None
      then show ?thesis using snoc assms(2) by (simp add: trim_reply_unused_tail_space_def)
    next
      case (Some tl)
      let ?c = "c\<lparr>client := (client c)\<lparr>reply := ws @ [Some (tl\<lparr>bsize := zmalloc_usable_size L (length (bdata tl))\<rparr>)]\<rparr>,
        reply_bytes := reply_bytes c + of_nat (zmalloc_usable_size L (length (bdata tl))) - of_nat (bsize tl)\<rparr>"
      have "reply_frame c ?c" unfolding reply_frame_def by (intro exI [of _ "obuf (client c)"] exI) simp
      moreover have "length (bdata tl) \<le> zmalloc_usable_size L (length (bdata tl))" using assms(1) by (simp add: sds_laws_def)
      moreover have "trim_reply_unused_tail_space L c \<in> {c, ?c}"
        using snoc Some by (simp add: trim_reply_unused_tail_space_def Let_def)
      ultimately show ?thesis using assms(2) snoc Some by (auto simp: sent_def client_output_def)
    qed
  qed
  then show "sent (trim_reply_unused_tail_space L c) = sent c" "reply_frame c (trim_reply_unused_tail_space L c)"
    "list_all block_ok (reply (client (trim_reply_unused_tail_space L c)))"
    "obuf (client (trim_reply_unused_tail_space L c)) = obuf (client c)" by blast+
qed

definition help_lines :: "latte_c \<Rightarrow> string \<Rightarrow> string list \<Rightarrow> string list" where
  "help_lines L name help =
     (sds_to_upper L name @ '' <subcommand> [<arg> [value] [opt] ...]. Subcommands are:'') # help @
     [''HELP'', ''   Prints this help.'']"

lemma add_reply_help_spec:
  assumes "latte_c_laws L" "list_all block_ok (reply (client c))"
    "argv_get c 0 = Inr a" "cells h a = Some obj" "ptr obj = Ptr_bytes s" "NUL \<notin> set (sds_to_upper L (c_string s))"
    "list_all (\<lambda>t. NUL \<notin> set t) help"
  shows "\<exists>c'. add_reply_help L h c help = Inr c' \<and>
    emits c (resp_encode (Array (map Simple (help_lines L (c_string s) help)))) c'"
proof -
  have L: "reply_laws L" "sds_laws L" using assms(1) by (simp_all add: latte_c_laws_def)
  define c0 where "c0 = trim_reply_unused_tail_space L c"
  define xs where "xs = reply (client c0)"
  define c1 where "c1 = c0\<lparr>client := (client c0)\<lparr>reply := xs @ [None]\<rparr>\<rparr>"
  note trim = trim_reply_spec [OF L(2) assms(2), folded c0_def]
  have ok: "list_all block_ok xs" using trim(3) by (simp add: xs_def)
  have c1: "add_reply_deferred_len L c = (c1, Some (length xs))"
    by (simp add: add_reply_deferred_len_def prepare_client_to_write_def Let_def c0_def [symmetric] xs_def [symmetric] c1_def)
  have "reply_frame c0 c1" unfolding c1_def using reply_frame_set_reply [of c0 "xs @ [None]"] by (simp add: set_reply_def)
  then have fr: "reply_frame c c1" using reply_frame_trans [OF trim(2)] by blast
  have b1: "behind c xs [] c1" using fr trim(4) by (auto simp: behind_def c1_def)
  let ?hd = "sds_to_upper L (c_string s) @ '' <subcommand> [<arg> [value] [opt] ...]. Subcommands are:''"
  have hd: "sds_cat_vprintf L ?hd = ?hd" using L(2) assms(6) by (simp add: sds_laws_def)
  define c2 where "c2 = add_reply_status L (add_reply_status L (fold (\<lambda>line c. add_reply_status L c line) help
      (add_reply_status_format L c1 ?hd)) ''HELP'') ''   Prints this help.''"
  have "behind c xs ([] @ resp_encode (Simple ?hd)) (add_reply_status_format L c1 ?hd)"
    using behind_status [OF L(1) ok b1, of ?hd] by (simp add: add_reply_status_format_def hd)
  from behind_lines [OF L(1) ok this, of "help @ [''HELP'', ''   Prints this help.'']"] assms(7)
  have b2: "behind c xs (concat (map (\<lambda>t. resp_encode (Simple t)) (help_lines L (c_string s) help))) c2"
    by (simp add: c2_def help_lines_def)
  then obtain ys where ys: "reply (client c2) = xs @ None # ys" "list_all block_ok ys" "obuf (client c2) = obuf (client c)"
    "reply_bytes_of ys = concat (map (\<lambda>t. resp_encode (Simple t)) (help_lines L (c_string s) help))" "reply_frame c c2"
    by (auto simp: behind_def)
  obtain c3 where c3: "set_deferred_reply L c2 (Some (length xs)) (CHR ''*'' # dec (int (length help) + 3) @ crlf) = Inr c3"
    "sent c3 = obuf (client c2) @ reply_bytes_of xs @ (CHR ''*'' # dec (int (length help) + 3) @ crlf) @ reply_bytes_of ys"
    "reply_frame c2 c3"
    using set_deferred_reply_spec [OF L(2) ys(1), of "CHR ''*'' # dec (int (length help) + 3) @ crlf"] ok ys(2) by auto
  have "add_reply_help L h c help = Inr c3"
    using assms(3-5) c1 c3(1)
    by (simp add: add_reply_help_def c2_def Let_def set_deferred_array_len_def set_deferred_aggregate_len_def add.commute)
  moreover have "sent c = obuf (client c) @ reply_bytes_of xs"
    using trim(1,4) by (simp add: sent_def client_output_def xs_def)
  then have "emits c (resp_encode (Array (map Simple (help_lines L (c_string s) help)))) c3"
    using c3(2,3) ys reply_frame_trans [OF ys(5)]
    by (simp add: emits_def help_lines_def comp_def add.commute)
  ultimately show ?thesis by blast
qed

section \<open>Dropping the arguments\<close>

definition drop_ref :: "nat \<Rightarrow> obj_heap \<Rightarrow> obj_heap" where
  "drop_ref a h =
     (case cells h a of
        None \<Rightarrow> h
      | Some obj \<Rightarrow> obj_put h a (if refcount obj = 1 then None else Some (obj\<lparr>refcount := refcount obj - 1\<rparr>)))"

text \<open>The client's arguments are the objects at the addresses \<open>as\<close>.\<close>

definition args_of :: "redis_client \<Rightarrow> nat list \<Rightarrow> bool" where
  "args_of rc as \<longleftrightarrow> argc rc = length as \<and> (as \<noteq> [] \<longrightarrow> (\<exists>rest. argv rc = Argv (map Some as @ rest)))"

definition counted :: "latte_c \<Rightarrow> obj_heap \<Rightarrow> nat list \<Rightarrow> bool" where
  "counted L h as \<longleftrightarrow> distinct as \<and>
     (\<forall>a\<in>set as. \<exists>obj. cells h a = Some obj \<and> 0 < refcount obj \<and> refcount obj < OBJ_STATIC_REFCOUNT L)"

lemma args_of_frame: "reply_frame c c' \<Longrightarrow> args_of c' as = args_of c as"
  by (simp add: args_of_def reply_frame_fields)

lemma argv_get_args: "args_of rc as \<Longrightarrow> i < length as \<Longrightarrow> argv_get rc i = Inr (as ! i)"
  by (auto simp: args_of_def argv_get_def nth_append split: argv_ptr.splits)

lemma cells_drop_ref: "b \<noteq> a \<Longrightarrow> cells (drop_ref a h) b = cells h b"
  by (simp add: drop_ref_def split: option.splits)

lemma cells_drop_refs_other: "b \<notin> set as \<Longrightarrow> cells (fold drop_ref as h) b = cells h b"
  by (induction as arbitrary: h) (auto simp: cells_drop_ref)

lemma cells_drop_refs:
  "distinct as \<Longrightarrow> a \<in> set as \<Longrightarrow> cells h a = Some obj \<Longrightarrow>
   cells (fold drop_ref as h) a = (if refcount obj = 1 then None else Some (obj\<lparr>refcount := refcount obj - 1\<rparr>))"
proof (induction as arbitrary: h)
  case (Cons b as)
  show ?case
  proof (cases "a = b")
    case True
    have "cells (drop_ref b h) b = (if refcount obj = 1 then None else Some (obj\<lparr>refcount := refcount obj - 1\<rparr>))"
      using True Cons.prems by (simp add: drop_ref_def)
    then show ?thesis using True Cons.prems by (simp add: cells_drop_refs_other)
  next
    case False
    then show ?thesis using Cons by (simp add: cells_drop_ref)
  qed
qed simp

lemma decr_args_spec:
  assumes L: "object_laws L" and args: "args_of rc as"
  shows "j + n = length as \<Longrightarrow> counted L h (drop j as) \<Longrightarrow>
    decr_args L rc j n h = Inr (fold drop_ref (drop j as) h)"
proof (induction n arbitrary: j h)
  case (Suc n)
  let ?a = "as ! j"
  have j: "j < length as" using Suc.prems by simp
  then have d: "drop j as = ?a # drop (Suc j) as" by (simp add: Cons_nth_drop_Suc)
  then obtain obj where obj: "cells h ?a = Some obj" "0 < refcount obj" "refcount obj < OBJ_STATIC_REFCOUNT L"
    using Suc.prems(2) unfolding counted_def by auto
  have "latte_object_decr_ref_count L h ?a = Inr (drop_ref ?a h)"
  proof (cases "refcount obj = 1")
    case True
    then show ?thesis using L obj(1) by (simp add: object_laws_def drop_ref_def)
  next
    case False
    then have "1 < refcount obj" using obj(2) by linarith
    then show ?thesis using L obj by (simp add: object_laws_def drop_ref_def)
  qed
  moreover have "counted L (drop_ref ?a h) (drop (Suc j) as)"
    unfolding counted_def
  proof (intro conjI ballI)
    fix b assume b: "b \<in> set (drop (Suc j) as)"
    then have "b \<noteq> ?a" using Suc.prems(2) unfolding d counted_def by auto
    then show "\<exists>obj. cells (drop_ref ?a h) b = Some obj \<and> 0 < refcount obj \<and> refcount obj < OBJ_STATIC_REFCOUNT L"
      using b Suc.prems(2) unfolding d counted_def by (simp add: cells_drop_ref)
  qed (use Suc.prems(2) in \<open>simp add: d counted_def\<close>)
  ultimately show ?case using Suc.IH [of "Suc j" "drop_ref ?a h"] Suc.prems(1) argv_get_args [OF args j] d by simp
qed simp

lemma reset_redis_client_spec:
  assumes "object_laws L" "args_of rc as" "counted L h as"
  shows "reset_redis_client L rc h =
    Inr (rc\<lparr>argc := 0, cmd := None, argv_len_sum := 0, req_type := 0, multi_bulk_len := 0, bulk_len := -1\<rparr>,
         fold drop_ref as h)"
proof -
  have "decr_args L rc 0 (argc rc) h = Inr (fold drop_ref as h)"
    using decr_args_spec [OF assms(1,2), of 0 "argc rc" h] assms(2,3) by (simp add: args_of_def)
  then show ?thesis by (simp add: reset_redis_client_def free_client_argv_def)
qed

section \<open>Properties\<close>

text \<open>
  C14. A reply whose length is filled in late ends up exactly where its placeholder was, whatever
  room the neighbouring blocks have: the output is what was before the placeholder, the bytes,
  and what was queued behind it; no block is overfilled and nothing else of the client changes.
\<close>

theorem set_deferred_reply_in_place:
  assumes "sds_laws L" "reply (client c) = xs @ None # ys" "list_all block_ok (xs @ ys)"
  shows "\<exists>c'. set_deferred_reply L c (Some (length xs)) s = Inr c' \<and>
    client_output (client c') = obuf (client c) @ reply_bytes_of xs @ s @ reply_bytes_of ys \<and>
    list_all block_ok (reply (client c')) \<and> reply_frame c c'"
  using set_deferred_reply_spec [OF assms] by (auto simp: sent_def)

text \<open>
  C22. The help of a container command is one well-formed array of simple strings: the announced
  count is the number of lines that follow, the header and the two footer lines included.
\<close>

theorem add_reply_help_array:
  assumes "latte_c_laws L" "list_all block_ok (reply (client c))"
    "argv_get c 0 = Inr a" "cells h a = Some obj" "ptr obj = Ptr_bytes s" "NUL \<notin> set (sds_to_upper L (c_string s))"
    "list_all (\<lambda>t. NUL \<notin> set t) help"
  shows "\<exists>c'. add_reply_help L h c help = Inr c' \<and>
    emits c (resp_encode (Array (map Simple (help_lines L (c_string s) help)))) c'"
  using assms by (rule add_reply_help_spec)

text \<open>
  Whatever text is formatted into an error, the reply is a single line: line breaks at the
  ends are cut and the ones inside become spaces, and a text without line breaks is sent as it is,
  with "ERR " in front unless it brings its own error code.
\<close>

lemma error_reply_one_line:
  assumes "reply_laws L" "sds_laws L"
  shows "\<exists>text. emits c (resp_encode (Err text)) (add_reply_error_format L c s) \<and>
    CR \<notin> set text \<and> LF \<notin> set text \<and>
    (NUL \<notin> set s \<and> CR \<notin> set s \<and> LF \<notin> set s \<longrightarrow> text = err_text s)"
  using add_reply_error_format_spec [OF assms, of c s] by auto

text \<open>
  C21. Resetting a client drops exactly one reference of each argument (the ones nobody else holds
  are freed, the shared ones stay), leaves every other object alone, and leaves the client ready
  for the next request.
\<close>

theorem reset_drops_one_reference:
  assumes "object_laws L" "args_of rc as" "counted L h as"
  shows "\<exists>rc' h'. reset_redis_client L rc h = Inr (rc', h') \<and>
    argc rc' = 0 \<and> req_type rc' = 0 \<and> multi_bulk_len rc' = 0 \<and> bulk_len rc' = -1 \<and>
    (\<forall>a. cells h' a = (if a \<in> set as then
        (case cells h a of None \<Rightarrow> None | Some obj \<Rightarrow>
           if refcount obj = 1 then None else Some (obj\<lparr>refcount := refcount obj - 1\<rparr>))
      else cells h a))"
proof -
  have "cells (fold drop_ref as h) a = (if a \<in> set as then
        (case cells h a of None \<Rightarrow> None | Some obj \<Rightarrow>
           if refcount obj = 1 then None else Some (obj\<lparr>refcount := refcount obj - 1\<rparr>))
      else cells h a)" for a
  proof (cases "a \<in> set as")
    case True
    then obtain obj where "cells h a = Some obj" using assms(3) unfolding counted_def by blast
    then show ?thesis using True cells_drop_refs assms(3) unfolding counted_def by simp
  qed (simp add: cells_drop_refs_other)
  then show ?thesis using reset_redis_client_spec [OF assms] by simp
qed

text \<open>
  Scheduling a client for closing puts it on the list once: a second call changes nothing, and
  freeing the client afterwards takes it off again and leaves the rest of the list in order.
\<close>

lemma async_close_once:
  assumes "flag_laws L" "cl_flags (client rc) AND CLIENT_CLOSE_ASAP L = 0" "flag rc AND CLIENT_LUA = 0"
    "self \<notin> set clients" "free_redis_client_async L clients self rc = (clients', rc')"
  shows "clients' = clients @ [self] \<and> free_redis_client_async L clients' self rc' = (clients', rc') \<and>
    free_redis_client L clients' self rc' = Inr clients"
proof -
  have "(x OR CLIENT_CLOSE_ASAP L) AND CLIENT_CLOSE_ASAP L = CLIENT_CLOSE_ASAP L" for x
    by (rule bit_word_eqI) (auto simp: bit_simps)
  moreover have "CLIENT_CLOSE_ASAP L \<noteq> 0" using assms(1) by (simp add: flag_laws_def)
  ultimately show ?thesis using assms(2-5)
    by (auto simp: free_redis_client_async_def free_redis_client_def remove1_append)
qed

section \<open>Witnesses\<close>

definition client_ex :: redis_client where
  "client_ex =
     \<lparr>client = \<lparr>conn = True, querybuf = [], qb_pos = 0, cl_flags = 0, obuf = [],
        reply = [Some \<lparr>bsize = 4, bdata = ''ab''\<rparr>, None, Some \<lparr>bsize = 8, bdata = ''cd''\<rparr>],
        exec_cb = None, start_cb = None, end_cb = None, start_time = 0, read_time = 0, exec_time = 0,
        exec_end_time = 0, write_time = 0, end_time = 0\<rparr>,
      flag = 0, req_type = 0, read_reploff = 0, argc = 2, argv = Argv [Some 0, Some 1], cmd = None, lastcmd = None,
      argv_len_sum = 7, bulk_len = -1, multi_bulk_len = 0, reply_bytes = 12, repl_ack_time = 0, dbid = 0,
      current_decode_time = 0, current_encode_time = 0, current_call_time = 0\<rparr>"

definition heap_ex :: obj_heap where
  "heap_ex = \<lparr>cells = [0 \<mapsto> mk_string_obj ''module'', 1 \<mapsto> (mk_string_obj ''x'')\<lparr>refcount := 2\<rparr>], next_addr = 2\<rparr>"

theorem set_deferred_reply_in_place_witness:
  "\<exists>c'. set_deferred_reply latte_c_ref client_ex (Some 1) ''*123'' = Inr c' \<and>
     client_output (client c') = ''ab*123cd''"
  using set_deferred_reply_in_place [OF sds_laws_ref, of client_ex "[Some \<lparr>bsize = 4, bdata = ''ab''\<rparr>]"
      "[Some \<lparr>bsize = 8, bdata = ''cd''\<rparr>]" "''*123''"]
  by (auto simp: client_ex_def)

theorem add_reply_help_array_witness:
  "\<exists>c'. add_reply_help latte_c_ref heap_ex client_ex [''LIST''] = Inr c' \<and>
     emits client_ex (resp_encode (Array (map Simple (help_lines latte_c_ref ''module'' [''LIST''])))) c'"
proof -
  have "NUL \<notin> set (sds_to_upper latte_c_ref (c_string ''module''))" by code_simp
  moreover have "list_all block_ok (reply (client client_ex))" "argv_get client_ex 0 = Inr 0"
    "cells heap_ex 0 = Some (mk_string_obj ''module'')" "ptr (mk_string_obj ''module'') = Ptr_bytes ''module''"
    by (simp_all add: client_ex_def argv_get_def heap_ex_def mk_string_obj_def)
  ultimately show ?thesis
    using add_reply_help_array [OF latte_c_ref_laws, of client_ex 0 heap_ex _ "''module''" "[''LIST'']"] by auto
qed

theorem reset_drops_one_reference_witness:
  "\<exists>rc' h'. reset_redis_client latte_c_ref client_ex heap_ex = Inr (rc', h') \<and> argc rc' = 0 \<and>
     cells h' 0 = None \<and> cells h' 1 = Some (mk_string_obj ''x'')"
proof -
  have "args_of client_ex [0, 1]" "counted latte_c_ref heap_ex [0, 1]"
    by (auto simp: args_of_def counted_def client_ex_def heap_ex_def mk_string_obj_def latte_c_ref_def)
  from reset_drops_one_reference [OF object_laws_ref this] show ?thesis
    by (auto simp: heap_ex_def mk_string_obj_def)
qed

end
