(* ===== verification/Slowlog.thy ===== *)
theory Slowlog
  imports Client
begin

text \<open>
  The slow log of \<open>src/redis/slowlog.c\<close>: entries with copies of the arguments of a slow command, the
  manager that keeps a bounded list of them, and its trimming. The list library frees an entry it
  deletes with the method set in \<open>slowlog_manager_new\<close>, \<open>slowlog_entry_delete\<close>.
\<close>

section \<open>State\<close>

definition SLOWLOG_ENTRY_MAX_ARGC :: nat where "SLOWLOG_ENTRY_MAX_ARGC = 32"
definition SLOWLOG_ENTRY_MAX_STRING :: nat where "SLOWLOG_ENTRY_MAX_STRING = 128"

record slowlog_entry =
  se_id :: int
  se_time :: int
  all_duration :: int
  decode_duration :: int
  encode_duration :: int
  call_duration :: int
  se_command :: string
  client_name :: "string option"
  client_ip :: string
  se_argv :: "nat list"
  se_argc :: nat

record slowlog_manager =
  entries :: "slowlog_entry list"
  max_len :: int
  time_limit_us :: int
  next_id :: int

section \<open>Operations\<close>

text \<open>
  The object stored for argument \<open>j\<close> of \<open>argc\<close> copied ones: \<open>argc-argc+1\<close> in the source is always 1.
\<close>

definition slowlog_arg :: "latte_c \<Rightarrow> redis_client \<Rightarrow> nat \<Rightarrow> nat \<Rightarrow> obj_heap \<Rightarrow> (obj_heap \<times> nat) res" where
  "slowlog_arg L rc n j h =
     (if argc rc \<noteq> n \<and> j = n - 1 then
        Inr (obj_alloc h (latte_object_new L OBJ_STRING
          (sds_cat_vprintf L (''... ('' @ dec (int n - int n + 1) @ '' more arguments)''))))
      else res_bind (argv_get rc j) (\<lambda>a.
        res_bind (obj_get h a) (\<lambda>obj.
        case (if otype obj = OBJ_STRING \<and> sds_encoded_object L obj then ptr obj else Ptr_other 0) of
          Ptr_bytes s \<Rightarrow>
            if SLOWLOG_ENTRY_MAX_STRING < length s then
              Inr (obj_alloc h (latte_object_new L OBJ_STRING
                (take SLOWLOG_ENTRY_MAX_STRING s @ sds_cat_vprintf L (''... ('' @
                   dec (int (length s) - int SLOWLOG_ENTRY_MAX_STRING) @ '' more bytes)''))))
            else if refcount obj = OBJ_SHARED_REFCOUNT L then Inr (h, a)
            else Inr (obj_alloc h (dup_string_object L obj))
        | _ \<Rightarrow>
            if refcount obj = OBJ_SHARED_REFCOUNT L then Inr (h, a)
            else Inr (obj_alloc h (dup_string_object L obj)))))"

fun slowlog_args :: "latte_c \<Rightarrow> redis_client \<Rightarrow> nat \<Rightarrow> nat \<Rightarrow> nat \<Rightarrow> obj_heap \<Rightarrow> (obj_heap \<times> nat list) res" where
  "slowlog_args L rc n j 0 h = Inr (h, [])"
| "slowlog_args L rc n j (Suc k) h =
     res_bind (slowlog_arg L rc n j h) (\<lambda>(h, a).
     res_bind (slowlog_args L rc n (Suc j) k h) (\<lambda>(h, bs). Inr (h, a # bs)))"

text \<open>How long a command took, a difference of two \<open>long long\<close>.\<close>

definition duration :: "redis_client \<Rightarrow> int" where
  "duration rc = wrap64 (end_time (client rc) - start_time (client rc))"

definition slowlog_entry_new ::
  "latte_c \<Rightarrow> int \<Rightarrow> string option \<Rightarrow> string \<Rightarrow> int \<Rightarrow> redis_client \<Rightarrow> obj_heap \<Rightarrow> (slowlog_entry \<times> obj_heap) res" where
  "slowlog_entry_new L ustime name peer i rc h =
     (case lastcmd rc of
        None \<Rightarrow> Inl (Null_deref ''client->lastcmd->name'')
      | Some c \<Rightarrow>
          let n = (if SLOWLOG_ENTRY_MAX_ARGC < argc rc then SLOWLOG_ENTRY_MAX_ARGC else argc rc) in
          res_bind (slowlog_args L rc n 0 n h) (\<lambda>(h, bs).
          Inr (\<lparr>se_id = i, se_time = ustime,
                all_duration = duration rc,
                decode_duration = current_decode_time rc, encode_duration = current_encode_time rc,
                call_duration = current_call_time rc, se_command = c_string (cmd_name c),
                client_name = name, client_ip = peer, se_argv = bs, se_argc = n\<rparr>, h)))"

fun decr_all :: "latte_c \<Rightarrow> nat list \<Rightarrow> obj_heap \<Rightarrow> obj_heap res" where
  "decr_all L [] h = Inr h"
| "decr_all L (a # as) h = res_bind (latte_object_decr_ref_count L h a) (decr_all L as)"

text \<open>
  The strings of the client and the argument vector are freed, which nothing else sees. The name of the command is a string of the sds
  library (\<open>sds_new\<close> in \<open>slowlog_entry_new\<close>), which starts behind its header; it goes to \<open>zfree\<close> as if it were a block of its own.
\<close>

definition slowlog_entry_delete :: "latte_c \<Rightarrow> slowlog_entry \<Rightarrow> obj_heap \<Rightarrow> obj_heap res" where
  "slowlog_entry_delete L entry h =
     res_bind (decr_all L (take (se_argc entry) (se_argv entry)) h) (\<lambda>_. Inl (Bad_pointer ''zfree(entry->command)''))"

definition slowlog_manager_new :: "int \<Rightarrow> int \<Rightarrow> slowlog_manager" where
  "slowlog_manager_new maxlen limit = \<lparr>entries = [], max_len = maxlen, time_limit_us = limit, next_id = 0\<rparr>"

definition slowlog_manager_set_time_limit_us :: "slowlog_manager \<Rightarrow> int \<Rightarrow> slowlog_manager" where
  "slowlog_manager_set_time_limit_us m limit = m\<lparr>time_limit_us := limit\<rparr>"

text \<open>
  \<open>list_length(entries) > max_len\<close> compares an unsigned with a signed number: a negative limit
  counts as a huge one.
\<close>

definition too_long :: "slowlog_entry list \<Rightarrow> int \<Rightarrow> bool" where
  "too_long es limit \<longleftrightarrow> 0 \<le> limit \<and> limit < int (length es)"

function slowlog_trim ::
  "latte_c \<Rightarrow> int \<Rightarrow> slowlog_entry list \<Rightarrow> obj_heap \<Rightarrow> (slowlog_entry list \<times> obj_heap) res" where
  "slowlog_trim L limit es h =
     (if too_long es limit then
        res_bind (slowlog_entry_delete L (last es) h) (\<lambda>h. slowlog_trim L limit (butlast es) h)
      else Inr (es, h))"
  by pat_completeness auto
termination
  by (relation "measure (\<lambda>(L, limit, es, h). length es)") (auto simp: too_long_def)

declare slowlog_trim.simps [simp del]

definition slowlog_manager_set_max_len ::
  "latte_c \<Rightarrow> slowlog_manager \<Rightarrow> int \<Rightarrow> obj_heap \<Rightarrow> (slowlog_manager \<times> obj_heap) res" where
  "slowlog_manager_set_max_len L m limit h =
     res_bind (slowlog_trim L limit (entries m) h) (\<lambda>(es, h).
     Inr (m\<lparr>max_len := limit, entries := es\<rparr>, h))"

definition slowlog_manager_push_if_needed ::
  "latte_c \<Rightarrow> int \<Rightarrow> string option \<Rightarrow> string \<Rightarrow> slowlog_manager \<Rightarrow> redis_client \<Rightarrow> obj_heap
     \<Rightarrow> (slowlog_manager \<times> obj_heap) res" where
  "slowlog_manager_push_if_needed L ustime name peer m rc h =
     (if max_len m < 0 \<or> time_limit_us m < 0 then Inr (m, h)
      else res_bind
        (if time_limit_us m < duration rc then
           res_bind (slowlog_entry_new L ustime name peer (next_id m) rc h) (\<lambda>(entry, h).
           Inr (m\<lparr>next_id := wrap64 (next_id m + 1), entries := entries m @ [entry]\<rparr>, h))
         else Inr (m, h)) (\<lambda>(m, h).
        res_bind (slowlog_trim L (max_len m) (entries m) h) (\<lambda>(es, h).
        Inr (m\<lparr>entries := es\<rparr>, h))))"

section \<open>The copies\<close>

text \<open>What is kept of an argument, and of an argument vector.\<close>

definition slow_text :: "string \<Rightarrow> string" where
  "slow_text s =
     (if SLOWLOG_ENTRY_MAX_STRING < length s then
        take SLOWLOG_ENTRY_MAX_STRING s @ ''... ('' @ dec (int (length s) - 128) @ '' more bytes)''
      else s)"

definition slow_texts :: "string list \<Rightarrow> string list" where
  "slow_texts ss =
     (if SLOWLOG_ENTRY_MAX_ARGC < length ss then
        map slow_text (take (SLOWLOG_ENTRY_MAX_ARGC - 1) ss) @ [''... ('' @ dec 1 @ '' more arguments)'']
      else map slow_text ss)"

text \<open>The arguments are strings nobody shares statically.\<close>

definition arg_texts :: "latte_c \<Rightarrow> obj_heap \<Rightarrow> nat list \<Rightarrow> string list \<Rightarrow> bool" where
  "arg_texts L h as ss \<longleftrightarrow> length as = length ss \<and>
     (\<forall>i<length as. \<exists>obj. cells h (as ! i) = Some obj \<and> string_obj L obj (ss ! i) \<and>
        refcount obj \<noteq> OBJ_SHARED_REFCOUNT L)"

text \<open>New objects, one per text, nothing else touched.\<close>

definition fresh_copies :: "latte_c \<Rightarrow> obj_heap \<Rightarrow> obj_heap \<Rightarrow> nat list \<Rightarrow> string list \<Rightarrow> bool" where
  "fresh_copies L h h' bs ts \<longleftrightarrow> bs = [next_addr h ..< next_addr h + length ts] \<and>
     next_addr h' = next_addr h + length ts \<and>
     (\<forall>i<length ts. \<exists>obj. cells h' (bs ! i) = Some obj \<and> string_obj L obj (ts ! i) \<and> refcount obj = 1) \<and>
     (\<forall>a. a \<notin> set bs \<longrightarrow> cells h' a = cells h a)"

lemma arg_texts_mono:
  "arg_texts L h as ss \<Longrightarrow> (\<And>a. cells h a \<noteq> None \<Longrightarrow> cells h' a = cells h a) \<Longrightarrow> arg_texts L h' as ss"
  unfolding arg_texts_def by (metis option.distinct(1))

lemma slowlog_arg_spec:
  assumes L: "object_laws L" "sds_laws L" and args: "args_of rc as" and texts: "arg_texts L h as ss"
    and n: "n = (if 32 < length as then 32 else length as)" and j: "j < n"
  shows "\<exists>obj. slowlog_arg L rc n j h = Inr (obj_alloc h obj) \<and> refcount obj = 1 \<and> string_obj L obj (slow_texts ss ! j)"
proof -
  have len: "length as = length ss" "argc rc = length as" using texts args by (auto simp: arg_texts_def args_of_def)
  have fmt: "NUL \<notin> set t \<Longrightarrow> sds_cat_vprintf L t = t" for t using L(2) by (simp add: sds_laws_def)
  have new: "string_obj L (latte_object_new L OBJ_STRING t) t" "refcount (latte_object_new L OBJ_STRING t) = 1" for t
    using L(1) by (simp_all add: object_laws_def)
  show ?thesis
  proof (cases "argc rc \<noteq> n \<and> j = n - 1")
    case True
    then have "slow_texts ss ! j = ''... ('' @ dec 1 @ '' more arguments)''"
      using n len by (auto simp: slow_texts_def SLOWLOG_ENTRY_MAX_ARGC_def nth_append split: if_splits)
    then show ?thesis using True new fmt by (auto simp: slowlog_arg_def)
  next
    case False
    have jl: "j < length as" using j n by (auto split: if_splits)
    have stext: "slow_texts ss ! j = slow_text (ss ! j)"
      using False j n len by (auto simp: slow_texts_def SLOWLOG_ENTRY_MAX_ARGC_def nth_append split: if_splits)
    obtain obj where obj: "cells h (as ! j) = Some obj" "string_obj L obj (ss ! j)" "refcount obj \<noteq> OBJ_SHARED_REFCOUNT L"
      using texts jl unfolding arg_texts_def by blast
    have dup: "string_obj L (dup_string_object L obj) (ss ! j)" "refcount (dup_string_object L obj) = 1"
      using L(1) obj(2) unfolding object_laws_def by blast+
    show ?thesis using False obj dup argv_get_args [OF args jl] new fmt
      by (auto simp: slowlog_arg_def stext slow_text_def string_obj_def SLOWLOG_ENTRY_MAX_STRING_def)
  qed
qed

lemma slowlog_args_spec:
  assumes L: "object_laws L" "sds_laws L" and args: "args_of rc as"
    and n: "n = (if 32 < length as then 32 else length as)"
  shows "j + k = n \<Longrightarrow> arg_texts L h as ss \<Longrightarrow> heap_wf h \<Longrightarrow>
    \<exists>h' bs. slowlog_args L rc n j k h = Inr (h', bs) \<and> heap_wf h' \<and>
      fresh_copies L h h' bs (map (\<lambda>i. slow_texts ss ! i) [j ..< n])"
proof (induction k arbitrary: j h)
  case 0
  then show ?case by (simp add: fresh_copies_def)
next
  case (Suc k)
  have "j < n" using Suc.prems by simp
  then obtain obj where obj: "slowlog_arg L rc n j h = Inr (obj_alloc h obj)" "refcount obj = 1"
    "string_obj L obj (slow_texts ss ! j)"
    using slowlog_arg_spec [OF L args Suc.prems(2) n] by blast
  define h1 where "h1 = fst (obj_alloc h obj)"
  have h1: "obj_alloc h obj = (h1, next_addr h)" "next_addr h1 = Suc (next_addr h)" "cells h1 (next_addr h) = Some obj"
    "\<And>a. a \<noteq> next_addr h \<Longrightarrow> cells h1 a = cells h a" by (simp_all add: h1_def obj_alloc_def)
  have wf: "heap_wf h1" using heap_wf_alloc [OF Suc.prems(3)] by (simp add: h1_def)
  have "arg_texts L h1 as ss"
    using arg_texts_mono [OF Suc.prems(2)] h1(4) heap_wf_fresh [OF Suc.prems(3)] by metis
  then obtain h' bs where IH: "slowlog_args L rc n (Suc j) k h1 = Inr (h', bs)" "heap_wf h'"
    "fresh_copies L h1 h' bs (map (\<lambda>i. slow_texts ss ! i) [Suc j ..< n])"
    using Suc.IH [of "Suc j" h1] Suc.prems(1) wf by auto
  let ?ts = "map (\<lambda>i. slow_texts ss ! i) [Suc j ..< n]"
  have up: "[j ..< n] = j # [Suc j ..< n]" using \<open>j < n\<close> by (simp add: upt_conv_Cons)
  have bs: "bs = [Suc (next_addr h) ..< Suc (next_addr h) + length ?ts]" "next_addr h' = Suc (next_addr h) + length ?ts"
    "\<And>i. i < length ?ts \<Longrightarrow> \<exists>obj. cells h' (bs ! i) = Some obj \<and> string_obj L obj (?ts ! i) \<and> refcount obj = 1"
    "\<And>a. a \<notin> set bs \<Longrightarrow> cells h' a = cells h1 a"
    using IH(3) unfolding fresh_copies_def h1(2) by blast+
  have ups: "[next_addr h ..< next_addr h + length ((slow_texts ss ! j) # ?ts)] = next_addr h # bs"
    unfolding bs(1) by (simp add: upt_conv_Cons)
  have notin: "next_addr h \<notin> set bs" unfolding bs(1) set_upt by simp
  have "fresh_copies L h h' (next_addr h # bs) ((slow_texts ss ! j) # ?ts)"
    unfolding fresh_copies_def ups
  proof (intro conjI allI impI)
    fix i assume "i < length ((slow_texts ss ! j) # ?ts)"
    then show "\<exists>obj. cells h' ((next_addr h # bs) ! i) = Some obj \<and> string_obj L obj (((slow_texts ss ! j) # ?ts) ! i) \<and> refcount obj = 1"
      using bs(3) bs(4) [OF notin] obj h1(3) by (cases i) auto
  next
    fix a assume "a \<notin> set (next_addr h # bs)"
    then show "cells h' a = cells h a" using bs(4) h1(4) by simp
  qed (use bs(2) in simp_all)
  then show ?case using obj(1) h1(1) IH(1,2) up by simp
qed

text \<open>Deleting the copies frees them and nothing else.\<close>

lemma decr_all_fresh:
  assumes "object_laws L"
  shows "distinct bs \<Longrightarrow> (\<And>b. b \<in> set bs \<Longrightarrow> \<exists>obj. cells h b = Some obj \<and> refcount obj = 1) \<Longrightarrow>
    \<exists>h'. decr_all L bs h = Inr h' \<and> next_addr h' = next_addr h \<and>
      cells h' = (\<lambda>a. if a \<in> set bs then None else cells h a)"
proof (induction bs arbitrary: h)
  case (Cons b bs)
  then obtain obj where obj: "cells h b = Some obj" "refcount obj = 1" by auto
  then have d: "latte_object_decr_ref_count L h b = Inr (obj_put h b None)" using assms by (simp add: object_laws_def)
  have "\<exists>obj. cells (obj_put h b None) c = Some obj \<and> refcount obj = 1" if "c \<in> set bs" for c
    using Cons.prems that by auto
  then obtain h' where "decr_all L bs (obj_put h b None) = Inr h'" "next_addr h' = next_addr h"
    "cells h' = (\<lambda>a. if a \<in> set bs then None else cells (obj_put h b None) a)"
    using Cons.IH [of "obj_put h b None"] Cons.prems(1) by auto
  then show ?case using d by (auto simp: fun_eq_iff)
qed simp

lemma fresh_copiesD:
  assumes "fresh_copies L h h' bs ts"
  shows "distinct bs" "length bs = length ts" "\<And>b. b \<in> set bs \<Longrightarrow> \<exists>obj. cells h' b = Some obj \<and> refcount obj = 1"
    "\<And>b. b \<in> set bs \<Longrightarrow> next_addr h \<le> b" "\<And>a. a \<notin> set bs \<Longrightarrow> cells h' a = cells h a"
proof -
  show "\<And>a. a \<notin> set bs \<Longrightarrow> cells h' a = cells h a" using assms unfolding fresh_copies_def by blast
  show "distinct bs" and len: "length bs = length ts" and "\<And>b. b \<in> set bs \<Longrightarrow> next_addr h \<le> b"
    using assms by (auto simp: fresh_copies_def)
  fix b assume "b \<in> set bs"
  then obtain i where "i < length ts" "b = bs ! i" using len by (metis in_set_conv_nth)
  then show "\<exists>obj. cells h' b = Some obj \<and> refcount obj = 1" using assms unfolding fresh_copies_def by blast
qed

text \<open>An entry as \<open>slowlog_entry_new\<close> makes it.\<close>

definition entry_for :: "redis_client \<Rightarrow> redis_command \<Rightarrow> int \<Rightarrow> string option \<Rightarrow> string \<Rightarrow> int \<Rightarrow> nat list \<Rightarrow> slowlog_entry" where
  "entry_for rc c t name peer i bs =
     \<lparr>se_id = i, se_time = t, all_duration = duration rc,
      decode_duration = current_decode_time rc, encode_duration = current_encode_time rc,
      call_duration = current_call_time rc, se_command = c_string (cmd_name c),
      client_name = name, client_ip = peer, se_argv = bs, se_argc = length bs\<rparr>"

lemma slowlog_entry_new_spec:
  assumes L: "object_laws L" "sds_laws L" and args: "args_of rc as" and texts: "arg_texts L h as ss"
    and wf: "heap_wf h" and cmd: "lastcmd rc = Some c"
  shows "\<exists>h' bs. slowlog_entry_new L t name peer i rc h = Inr (entry_for rc c t name peer i bs, h') \<and>
    heap_wf h' \<and> fresh_copies L h h' bs (slow_texts ss)"
proof -
  define n where "n = (if 32 < length as then 32 else length as)"
  have len: "length as = length ss" "argc rc = length as" using texts args by (auto simp: arg_texts_def args_of_def)
  have lt: "length (slow_texts ss) = n"
    using len by (auto simp: slow_texts_def SLOWLOG_ENTRY_MAX_ARGC_def n_def)
  obtain h' bs where hb: "slowlog_args L rc n 0 n h = Inr (h', bs)" "heap_wf h'"
    "fresh_copies L h h' bs (map (\<lambda>i. slow_texts ss ! i) [0 ..< n])"
    using slowlog_args_spec [OF L args n_def _ texts wf, of 0 n] by auto
  have "map (\<lambda>i. slow_texts ss ! i) [0 ..< n] = slow_texts ss" using lt map_nth by metis
  then have fc: "fresh_copies L h h' bs (slow_texts ss)" using hb(3) by simp
  then have "length bs = n" using fresh_copiesD(2) lt by metis
  moreover have "(if SLOWLOG_ENTRY_MAX_ARGC < argc rc then SLOWLOG_ENTRY_MAX_ARGC else argc rc) = n"
    using len by (simp add: n_def SLOWLOG_ENTRY_MAX_ARGC_def)
  ultimately have "slowlog_entry_new L t name peer i rc h = Inr (entry_for rc c t name peer i bs, h')"
    using hb(1) cmd by (simp add: slowlog_entry_new_def entry_for_def Let_def)
  then show ?thesis using hb(2) fc by blast
qed

section \<open>Properties\<close>

text \<open>
  C24. A command slower than the limit is logged while there is room: the entry has the next id,
  the durations and the name of the command, and copies of the arguments, cut at 128 bytes each and
  at 32 arguments; the copies are objects of their own.
\<close>

theorem slowlog_keeps_slow_command:
  assumes "object_laws L" "sds_laws L" "args_of rc as" "arg_texts L h as ss" "heap_wf h" "lastcmd rc = Some c"
    "0 \<le> time_limit_us m" "time_limit_us m < duration rc"
    "int (length (entries m)) < max_len m"
  shows "\<exists>h' bs. slowlog_manager_push_if_needed L t name peer m rc h =
      Inr (m\<lparr>next_id := wrap64 (next_id m + 1), entries := entries m @ [entry_for rc c t name peer (next_id m) bs]\<rparr>, h') \<and>
    fresh_copies L h h' bs (slow_texts ss)"
proof -
  obtain h' bs where e: "slowlog_entry_new L t name peer (next_id m) rc h = Inr (entry_for rc c t name peer (next_id m) bs, h')"
    "fresh_copies L h h' bs (slow_texts ss)"
    using slowlog_entry_new_spec [OF assms(1-6)] by blast
  have "slowlog_manager_push_if_needed L t name peer m rc h =
      Inr (m\<lparr>next_id := wrap64 (next_id m + 1), entries := entries m @ [entry_for rc c t name peer (next_id m) bs]\<rparr>, h')"
    using e(1) assms(7-9) by (simp add: slowlog_manager_push_if_needed_def slowlog_trim.simps too_long_def)
  then show ?thesis using e(2) by blast
qed

lemma slowlog_trim_returns:
  "slowlog_trim L limit es h = Inr (es', h') \<longleftrightarrow> \<not> too_long es limit \<and> es' = es \<and> h' = h"
  by (subst slowlog_trim.simps) (auto simp: slowlog_entry_delete_def res_simps)

text \<open>
  C39. A full log does not outlive the next slow command: the new entry is appended at the tail, the trimming takes the same entry off again, and
  \<open>slowlog_entry_delete\<close>, after it has dropped the copies of the arguments, hands the name of the command, a string of the sds library, to \<open>zfree\<close>.
\<close>

theorem slowlog_full_bad_free:
  assumes "object_laws L" "sds_laws L" "args_of rc as" "arg_texts L h as ss" "heap_wf h" "lastcmd rc = Some c"
    "0 \<le> time_limit_us m" "time_limit_us m < duration rc" "int (length (entries m)) = max_len m"
  shows "slowlog_manager_push_if_needed L t name peer m rc h = Inl (Bad_pointer ''zfree(entry->command)'')"
proof -
  obtain h1 bs where e: "slowlog_entry_new L t name peer (next_id m) rc h = Inr (entry_for rc c t name peer (next_id m) bs, h1)"
    "fresh_copies L h h1 bs (slow_texts ss)"
    using slowlog_entry_new_spec [OF assms(1-6)] by blast
  note fc = fresh_copiesD [OF e(2)]
  obtain h2 where "decr_all L bs h1 = Inr h2" using decr_all_fresh [OF assms(1) fc(1,3)] by blast
  then have "slowlog_trim L (max_len m) (entries m @ [entry_for rc c t name peer (next_id m) bs]) h1 = Inl (Bad_pointer ''zfree(entry->command)'')"
    using assms(9) by (subst slowlog_trim.simps) (simp add: too_long_def slowlog_entry_delete_def entry_for_def)
  then show ?thesis using e(1) assms(7-9) by (simp add: slowlog_manager_push_if_needed_def)
qed

text \<open>
  C25. With a maximum and a time limit that are not negative, whatever command is pushed: if the call returns, the list is at most as long as the maximum,
  and it is the old list with at most one entry behind it; no entry is ever dropped.
\<close>

theorem slowlog_bounded:
  assumes "slowlog_manager_push_if_needed L t name peer m rc h = Inr (m', h')" "0 \<le> max_len m" "0 \<le> time_limit_us m"
  shows "int (length (entries m')) \<le> max_len m' \<and> max_len m' = max_len m \<and>
    (\<exists>new. entries m' = entries m @ new \<and> length new \<le> 1 \<and> (new \<noteq> [] \<longrightarrow> time_limit_us m < duration rc))"
proof -
  obtain m1 h1 es where m1: "m1 = m \<or> time_limit_us m < duration rc \<and> (\<exists>e. m1 = m\<lparr>next_id := wrap64 (next_id m + 1), entries := entries m @ [e]\<rparr>)"
    "slowlog_trim L (max_len m1) (entries m1) h1 = Inr (es, h')" "m' = m1\<lparr>entries := es\<rparr>"
    using assms by (auto simp: slowlog_manager_push_if_needed_def res_bind_eq_Inr split: if_splits)
  have "es = entries m1" "\<not> too_long (entries m1) (max_len m1)" using m1(2) by (simp_all add: slowlog_trim_returns)
  then show ?thesis using m1(1,3) assms(2) by (auto simp: too_long_def)
qed

section \<open>Witnesses\<close>

text \<open>A ping with one argument of 130 bytes that took 5000 microseconds.\<close>

definition slow_client :: redis_client where
  "slow_client = client_ex\<lparr>argc := 2, argv := Argv [Some 0, Some 1],
     lastcmd := Some (builtin ''ping'' Ping_command (-2) ''admin''),
     client := (client client_ex)\<lparr>start_time := 0, end_time := 5000\<rparr>\<rparr>"

definition slow_heap :: obj_heap where
  "slow_heap = \<lparr>cells = [0 \<mapsto> mk_string_obj ''ping'', 1 \<mapsto> mk_string_obj (replicate 130 CHR ''x'')], next_addr = 2\<rparr>"

lemma slow_ex:
  "args_of slow_client [0, 1]" "arg_texts latte_c_ref slow_heap [0, 1] [''ping'', replicate 130 CHR ''x'']"
  "heap_wf slow_heap" "lastcmd slow_client = Some (builtin ''ping'' Ping_command (-2) ''admin'')"
  "duration slow_client = 5000"
proof -
  show "arg_texts latte_c_ref slow_heap [0, 1] [''ping'', replicate 130 CHR ''x'']"
    by (auto simp: arg_texts_def slow_heap_def string_obj_def mk_string_obj_def latte_c_ref_def less_Suc_eq)
qed (auto simp: args_of_def slow_client_def heap_wf_def slow_heap_def duration_def wrap64_def split: if_splits)

theorem slowlog_keeps_slow_command_witness:
  "\<exists>h' bs. slowlog_manager_push_if_needed latte_c_ref 9 None ''ip'' (slowlog_manager_new 1 1000) slow_client slow_heap =
      Inr ((slowlog_manager_new 1 1000)\<lparr>next_id := 1,
        entries := [entry_for slow_client (builtin ''ping'' Ping_command (-2) ''admin'') 9 None ''ip'' 0 bs]\<rparr>, h') \<and> length bs = 2"
proof -
  have m: "0 \<le> time_limit_us (slowlog_manager_new 1 1000)"
    "time_limit_us (slowlog_manager_new 1 1000) < duration slow_client"
    "int (length (entries (slowlog_manager_new 1 1000))) < max_len (slowlog_manager_new 1 1000)"
    using slow_ex(5) by (simp_all add: slowlog_manager_new_def)
  obtain h' bs where p: "slowlog_manager_push_if_needed latte_c_ref 9 None ''ip'' (slowlog_manager_new 1 1000) slow_client slow_heap =
      Inr ((slowlog_manager_new 1 1000)\<lparr>next_id := wrap64 (next_id (slowlog_manager_new 1 1000) + 1),
        entries := entries (slowlog_manager_new 1 1000) @
          [entry_for slow_client (builtin ''ping'' Ping_command (-2) ''admin'') 9 None ''ip'' (next_id (slowlog_manager_new 1 1000)) bs]\<rparr>, h')"
    "fresh_copies latte_c_ref slow_heap h' bs (slow_texts [''ping'', replicate 130 CHR ''x''])"
    using slowlog_keeps_slow_command [OF object_laws_ref sds_laws_ref slow_ex(1-4) m] by blast
  have "length bs = 2" using fresh_copiesD(2) [OF p(2)] by (simp add: slow_texts_def SLOWLOG_ENTRY_MAX_ARGC_def)
  then show ?thesis using p(1) by (intro exI [of _ h'] exI [of _ bs]) (simp add: slowlog_manager_new_def wrap64_def)
qed

theorem slowlog_full_bad_free_witness:
  "slowlog_manager_push_if_needed latte_c_ref 9 None ''ip'' (slowlog_manager_new 0 1000) slow_client slow_heap = Inl (Bad_pointer ''zfree(entry->command)'')"
  by (rule slowlog_full_bad_free [OF object_laws_ref sds_laws_ref slow_ex(1-4)]) (simp_all add: slow_ex(5) slowlog_manager_new_def)

theorem slowlog_bounded_witness:
  "\<exists>m' h'. slowlog_manager_push_if_needed latte_c_ref 9 None ''ip'' (slowlog_manager_new 1 1000) slow_client slow_heap = Inr (m', h') \<and>
     length (entries m') \<le> 1"
proof -
  have "\<exists>e h'. slowlog_entry_new latte_c_ref 9 None ''ip'' 0 slow_client slow_heap = Inr (e, h')"
    using slowlog_entry_new_spec [OF object_laws_ref sds_laws_ref slow_ex(1-4)] by blast
  then obtain m' h' where p: "slowlog_manager_push_if_needed latte_c_ref 9 None ''ip'' (slowlog_manager_new 1 1000) slow_client slow_heap = Inr (m', h')"
    using slow_ex(5) by (auto simp: slowlog_manager_push_if_needed_def slowlog_manager_new_def slowlog_trim.simps too_long_def)
  from slowlog_bounded [OF p] have "length (entries m') \<le> 1" by (auto simp: slowlog_manager_new_def)
  with p show ?thesis by blast
qed

end
