(* ===== verification/Metric.thy ===== *)
theory Metric
  imports Latte_C
begin

text \<open>
  Instantaneous metrics of \<open>src/experiment/metric.c\<close>: per name a ring of samples, each the rate
  between two readings of a counter, and their average. Readings and samples are signed 64-bit numbers, with the
  wrap-around of two's complement written out; the number of samples is a \<open>size_t\<close>, the index an \<open>int\<close>.
\<close>

section \<open>State and operations\<close>

definition METRIC_SAMPLES :: nat where "METRIC_SAMPLES = 16"

record metric_entry =
  last_sample_base :: int
  last_sample_value :: int
  midx :: int
  msamples :: "int list"

record metric =
  metrics :: "metric_entry dict"
  nsamples :: nat

text \<open>The number of samples comes in as an \<open>int\<close>.\<close>

definition metric_entry_new :: "int \<Rightarrow> metric_entry" where
  "metric_entry_new samples =
     \<lparr>last_sample_base = 0, last_sample_value = 0, midx = 0,
      msamples = replicate (if samples \<le> 0 then METRIC_SAMPLES else nat samples) 0\<rparr>"

definition metric_new :: "metric_entry dict_ops \<Rightarrow> nat \<Rightarrow> metric" where
  "metric_new Dm samples = \<lparr>metrics = dict_new Dm, nsamples = samples\<rparr>"

text \<open>The rate of one interval: zero when no time has passed; otherwise the wrapped product, divided.\<close>

definition metric_avg :: "metric_entry \<Rightarrow> int \<Rightarrow> int \<Rightarrow> int \<Rightarrow> int" where
  "metric_avg e current_value current_base factor =
     (let base = wrap64 (current_base - last_sample_base e);
          val = wrap64 (current_value - last_sample_value e)
      in if 0 < base then c_quot (wrap64 (val * factor)) base else 0)"

text \<open>The sum of an \<open>int\<close> and 1 is converted to a \<open>size_t\<close> for the remainder, and the remainder back to an \<open>int\<close>.\<close>

definition metric_sample :: "metric \<Rightarrow> metric_entry \<Rightarrow> int \<Rightarrow> int \<Rightarrow> int \<Rightarrow> metric_entry res" where
  "metric_sample m e current_value current_base factor =
     (if 0 < last_sample_base e then
        if midx e < 0 \<or> int (length (msamples e)) \<le> midx e then Inl (Out_of_bounds ''samples[idx]'')
        else if nsamples m = 0 then Inl Div_by_zero
        else Inr (e\<lparr>msamples := (msamples e)[nat (midx e) := metric_avg e current_value current_base factor],
                   midx := wrap32 (wrap32 (midx e + 1) mod 2 ^ 64 mod int (nsamples m))\<rparr>)
      else Inr e)"

text \<open>\<open>metric_entry_new(metric->samples)\<close> converts a \<open>size_t\<close> to an \<open>int\<close>.\<close>

definition metric_track_instantaneous ::
  "metric_entry dict_ops \<Rightarrow> metric \<Rightarrow> string \<Rightarrow> int \<Rightarrow> int \<Rightarrow> int \<Rightarrow> metric res" where
  "metric_track_instantaneous Dm m name current_value current_base factor =
     (case dict_find Dm (metrics m) name of
        Some entry \<Rightarrow>
          (case dict_get_entry_val Dm (metrics m) entry of
             None \<Rightarrow> Inl (Null_deref ''metric_entry'')
           | Some e \<Rightarrow>
               res_bind (metric_sample m e current_value current_base factor) (\<lambda>e.
               Inr (m\<lparr>metrics := dict_set_val Dm (metrics m) entry
                      (e\<lparr>last_sample_base := current_base, last_sample_value := current_value\<rparr>)\<rparr>)))
      | None \<Rightarrow>
          let e = metric_entry_new (wrap32 (int (nsamples m)));
              (d, _) = dict_add Dm (metrics m) (c_string name)
                (e\<lparr>last_sample_base := current_base, last_sample_value := current_value\<rparr>)
          in Inr (m\<lparr>metrics := d\<rparr>))"

fun metric_sum :: "int list \<Rightarrow> nat \<Rightarrow> nat \<Rightarrow> int \<Rightarrow> int res" where
  "metric_sum xs j 0 acc = Inr acc"
| "metric_sum xs j (Suc n) acc =
     (if length xs \<le> j then Inl (Out_of_bounds ''samples[j]'') else metric_sum xs (Suc j) n (wrap64 (acc + xs ! j)))"

text \<open>
  \<open>sum / metric->samples\<close> divides by a \<open>size_t\<close>: the sum is converted to an unsigned number
  first, and the quotient back to a signed one. A name that is not there is a NULL entry, whose
  value is read before the check.
\<close>

definition metric_get_instantaneous :: "metric_entry dict_ops \<Rightarrow> metric \<Rightarrow> string \<Rightarrow> int res" where
  "metric_get_instantaneous Dm m name =
     (case dict_find Dm (metrics m) name of
        None \<Rightarrow> Inl (Null_deref ''dict_get_entry_val(NULL)'')
      | Some entry \<Rightarrow>
          (case dict_get_entry_val Dm (metrics m) entry of
             None \<Rightarrow> Inr (-1)
           | Some e \<Rightarrow>
               res_bind (metric_sum (msamples e) 0 (nsamples m) 0) (\<lambda>sum.
               if nsamples m = 0 then Inl Div_by_zero
               else Inr (wrap64 ((sum mod 2 ^ 64) div int (nsamples m))))))"

section \<open>Invariant\<close>

definition metric_map :: "metric \<Rightarrow> string \<rightharpoonup> metric_entry" where
  "metric_map m k = Option.bind (dict_map (\<lambda>k. k) (metrics m) k) snd"

definition metric_inv :: "metric_entry dict_ops \<Rightarrow> metric \<Rightarrow> bool" where
  "metric_inv Dm m \<longleftrightarrow> dict_laws (\<lambda>k. k) Dm \<and> 0 < nsamples m \<and> nsamples m < 2 ^ 31 \<and> dict_wf (\<lambda>k. k) (metrics m) \<and>
     (\<forall>k e. dict_map (\<lambda>k. k) (metrics m) k = Some e \<longrightarrow> snd e \<noteq> None) \<and>
     (\<forall>k e. metric_map m k = Some e \<longrightarrow> length (msamples e) = nsamples m \<and> 0 \<le> midx e \<and> midx e < int (nsamples m))"

lemma metric_lookup:
  assumes "metric_inv Dm m"
  shows "dict_map (\<lambda>k. k) (metrics m) k = map_option (\<lambda>e. (k, Some e)) (metric_map m k)"
    "dict_find Dm (metrics m) k = map_option (\<lambda>_. k) (metric_map m k)"
    "metric_map m k = Some e \<Longrightarrow> dict_get_entry_val Dm (metrics m) k = Some e"
proof -
  show m: "dict_map (\<lambda>k. k) (metrics m) k = map_option (\<lambda>e. (k, Some e)) (metric_map m k)"
  proof (cases "dict_map (\<lambda>k. k) (metrics m) k")
    case (Some x)
    then have "snd x \<noteq> None" "fst x = k" using assms dict_map_canon [of "\<lambda>k. k"] unfolding metric_inv_def by metis+
    then show ?thesis using Some by (cases x) (auto simp: metric_map_def)
  qed (simp add: metric_map_def)
  have D: "dict_laws (\<lambda>k. k) Dm" "dict_wf (\<lambda>k. k) (metrics m)" using assms by (simp_all add: metric_inv_def)
  show "dict_find Dm (metrics m) k = map_option (\<lambda>_. k) (metric_map m k)"
    by (simp add: dict_laws_find [OF D] m option.map_comp comp_def)
  show "metric_map m k = Some e \<Longrightarrow> dict_get_entry_val Dm (metrics m) k = Some e"
    using dict_laws_get [OF D, of k "Some e"] m by simp
qed

text \<open>What a reading does to the entry of its name; the first one only makes the entry.\<close>

definition track_entry :: "nat \<Rightarrow> metric_entry option \<Rightarrow> int \<Rightarrow> int \<Rightarrow> int \<Rightarrow> metric_entry" where
  "track_entry n old val base factor =
     (case old of
        None \<Rightarrow> (metric_entry_new (int n))\<lparr>last_sample_base := base, last_sample_value := val\<rparr>
      | Some e \<Rightarrow>
          (if 0 < last_sample_base e
           then e\<lparr>msamples := (msamples e)[nat (midx e) := metric_avg e val base factor], midx := (midx e + 1) mod int n\<rparr>
           else e)\<lparr>last_sample_base := base, last_sample_value := val\<rparr>)"

lemma metric_inv_update:
  assumes "metric_inv Dm m" "dict_wf (\<lambda>k. k) d" "dict_map (\<lambda>k. k) d = (dict_map (\<lambda>k. k) (metrics m))(k \<mapsto> (k, Some e))"
    "length (msamples e) = nsamples m" "0 \<le> midx e" "midx e < int (nsamples m)"
  shows "metric_inv Dm (m\<lparr>metrics := d\<rparr>)" "metric_map (m\<lparr>metrics := d\<rparr>) = (metric_map m)(k \<mapsto> e)"
proof -
  show map: "metric_map (m\<lparr>metrics := d\<rparr>) = (metric_map m)(k \<mapsto> e)"
    using assms(3) by (auto simp: metric_map_def fun_eq_iff)
  show "metric_inv Dm (m\<lparr>metrics := d\<rparr>)"
    using assms map unfolding metric_inv_def by (auto split: if_splits)
qed

lemma track_entry_shape:
  assumes "0 < n" "\<And>e. old = Some e \<Longrightarrow> length (msamples e) = n \<and> 0 \<le> midx e \<and> midx e < int n"
  shows "length (msamples (track_entry n old v b f)) = n" "0 \<le> midx (track_entry n old v b f)" "midx (track_entry n old v b f) < int n"
  using assms by (auto simp: track_entry_def metric_entry_new_def split: option.splits)

lemma next_index:
  assumes "n < 2 ^ 31" "0 \<le> i" "i < int n"
  shows "wrap32 (wrap32 (i + 1) mod 2 ^ 64 mod int n) = (i + 1) mod int n"
proof -
  have m: "0 \<le> (i + 1) mod int n" "(i + 1) mod int n < 2 ^ 31" using assms less_trans [OF pos_mod_bound [of "int n" "i + 1"], of "2 ^ 31"] by simp_all
  have "wrap32 (i + 1) mod 2 ^ 64 = i + 1" using assms by (simp add: wrap32_small)
  then show ?thesis using wrap32_small [of "(i + 1) mod int n"] m by simp
qed

lemma metric_track_spec:
  assumes inv: "metric_inv Dm m" and n: "NUL \<notin> set k"
  shows "\<exists>m'. metric_track_instantaneous Dm m k v b f = Inr m' \<and> metric_inv Dm m' \<and> nsamples m' = nsamples m \<and>
    metric_map m' = (metric_map m)(k \<mapsto> track_entry (nsamples m) (metric_map m k) v b f)"
proof -
  have D: "dict_laws (\<lambda>k. k) Dm" "dict_wf (\<lambda>k. k) (metrics m)" and pos: "0 < nsamples m" and n31: "nsamples m < 2 ^ 31"
    and ok: "\<And>e. metric_map m k = Some e \<Longrightarrow> length (msamples e) = nsamples m \<and> 0 \<le> midx e \<and> midx e < int (nsamples m)"
    using inv by (auto simp: metric_inv_def)
  let ?e = "track_entry (nsamples m) (metric_map m k) v b f"
  note shape = track_entry_shape [OF pos ok]
  note look = metric_lookup [OF inv, of k]
  show ?thesis
  proof (cases "metric_map m k")
    case None
    then have "dict_map (\<lambda>k. k) (metrics m) k = None" using look(1) by simp
    then obtain d where d: "dict_add Dm (metrics m) k ?e = (d, True)" "dict_wf (\<lambda>k. k) d"
      "dict_map (\<lambda>k. k) d = (dict_map (\<lambda>k. k) (metrics m))(k \<mapsto> (k, Some ?e))"
      using dict_laws_add_new [OF D] by metis
    have "metric_track_instantaneous Dm m k v b f = Inr (m\<lparr>metrics := d\<rparr>)"
      using None look(2) d(1) n n31 by (simp add: metric_track_instantaneous_def track_entry_def wrap32_small)
    then show ?thesis using metric_inv_update [OF inv d(2,3) shape] by auto
  next
    case (Some e)
    let ?d = "dict_set_val Dm (metrics m) k ?e"
    have d: "dict_wf (\<lambda>k. k) ?d" "dict_map (\<lambda>k. k) ?d = (dict_map (\<lambda>k. k) (metrics m))(k \<mapsto> (k, Some ?e))"
      using dict_laws_set_val [OF D, of k "Some e" ?e] look(1) Some by simp_all
    have "metric_track_instantaneous Dm m k v b f = Inr (m\<lparr>metrics := ?d\<rparr>)"
      using Some look(2,3) ok [OF Some] pos next_index [OF n31, of "midx e"]
      by (auto simp: metric_track_instantaneous_def metric_sample_def track_entry_def)
    then show ?thesis using metric_inv_update [OF inv d shape] by auto
  qed
qed

lemma metric_sum_total: "j + n \<le> length xs \<Longrightarrow> \<exists>s. metric_sum xs j n acc = Inr s"
  by (induction xs j n acc rule: metric_sum.induct) auto

lemma metric_sum_exact:
  assumes "\<forall>x\<in>set xs. 0 \<le> x"
  shows "j + n = length xs \<Longrightarrow> 0 \<le> acc \<Longrightarrow> acc + sum_list (drop j xs) \<le> llong_max \<Longrightarrow>
    metric_sum xs j n acc = Inr (acc + sum_list (drop j xs))"
proof (induction n arbitrary: j acc)
  case (Suc n)
  have j: "j < length xs" "drop j xs = xs ! j # drop (Suc j) xs" using Suc.prems by (simp_all add: Cons_nth_drop_Suc)
  have "0 \<le> xs ! j" using assms j(1) by simp
  moreover have "0 \<le> sum_list (drop (Suc j) xs)"
    using assms by (intro sum_list_nonneg) (auto dest: in_set_dropD)
  ultimately have "wrap64 (acc + xs ! j) = acc + xs ! j" "acc + xs ! j + sum_list (drop (Suc j) xs) \<le> llong_max" "0 \<le> acc + xs ! j"
    using Suc.prems j(2) by (auto intro!: wrap64_id)
  then show ?case using Suc.IH [of "Suc j" "acc + xs ! j"] Suc.prems(1) j by simp
qed simp

section \<open>Properties\<close>

text \<open>The samples of a run of readings: the first reading makes none.\<close>

definition metric_read :: "metric_entry dict_ops \<Rightarrow> string \<Rightarrow> int \<Rightarrow> int \<times> int \<Rightarrow> metric res \<Rightarrow> metric res" where
  "metric_read Dm k f vb rm = res_bind rm (\<lambda>m. metric_track_instantaneous Dm m k (fst vb) (snd vb) f)"

text \<open>
  C36. With a number of samples that is positive and fits an \<open>int\<close>, however many readings are tracked under however many names without a NUL byte, no write leaves the ring of
  samples: the calls never fail, every ring keeps its length and every index stays inside it.
\<close>

theorem metric_index_in_ring:
  assumes "dict_laws (\<lambda>k. k) Dm" "0 < n" "n < 2 ^ 31" "list_all (\<lambda>(k, v, b, f). NUL \<notin> set k) calls"
  shows "\<exists>m. fold (\<lambda>(k, v, b, f) rm. metric_read Dm k f (v, b) rm) calls (Inr (metric_new Dm n)) = Inr m \<and>
    nsamples m = n \<and> (\<forall>k e. metric_map m k = Some e \<longrightarrow> length (msamples e) = n \<and> 0 \<le> midx e \<and> midx e < int n)"
proof -
  have "\<exists>m'. fold (\<lambda>(k, v, b, f) rm. metric_read Dm k f (v, b) rm) calls (Inr m) = Inr m' \<and>
    metric_inv Dm m' \<and> nsamples m' = n" if "metric_inv Dm m" "nsamples m = n" for m
    using that assms(4)
  proof (induction calls arbitrary: m)
    case (Cons c calls)
    obtain k v b f where c: "c = (k, v, b, f)" by (cases c)
    obtain m1 where "metric_track_instantaneous Dm m k v b f = Inr m1" "metric_inv Dm m1" "nsamples m1 = n"
      using metric_track_spec [OF Cons.prems(1), of k v b f] Cons.prems(2,3) c by auto
    then show ?case using Cons.IH [of m1] Cons.prems(3) c by (simp add: metric_read_def)
  qed auto
  moreover have "metric_inv Dm (metric_new Dm n)" "nsamples (metric_new Dm n) = n"
    using assms(1-3) by (simp_all add: metric_inv_def metric_new_def metric_map_def dict_laws_new)
  ultimately obtain m where "fold (\<lambda>(k, v, b, f) rm. metric_read Dm k f (v, b) rm) calls (Inr (metric_new Dm n)) = Inr m"
    "metric_inv Dm m" "nsamples m = n" by blast
  then show ?thesis by (auto simp: metric_inv_def)
qed

text \<open>
  Asking for a metric nobody has tracked is a read through a NULL entry: the check for a missing
  entry comes after the entry's value has been read.
\<close>

lemma metric_missing_name:
  assumes "metric_inv Dm m"
  shows "metric_get_instantaneous Dm m k = Inl (Null_deref ''dict_get_entry_val(NULL)'') \<longleftrightarrow> metric_map m k = None"
proof (cases "metric_map m k")
  case None
  then show ?thesis using metric_lookup(2) [OF assms, of k] by (simp add: metric_get_instantaneous_def)
next
  case (Some e)
  have "length (msamples e) = nsamples m" using assms Some by (simp add: metric_inv_def)
  then have "\<exists>s. metric_sum (msamples e) 0 (nsamples m) 0 = Inr s" by (simp add: metric_sum_total)
  then show ?thesis using Some metric_lookup(2,3) [OF assms, of k]
    by (auto simp: metric_get_instantaneous_def split: if_splits)
qed

text \<open>
  For samples that are not negative and whose sum fits, the value reported for a tracked name is
  the average of its ring, rounded down.
\<close>

lemma metric_average_of_ring:
  assumes "metric_inv Dm m" "metric_map m k = Some e" "\<forall>x\<in>set (msamples e). 0 \<le> x" "sum_list (msamples e) \<le> llong_max"
  shows "metric_get_instantaneous Dm m k = Inr (sum_list (msamples e) div int (nsamples m))"
proof -
  have len: "length (msamples e) = nsamples m" "0 < nsamples m" using assms(1,2) by (simp_all add: metric_inv_def)
  have s: "metric_sum (msamples e) 0 (nsamples m) 0 = Inr (sum_list (msamples e))"
    using metric_sum_exact [OF assms(3), of 0 "nsamples m" 0] len assms(4) by simp
  have pos: "0 \<le> sum_list (msamples e)" using assms(3) by (intro sum_list_nonneg) auto
  then have "sum_list (msamples e) mod 2 ^ 64 = sum_list (msamples e)" using assms(4) by simp
  moreover have "sum_list (msamples e) div int (nsamples m) \<le> sum_list (msamples e)"
    using pos len(2) zdiv_mono2 [of "sum_list (msamples e)" 1 "int (nsamples m)"] by simp
  moreover have "0 \<le> sum_list (msamples e) div int (nsamples m)" using pos len(2) by (simp add: pos_imp_zdiv_nonneg_iff)
  ultimately have "wrap64 (sum_list (msamples e) div int (nsamples m)) = sum_list (msamples e) div int (nsamples m)"
    "sum_list (msamples e) mod 2 ^ 64 = sum_list (msamples e)"
    using assms(4) by (auto intro!: wrap64_id)
  then show ?thesis using s assms(2) metric_lookup(2,3) [OF assms(1), of k] len(2)
    by (simp add: metric_get_instantaneous_def)
qed

section \<open>Witnesses\<close>

definition Dm0 :: "metric_entry dict_ops" where
  "Dm0 = dict_ref (\<lambda>k. k)"

lemma Dm0_laws: "dict_laws (\<lambda>k. k) Dm0"
  unfolding Dm0_def by (rule dict_ref_laws)

definition metric_ex :: metric where
  "metric_ex = \<lparr>metrics = [(''qps'', Some \<lparr>last_sample_base = 30, last_sample_value = 90, midx = 1, msamples = [3, 2]\<rparr>)], nsamples = 2\<rparr>"

lemma metric_ex_inv: "metric_inv Dm0 metric_ex"
  "metric_map metric_ex ''qps'' = Some \<lparr>last_sample_base = 30, last_sample_value = 90, midx = 1, msamples = [3, 2]\<rparr>"
  using Dm0_laws by (auto simp: metric_inv_def metric_ex_def metric_map_def split: if_splits)

theorem metric_index_in_ring_witness:
  "\<exists>m. fold (\<lambda>(k, v, b, f) rm. metric_read Dm0 k f (v, b) rm) [(''qps'', 0, 10, 1000), (''qps'', 5, 20, 1000)]
     (Inr (metric_new Dm0 16)) = Inr m \<and> nsamples m = 16"
  using metric_index_in_ring [OF Dm0_laws, of 16 "[(''qps'', 0, 10, 1000), (''qps'', 5, 20, 1000)]"] by auto

end
