(* ===== verification/Server.thy ===== *)
theory Server
  imports Db Slowlog Metric
begin

text \<open>
  The server's state (\<open>redis_server_t\<close> of \<open>src/redis/server.h\<close>) with the libraries and the operating
  system it runs on, the module interface of \<open>src/redis/module.c\<close>, and the module the repository
  ships: the string commands of \<open>src/modules/string.c\<close>, loaded by \<open>src/modules/latte.c\<close>, and the demo
  of \<open>src/module_demo/hello.c\<close>.
\<close>

section \<open>State\<close>

record redis_module =
  mod_name :: string
  ver :: int
  apiver :: int

text \<open>The functions of the module interface, in the order they are registered.\<close>

datatype api_func = Api_malloc | Api_calloc | Api_realloc | Api_free | Api_create_command | Api_is_module_name_busy
  | Api_get_api | Api_set_module_attribs | Api_reply_with_simple_string | Api_lookup_key | Api_object_incr_count
  | Api_object_decr_count | Api_db_add | Api_db_entry_get_value | Api_db_entry_set_value | Api_object_is_string
  | Api_reply_with_wrong_type_error | Api_reply_with_null | Api_reply_with_object

record redis_server = lru_state +
  heap :: obj_heap
  cmd_manager :: command_manager
  clients_to_close :: "nat list"
  current_client :: "nat option"
  modules :: "redis_module dict"
  module_api :: "api_func dict"
  proto_max_bulk_len :: int
  dbs :: "redis_db list"
  slowlog :: slowlog_manager
  server_metric :: metric
  metric_stat_numcommands :: int

text \<open>
  What the server runs on: the library, the dictionaries by type of value, the radix tree, and what
  the dynamic loader finds under a path (\<open>stat\<close>, \<open>dlopen\<close> and \<open>dlsym\<close>).
\<close>

datatype onload_func = Onload_latte | Onload_hello

datatype module_file = File_not_executable | File_not_loadable | File_without_onload | File_onload onload_func

record sys =
  lib :: latte_c
  key_dict :: "nat dict_ops"
  expire_dict :: "int dict_ops"
  command_dict :: "redis_command dict_ops"
  module_dict :: "redis_module dict_ops"
  api_dict :: "api_func dict_ops"
  metric_dict :: "metric_entry dict_ops"
  rax_lib :: rax_ops
  module_file_at :: "string \<Rightarrow> module_file"

definition sys_laws :: "sys \<Rightarrow> bool" where
  "sys_laws S \<longleftrightarrow> latte_c_laws (lib S) \<and> dict_laws (\<lambda>k. k) (key_dict S) \<and> dict_laws (\<lambda>k. k) (expire_dict S) \<and>
     dict_laws (map to_lower) (command_dict S) \<and> dict_laws (map to_lower) (module_dict S) \<and>
     dict_laws (\<lambda>k. k) (api_dict S) \<and> dict_laws (\<lambda>k. k) (metric_dict S) \<and> rax_laws (rax_lib S)"

definition db_get :: "redis_server \<Rightarrow> nat \<Rightarrow> redis_db res" where
  "db_get srv i = (if i < length (dbs srv) then Inr (dbs srv ! i) else Inl (Out_of_bounds ''server->dbs''))"

definition db_put :: "redis_server \<Rightarrow> nat \<Rightarrow> redis_db \<Rightarrow> redis_server" where
  "db_put srv i db = srv\<lparr>dbs := (dbs srv)[i := db]\<rparr>"

section \<open>The module interface\<close>

text \<open>\<open>module_register_core_api\<close> and the lookup by name that modules resolve their function pointers with.\<close>

definition core_api :: "(string \<times> api_func) list" where
  "core_api =
     [(''malloc'', Api_malloc), (''calloc'', Api_calloc), (''realloc'', Api_realloc), (''free'', Api_free),
      (''create_command'', Api_create_command), (''is_module_name_busy'', Api_is_module_name_busy),
      (''get_api'', Api_get_api), (''set_module_attribs'', Api_set_module_attribs),
      (''reply_with_simple_string'', Api_reply_with_simple_string), (''lookup_key'', Api_lookup_key),
      (''object_incr_count'', Api_object_incr_count), (''object_decr_count'', Api_object_decr_count),
      (''db_add'', Api_db_add), (''db_entry_get_value'', Api_db_entry_get_value),
      (''db_entry_set_value'', Api_db_entry_set_value), (''object_is_string'', Api_object_is_string),
      (''reply_with_wrong_type_error'', Api_reply_with_wrong_type_error), (''reply_with_null'', Api_reply_with_null),
      (''reply_with_object'', Api_reply_with_object)]"

definition module_register_api :: "sys \<Rightarrow> redis_server \<Rightarrow> string \<Rightarrow> api_func \<Rightarrow> redis_server" where
  "module_register_api S srv funname f =
     srv\<lparr>module_api := fst (dict_add (api_dict S) (module_api srv) (''redis_module_'' @ funname) f)\<rparr>"

definition module_register_core_api :: "sys \<Rightarrow> redis_server \<Rightarrow> redis_server" where
  "module_register_core_api S srv =
     fold (\<lambda>(n, f) srv. module_register_api S srv n f) core_api (srv\<lparr>module_api := dict_new (api_dict S)\<rparr>)"

definition redis_module_use_get_api :: "sys \<Rightarrow> redis_server \<Rightarrow> string \<Rightarrow> api_func option" where
  "redis_module_use_get_api S srv funcname =
     (case dict_find (api_dict S) (module_api srv) funcname of
        None \<Rightarrow> None
      | Some he \<Rightarrow> dict_get_entry_val (api_dict S) (module_api srv) he)"

text \<open>The \<open>else break\<close> of the source is the result \<open>None\<close>, the -1 of the function.\<close>

fun flags_of_tokens :: "string list \<Rightarrow> 64 word \<Rightarrow> 64 word option" where
  "flags_of_tokens [] flags = Some flags"
| "flags_of_tokens (t # ts) flags =
     (if strcase_eq t ''write'' then flags_of_tokens ts (flags OR CMD_WRITE)
      else if strcase_eq t ''readonly'' then flags_of_tokens ts (flags OR CMD_READONLY)
      else if strcase_eq t ''admin'' then flags_of_tokens ts (flags OR CMD_ADMIN)
      else if strcase_eq t ''deny-oom'' then flags_of_tokens ts (flags OR CMD_DENYOOM)
      else if strcase_eq t ''deny-script'' then flags_of_tokens ts (flags OR CMD_NOSCRIPT)
      else if strcase_eq t ''allow-loading'' then flags_of_tokens ts (flags OR CMD_LOADING)
      else if strcase_eq t ''pubsub'' then flags_of_tokens ts (flags OR CMD_PUBSUB)
      else if strcase_eq t ''random'' then flags_of_tokens ts (flags OR CMD_RANDOM)
      else if strcase_eq t ''allow-stale'' then flags_of_tokens ts (flags OR CMD_STALE)
      else if strcase_eq t ''no-monitor'' then flags_of_tokens ts (flags OR CMD_SKIP_MONITOR)
      else if strcase_eq t ''no-slowlog'' then flags_of_tokens ts (flags OR CMD_SKIP_SLOWLOG)
      else if strcase_eq t ''fast'' then flags_of_tokens ts (flags OR CMD_FAST)
      else if strcase_eq t ''no-auth'' then flags_of_tokens ts (flags OR CMD_NO_AUTH)
      else if strcase_eq t ''may-replicate'' then flags_of_tokens ts (flags OR CMD_MAY_REPLICATE)
      else if strcase_eq t ''getkeys-api'' then flags_of_tokens ts (flags OR CMD_MODULE_GETKEYS)
      else if strcase_eq t ''no-cluster'' then flags_of_tokens ts (flags OR CMD_MODULE_NO_CLUSTER)
      else if strcase_eq t ''swap-nop'' then flags_of_tokens ts flags
      else if strcase_eq t ''swap-get'' then flags_of_tokens ts flags
      else if strcase_eq t ''swap-put'' then flags_of_tokens ts flags
      else if strcase_eq t ''swap-del'' then flags_of_tokens ts flags
      else None)"

definition command_flags_from_string :: "latte_c \<Rightarrow> string \<Rightarrow> 64 word option" where
  "command_flags_from_string L s = flags_of_tokens (sds_split_len L (c_string s) CHR '' '') 0"

text \<open>
  The command made for a module: the fields the function leaves unset (\<open>sflags\<close>, \<open>intention_flags\<close>)
  are never read. The result is whether it returned 0.
\<close>

definition redis_module_use_create_command ::
  "sys \<Rightarrow> redis_server \<Rightarrow> redis_module \<Rightarrow> string \<Rightarrow> module_func \<Rightarrow> string \<Rightarrow> int \<Rightarrow> int \<Rightarrow> int \<Rightarrow> redis_server \<times> bool" where
  "redis_module_use_create_command S srv m name cmdfunc strflags fk lk st =
     (case command_flags_from_string (lib S) strflags of
        None \<Rightarrow> (srv, False)
      | Some flags \<Rightarrow>
          let cmdname = c_string name in
          if command_manager_lookup (command_dict S) (cmd_manager srv) cmdname \<noteq> None then (srv, False)
          else
            let cmd = \<lparr>cmd_name = cmdname, cmd_proc = Redis_module_command_dispatcher, arity = -1, sflags = [],
                  cmd_flags = flags OR CMD_MODULE,
                  get_keys_proc = Some \<lparr>cp_module = mod_name m, cp_func = cmdfunc\<rparr>,
                  intention = 0, firstkey = fk, lastkey = lk, keystep = st, microseconds = 0, calls = 0,
                  rejected_calls = 0, failed_calls = 0, cmd_id = 0\<rparr>;
                (cm, _) = command_manager_register_command (lib S) (rax_lib S) (command_dict S) (cmd_manager srv) cmd
            in (srv\<lparr>cmd_manager := cm\<rparr>, True))"

definition redis_module_use_is_module_name_busy :: "sys \<Rightarrow> redis_server \<Rightarrow> string \<Rightarrow> bool" where
  "redis_module_use_is_module_name_busy S srv name =
     (dict_find (module_dict S) (modules srv) (c_string name) \<noteq> None)"

definition redis_module_use_set_module_attribs :: "redis_module option \<Rightarrow> string \<Rightarrow> int \<Rightarrow> int \<Rightarrow> redis_module option" where
  "redis_module_use_set_module_attribs m name v apiv =
     (case m of
        Some m \<Rightarrow> Some m
      | None \<Rightarrow> Some \<lparr>mod_name = c_string name, ver = v, apiver = apiv\<rparr>)"

subsection \<open>What a module command can call\<close>

definition redis_module_use_reply_with_simple_string :: "latte_c \<Rightarrow> redis_client \<Rightarrow> string \<Rightarrow> redis_client" where
  "redis_module_use_reply_with_simple_string L c msg =
     reply_proto L (reply_proto L (reply_proto L c ''+'') (c_string msg)) crlf"

definition redis_module_use_reply_with_wrong_type_error :: "latte_c \<Rightarrow> redis_client \<Rightarrow> redis_client res" where
  "redis_module_use_reply_with_wrong_type_error L c = add_reply L c (sh_wrongtypeerr (init_shared_objects L))"

definition redis_module_use_reply_with_null :: "latte_c \<Rightarrow> redis_client \<Rightarrow> redis_client" where
  "redis_module_use_reply_with_null L c = reply_proto L c (''*-1'' @ crlf)"

definition redis_module_use_reply_with_object :: "latte_c \<Rightarrow> redis_client \<Rightarrow> latte_object \<Rightarrow> redis_client res" where
  "redis_module_use_reply_with_object L c obj = add_reply_bulk L (init_shared_objects L) c obj"

text \<open>An entry of the keyspace is its stored key, in the database of the client.\<close>

definition redis_module_use_lookup_key ::
  "sys \<Rightarrow> int \<Rightarrow> redis_server \<Rightarrow> redis_client \<Rightarrow> nat \<Rightarrow> (redis_server \<times> string option) res" where
  "redis_module_use_lookup_key S now srv c key =
     res_bind (obj_get (heap srv) key) (\<lambda>key_obj.
     if otype key_obj \<noteq> OBJ_STRING then Inr (srv, None)
     else case ptr key_obj of
       Ptr_bytes bytes \<Rightarrow>
         let key_sds = take (string_object_len (lib S) key_obj) bytes in
         res_bind (db_get srv (dbid c)) (\<lambda>db.
         res_bind (expire_if_needed (lib S) (key_dict S) (expire_dict S) now db (heap srv) key_sds) (\<lambda>(db, h, expired).
         let srv = (db_put srv (dbid c) db)\<lparr>heap := h\<rparr> in
         if expired then Inr (srv, None)
         else res_bind (kv_store_dict_find (key_dict S) (keys db) (get_kv_store_index_for_key key_sds) key_sds)
           (\<lambda>ret. Inr (srv, ret))))
     | _ \<Rightarrow> Inl (Null_deref ''sds_new_len(key->ptr)''))"

definition redis_module_use_object_incr_count :: "sys \<Rightarrow> redis_server \<Rightarrow> nat \<Rightarrow> redis_server res" where
  "redis_module_use_object_incr_count S srv obj =
     res_bind (latte_object_incr_ref_count (lib S) (heap srv) obj) (\<lambda>h. Inr (srv\<lparr>heap := h\<rparr>))"

definition redis_module_use_object_decr_count :: "sys \<Rightarrow> redis_server \<Rightarrow> nat \<Rightarrow> redis_server res" where
  "redis_module_use_object_decr_count S srv obj =
     res_bind (latte_object_decr_ref_count (lib S) (heap srv) obj) (\<lambda>h. Inr (srv\<lparr>heap := h\<rparr>))"

definition redis_module_use_db_add ::
  "sys \<Rightarrow> int \<Rightarrow> redis_server \<Rightarrow> redis_client \<Rightarrow> nat \<Rightarrow> nat \<Rightarrow> (redis_server \<times> int) res" where
  "redis_module_use_db_add S now srv c key val =
     res_bind (db_get srv (dbid c)) (\<lambda>db.
     res_bind (db_add_key_value (lib S) (key_dict S) now srv db (heap srv) key val) (\<lambda>(db, h, r).
     Inr ((db_put srv (dbid c) db)\<lparr>heap := h\<rparr>, r)))"

definition redis_module_use_db_entry_get_value ::
  "sys \<Rightarrow> redis_server \<Rightarrow> redis_client \<Rightarrow> string \<Rightarrow> nat option res" where
  "redis_module_use_db_entry_get_value S srv c de =
     res_bind (db_get srv (dbid c)) (\<lambda>db.
     kv_store_entry_val (key_dict S) (keys db) (get_kv_store_index_for_key de) de)"

definition redis_module_use_db_entry_set_value ::
  "sys \<Rightarrow> redis_server \<Rightarrow> redis_client \<Rightarrow> string \<Rightarrow> nat \<Rightarrow> redis_server res" where
  "redis_module_use_db_entry_set_value S srv c de val =
     res_bind (redis_module_use_db_entry_get_value S srv c de) (\<lambda>old.
     case old of
       None \<Rightarrow> Inl (Null_deref ''old'')
     | Some old \<Rightarrow>
         res_bind (latte_object_decr_ref_count (lib S) (heap srv) old) (\<lambda>h.
         res_bind (db_get srv (dbid c)) (\<lambda>db.
         res_bind (kv_store_dict_set_val (key_dict S) (keys db) (get_kv_store_index_for_key de) de val) (\<lambda>ks.
         Inr ((db_put srv (dbid c) (db\<lparr>keys := ks\<rparr>))\<lparr>heap := h\<rparr>)))))"

definition redis_module_use_object_is_string :: "redis_server \<Rightarrow> nat option \<Rightarrow> bool res" where
  "redis_module_use_object_is_string srv v =
     (case v of
        None \<Rightarrow> Inl (Null_deref ''o->type'')
      | Some a \<Rightarrow> res_bind (obj_get (heap srv) a) (\<lambda>obj. Inr (otype obj = OBJ_STRING)))"

section \<open>The string module\<close>

definition set_command :: "sys \<Rightarrow> int \<Rightarrow> redis_server \<Rightarrow> redis_client \<Rightarrow> (redis_server \<times> redis_client \<times> int) res" where
  "set_command S now srv rc =
     (if argc rc \<noteq> 3 then
        Inr (srv, redis_module_use_reply_with_simple_string (lib S) rc
          ''ERR wrong number of arguments for 'set' command'', -1)
      else
        res_bind (argv_get rc 1) (\<lambda>key.
        res_bind (redis_module_use_lookup_key S now srv rc key) (\<lambda>(srv, de).
        res_bind (argv_get rc 2) (\<lambda>val.
        case de of
          None \<Rightarrow>
            res_bind (redis_module_use_object_incr_count S srv val) (\<lambda>srv.
            res_bind (redis_module_use_db_add S now srv rc key val) (\<lambda>(srv, _).
            Inr (srv, redis_module_use_reply_with_simple_string (lib S) rc ''OK'', 0)))
        | Some de \<Rightarrow>
            res_bind (redis_module_use_db_entry_get_value S srv rc de) (\<lambda>old.
            res_bind (redis_module_use_object_is_string srv old) (\<lambda>is_string.
            if is_string then
              res_bind (redis_module_use_object_incr_count S srv val) (\<lambda>srv.
              res_bind (redis_module_use_db_entry_set_value S srv rc de val) (\<lambda>srv.
              Inr (srv, redis_module_use_reply_with_simple_string (lib S) rc ''OK'', 0)))
            else
              res_bind (redis_module_use_reply_with_wrong_type_error (lib S) rc) (\<lambda>rc.
              Inr (srv, rc, -1))))))))"

definition get_command :: "sys \<Rightarrow> int \<Rightarrow> redis_server \<Rightarrow> redis_client \<Rightarrow> (redis_server \<times> redis_client \<times> int) res" where
  "get_command S now srv rc =
     (if argc rc \<noteq> 2 then
        Inr (srv, redis_module_use_reply_with_simple_string (lib S) rc
          ''ERR wrong number of arguments for 'get' command'', -1)
      else
        res_bind (argv_get rc 1) (\<lambda>key.
        res_bind (redis_module_use_lookup_key S now srv rc key) (\<lambda>(srv, de).
        case de of
          None \<Rightarrow> Inr (srv, redis_module_use_reply_with_null (lib S) rc, 0)
        | Some de \<Rightarrow>
            res_bind (redis_module_use_db_entry_get_value S srv rc de) (\<lambda>val.
            res_bind (redis_module_use_object_is_string srv val) (\<lambda>is_string.
            if is_string then
              (case val of
                 None \<Rightarrow> Inl (Null_deref ''value'')
               | Some a \<Rightarrow>
                   res_bind (obj_get (heap srv) a) (\<lambda>obj.
                   res_bind (redis_module_use_reply_with_object (lib S) rc obj) (\<lambda>rc.
                   Inr (srv, rc, 0))))
            else
              res_bind (redis_module_use_reply_with_wrong_type_error (lib S) rc) (\<lambda>rc.
              Inr (srv, rc, -1)))))))"

definition hello_test_redis_command :: "sys \<Rightarrow> redis_server \<Rightarrow> redis_client \<Rightarrow> (redis_server \<times> redis_client \<times> int) res" where
  "hello_test_redis_command S srv rc =
     Inr (srv, redis_module_use_reply_with_simple_string (lib S) rc ''OK'', 0)"

definition call_module_func ::
  "sys \<Rightarrow> int \<Rightarrow> module_func \<Rightarrow> redis_server \<Rightarrow> redis_client \<Rightarrow> (redis_server \<times> redis_client \<times> int) res" where
  "call_module_func S now f srv rc =
     (case f of
        Set_command \<Rightarrow> set_command S now srv rc
      | Get_command \<Rightarrow> get_command S now srv rc
      | Hello_test_redis_command \<Rightarrow> hello_test_redis_command S srv rc)"

definition redis_module_command_dispatcher ::
  "sys \<Rightarrow> int \<Rightarrow> redis_server \<Rightarrow> redis_client \<Rightarrow> (redis_server \<times> redis_client) res" where
  "redis_module_command_dispatcher S now srv rc =
     (case Option.bind (cmd rc) get_keys_proc of
        None \<Rightarrow> Inl (Null_deref ''c->cmd->get_keys_proc'')
      | Some cp \<Rightarrow> res_bind (call_module_func S now (cp_func cp) srv rc) (\<lambda>(srv, rc, _). Inr (srv, rc)))"

section \<open>Loading a module\<close>

text \<open>
  \<open>redis_module_init\<close>: the function pointers the header resolves; a call through one that was not
  found is a call through NULL.
\<close>

definition module_imports :: "string list" where
  "module_imports =
     [''create_command'', ''is_module_name_busy'', ''get_api'', ''set_module_attribs'', ''reply_with_simple_string'',
      ''lookup_key'', ''db_add'', ''db_entry_get_value'', ''db_entry_set_value'', ''object_is_string'',
      ''object_incr_count'', ''object_decr_count'', ''reply_with_wrong_type_error'', ''reply_with_null'',
      ''reply_with_object'']"

definition module_pointer :: "sys \<Rightarrow> redis_server \<Rightarrow> string \<Rightarrow> api_func option" where
  "module_pointer S srv n = redis_module_use_get_api S srv (''redis_module_'' @ n)"

definition redis_module_init ::
  "sys \<Rightarrow> redis_server \<Rightarrow> redis_module option \<Rightarrow> string \<Rightarrow> int \<Rightarrow> int \<Rightarrow> (redis_module option \<times> bool) res" where
  "redis_module_init S srv m name v apiv =
     (if module_pointer S srv ''is_module_name_busy'' \<noteq> None \<and> redis_module_use_is_module_name_busy S srv name
      then Inr (m, False)
      else if module_pointer S srv ''set_module_attribs'' = None then Inl (Null_deref ''redis_module_set_module_attribs'')
      else Inr (redis_module_use_set_module_attribs m name v apiv, True))"

definition redis_module_create_command ::
  "sys \<Rightarrow> redis_server \<Rightarrow> redis_module option \<Rightarrow> string \<Rightarrow> module_func \<Rightarrow> string \<Rightarrow> (redis_server \<times> bool) res" where
  "redis_module_create_command S srv m name f strflags =
     (case module_pointer S srv ''create_command'' of
        None \<Rightarrow> Inl (Null_deref ''redis_module_create_command'')
      | Some _ \<Rightarrow>
          (case m of
             None \<Rightarrow> Inl (Null_deref ''ctx->module'')
           | Some m \<Rightarrow> Inr (redis_module_use_create_command S srv m name f strflags 0 0 0)))"

definition init_string_module :: "sys \<Rightarrow> redis_server \<Rightarrow> redis_module option \<Rightarrow> (redis_server \<times> bool) res" where
  "init_string_module S srv m =
     res_bind (redis_module_create_command S srv m ''set'' Set_command ''write deny-oom'') (\<lambda>(srv, ok).
     if \<not> ok then Inr (srv, False)
     else redis_module_create_command S srv m ''get'' Get_command ''readonly'')"

definition redis_module_onload_latte :: "sys \<Rightarrow> redis_server \<Rightarrow> (redis_server \<times> redis_module option \<times> bool) res" where
  "redis_module_onload_latte S srv =
     res_bind (redis_module_init S srv None ''latte'' 1 1) (\<lambda>(m, ok).
     if \<not> ok then Inr (srv, m, False)
     else res_bind (init_string_module S srv m) (\<lambda>(srv, ok). Inr (srv, m, ok)))"

definition redis_module_onload_hello :: "sys \<Rightarrow> redis_server \<Rightarrow> (redis_server \<times> redis_module option \<times> bool) res" where
  "redis_module_onload_hello S srv =
     res_bind (redis_module_init S srv None ''hello'' 1 1) (\<lambda>(m, ok).
     if \<not> ok then Inr (srv, m, False)
     else res_bind (redis_module_create_command S srv m ''hello.test'' Hello_test_redis_command ''readonly'')
       (\<lambda>(srv, ok). Inr (srv, m, ok)))"

definition module_load :: "sys \<Rightarrow> redis_server \<Rightarrow> string \<Rightarrow> (redis_server \<times> bool) res" where
  "module_load S srv path =
     (case module_file_at S path of
        File_not_executable \<Rightarrow> Inr (srv, False)
      | File_not_loadable \<Rightarrow> Inr (srv, False)
      | File_without_onload \<Rightarrow> Inr (srv, False)
      | File_onload f \<Rightarrow>
          res_bind (case f of Onload_latte \<Rightarrow> redis_module_onload_latte S srv
                            | Onload_hello \<Rightarrow> redis_module_onload_hello S srv) (\<lambda>(srv, m, ok).
          if \<not> ok then Inr (srv, False)
          else case m of
            None \<Rightarrow> Inl (Null_deref ''ctx.module->name'')
          | Some m \<Rightarrow> Inr (srv\<lparr>modules := fst (dict_add (module_dict S) (modules srv) (mod_name m) m)\<rparr>, True)))"

fun init_redis_modules :: "sys \<Rightarrow> redis_server \<Rightarrow> string list option \<Rightarrow> redis_server res" where
  "init_redis_modules S srv None = Inr srv"
| "init_redis_modules S srv (Some []) = Inr srv"
| "init_redis_modules S srv (Some (path # paths)) =
     res_bind (module_load S srv path) (\<lambda>(srv, ok).
     res_bind (latte_assert ok ''module load failed'') (\<lambda>_.
     init_redis_modules S srv (Some paths)))"

section \<open>Starting state\<close>

definition init_redis_server :: "sys \<Rightarrow> redis_server \<Rightarrow> redis_server res" where
  "init_redis_server S rs =
     res_bind (command_manager_new (lib S) (rax_lib S) (command_dict S)) (\<lambda>cm.
     Inr (module_register_core_api S
       (rs\<lparr>proto_max_bulk_len := 1024 * 1024, clients_to_close := [], cmd_manager := cm,
           modules := dict_new (module_dict S), server_metric := metric_new (metric_dict S) 16,
           metric_stat_numcommands := 0\<rparr>)))"

section \<open>Specification of the keyspace commands\<close>

text \<open>Every value of a database is a string object.\<close>

definition strings_only :: "latte_c \<Rightarrow> redis_db \<Rightarrow> obj_heap \<Rightarrow> bool" where
  "strings_only L db h \<longleftrightarrow> (\<forall>k a. db_vals db k = Some a \<longrightarrow>
     (\<exists>obj s. cells h a = Some obj \<and> string_obj L obj s \<and> int (length s) \<le> llong_max))"

definition srv_inv :: "sys \<Rightarrow> redis_server \<Rightarrow> nat \<Rightarrow> bool" where
  "srv_inv S srv i \<longleftrightarrow> sys_laws S \<and> i < length (dbs srv) \<and> hz srv \<noteq> 0 \<and>
     keyspace_inv (lib S) (key_dict S) (expire_dict S) (dbs srv ! i) (heap srv) \<and>
     strings_only (lib S) (dbs srv ! i) (heap srv)"

definition text_at :: "obj_heap \<Rightarrow> nat \<Rightarrow> string option" where
  "text_at h a = Option.bind (cells h a) (\<lambda>obj. case ptr obj of Ptr_bytes s \<Rightarrow> Some s | _ \<Rightarrow> None)"

text \<open>The strings a reader sees in database \<open>i\<close> at time \<open>now\<close>.\<close>

definition store :: "redis_server \<Rightarrow> nat \<Rightarrow> int \<Rightarrow> string \<rightharpoonup> string" where
  "store srv i now k =
     Option.bind (live (db_vals (dbs srv ! i)) (db_ttl (dbs srv ! i)) now k) (text_at (heap srv))"

text \<open>An argument of a client: a string object only the client refers to.\<close>

definition arg_at :: "latte_c \<Rightarrow> redis_db \<Rightarrow> obj_heap \<Rightarrow> nat \<Rightarrow> string \<Rightarrow> bool" where
  "arg_at L db h a s \<longleftrightarrow> a \<notin> ran (db_vals db) \<and> int (length s) \<le> llong_max \<and>
     (\<exists>obj. cells h a = Some obj \<and> string_obj L obj s \<and> refcount obj = 1)"

lemma sys_lawsD:
  assumes "sys_laws S"
  shows "latte_c_laws (lib S)" "object_laws (lib S)" "reply_laws (lib S)" "sds_laws (lib S)" "number_laws (lib S)"
    "flag_laws (lib S)" "rax_laws (rax_lib S)"
    "dict_laws (map to_lower) (command_dict S)" "dict_laws (map to_lower) (module_dict S)"
    "dict_laws (\<lambda>k. k) (api_dict S)" "dict_laws (\<lambda>k. k) (key_dict S)" "dict_laws (\<lambda>k. k) (expire_dict S)"
    "dict_laws (\<lambda>k. k) (metric_dict S)"
  using assms by (simp_all add: sys_laws_def latte_c_laws_def)

lemma srv_invD:
  assumes "srv_inv S srv i"
  shows "sys_laws S" "i < length (dbs srv)" "hz srv \<noteq> 0" "db_get srv i = Inr (dbs srv ! i)"
    "keyspace_inv (lib S) (key_dict S) (expire_dict S) (dbs srv ! i) (heap srv)"
    "db_inv (key_dict S) (expire_dict S) (dbs srv ! i)" "heap_wf (heap srv)" "db_owns (dbs srv ! i) (heap srv)"
    "strings_only (lib S) (dbs srv ! i) (heap srv)"
    "dom (db_ttl (dbs srv ! i)) \<subseteq> dom (db_vals (dbs srv ! i))"
  using assms by (simp_all add: srv_inv_def keyspace_inv_def db_get_def)

lemma string_objD:
  assumes "object_laws L" "string_obj L obj s"
  shows "otype obj = OBJ_STRING" "ptr obj = Ptr_bytes s" "string_object_len L obj = length s"
    "get_sds_from_object L obj = Some s" "sds_encoded_object L obj"
    "string_obj L (obj\<lparr>refcount := n, lru := l\<rparr>) s"
proof -
  show "otype obj = OBJ_STRING" "ptr obj = Ptr_bytes s" "sds_encoded_object L obj"
    using assms(2) by (simp_all add: string_obj_def)
  show "string_object_len L obj = length s" "get_sds_from_object L obj = Some s"
    "string_obj L (obj\<lparr>refcount := n, lru := l\<rparr>) s"
    using assms unfolding object_laws_def by blast+
qed

lemma db_put_simps [simp]:
  "i < length (dbs srv) \<Longrightarrow> dbs (db_put srv i db) ! i = db" "length (dbs (db_put srv i db)) = length (dbs srv)"
  "heap (db_put srv i db) = heap srv" "hz (db_put srv i db) = hz srv"
  "db_put (db_put srv i db) i db' = db_put srv i db'" "db_put (srv\<lparr>heap := h\<rparr>) i db = (db_put srv i db)\<lparr>heap := h\<rparr>"
  by (simp_all add: db_put_def)

lemma db_get_put [simp]: "i < length (dbs srv) \<Longrightarrow> db_get (db_put srv i db) i = Inr db"
  "db_get (srv\<lparr>heap := h\<rparr>) i = db_get srv i"
  by (simp_all add: db_get_def)

text \<open>Lazy expiration keeps the state of the server.\<close>

lemma heap_free_other: "v \<noteq> Some a \<Longrightarrow> cells (heap_free h v) a = cells h a"
  by (auto simp: heap_free_def split: option.splits)

lemma next_addr_heap_free [simp]: "next_addr (heap_free h v) = next_addr h"
  by (simp add: heap_free_def split: option.splits)

lemma strings_only_drop:
  assumes "strings_only L db h" "db_owns db h" "db_vals db' = (db_vals db)(k := None)"
  shows "strings_only L db' (heap_free h (db_vals db k))"
  unfolding strings_only_def
proof (intro allI impI)
  fix k' a assume a: "db_vals db' k' = Some a"
  then have k': "k' \<noteq> k" "db_vals db k' = Some a" using assms(3) by (auto split: if_splits)
  then have "db_vals db k \<noteq> Some a" using assms(2) unfolding db_owns_def by metis
  then show "\<exists>obj s. cells (heap_free h (db_vals db k)) a = Some obj \<and> string_obj L obj s \<and> int (length s) \<le> llong_max"
    using assms(1) k'(2) unfolding strings_only_def by (simp add: heap_free_other)
qed

lemma expired_srv_inv:
  assumes inv: "srv_inv S srv i" and e: "ks.expired_by now k (dbs srv ! i) (heap srv) db' h'"
    and k: "keyspace_inv (lib S) (key_dict S) (expire_dict S) db' h'"
  shows "srv_inv S ((db_put srv i db')\<lparr>heap := h'\<rparr>) i"
    and "store ((db_put srv i db')\<lparr>heap := h'\<rparr>) i now = store srv i now"
proof -
  note D = srv_invD [OF inv]
  have "strings_only (lib S) db' h'"
    using e strings_only_drop [OF D(9,8)] D(9) unfolding ks.expired_by_def by (auto split: if_splits)
  then show "srv_inv S ((db_put srv i db')\<lparr>heap := h'\<rparr>) i" using D k by (simp add: srv_inv_def)
  have live: "live (db_vals db') (db_ttl db') now = live (db_vals (dbs srv ! i)) (db_ttl (dbs srv ! i)) now"
    by (rule ks.expired_by_live(1) [OF e])
  have "text_at h' a = text_at (heap srv) a" if "live (db_vals db') (db_ttl db') now k' = Some a" for k' a
  proof -
    have v: "db_vals db' k' = Some a" using that by (auto simp: live_def split: option.splits if_splits)
    have "cells h' a = cells (heap srv) a"
    proof (cases "\<exists>t. db_ttl (dbs srv ! i) k = Some t \<and> t \<le> now")
      case True
      then have h: "h' = heap_free (heap srv) (db_vals (dbs srv ! i) k)" "db_vals db' = (db_vals (dbs srv ! i))(k := None)"
        using e unfolding ks.expired_by_def by auto
      then have "k' \<noteq> k" "db_vals (dbs srv ! i) k' = Some a" using v by (auto split: if_splits)
      then have "db_vals (dbs srv ! i) k \<noteq> Some a" using D(8) unfolding db_owns_def by metis
      then show ?thesis by (simp add: h(1) heap_free_other)
    qed (use e in \<open>auto simp: ks.expired_by_def\<close>)
    then show ?thesis by (simp add: text_at_def)
  qed
  then have "Option.bind (live (db_vals db') (db_ttl db') now k') (text_at h') =
    Option.bind (live (db_vals db') (db_ttl db') now k') (text_at (heap srv))" for k'
    by (cases "live (db_vals db') (db_ttl db') now k'") simp_all
  then show "store ((db_put srv i db')\<lparr>heap := h'\<rparr>) i now = store srv i now"
    using D(2) live by (simp add: store_def fun_eq_iff)
qed

lemma lookup_key_spec:
  assumes inv: "srv_inv S srv (dbid rc)" and a: "cells (heap srv) a = Some obj" "string_obj (lib S) obj k"
  obtains db' h' where
    "redis_module_use_lookup_key S now srv rc a = Inr ((db_put srv (dbid rc) db')\<lparr>heap := h'\<rparr>,
       map_option (\<lambda>_. k) (live (db_vals (dbs srv ! dbid rc)) (db_ttl (dbs srv ! dbid rc)) now k))"
    "keyspace_inv (lib S) (key_dict S) (expire_dict S) db' h'"
    "ks.expired_by now k (dbs srv ! dbid rc) (heap srv) db' h'"
proof -
  note D = srv_invD [OF inv]
  note obj = string_objD [OF sys_lawsD(2) [OF D(1)] a(2)]
  let ?db = "dbs srv ! dbid rc"
  obtain db' h' where l:
    "res_bind (expire_if_needed (lib S) (key_dict S) (expire_dict S) now ?db (heap srv) k)
       (\<lambda>(d, h, e). if e then Inr (d, h, None)
          else res_bind (kv_store_dict_find (key_dict S) (keys d) (get_kv_store_index_for_key k) k) (\<lambda>r. Inr (d, h, r)))
       = Inr (db', h', map_option (\<lambda>_. k) (live (db_vals ?db) (db_ttl ?db) now k))"
    "keyspace_inv (lib S) (key_dict S) (expire_dict S) db' h'" "ks.expired_by now k ?db (heap srv) db' h'"
    by (rule ks.lookup_live [OF D(5)])
  obtain d1 h1 e where x: "expire_if_needed (lib S) (key_dict S) (expire_dict S) now ?db (heap srv) k = Inr (d1, h1, e)"
    using l(1) by (auto simp: res_bind_eq_Inr)
  have "redis_module_use_lookup_key S now srv rc a = Inr ((db_put srv (dbid rc) db')\<lparr>heap := h'\<rparr>,
       map_option (\<lambda>_. k) (live (db_vals ?db) (db_ttl ?db) now k))"
  proof (cases e)
    case True
    then show ?thesis using l(1) x a(1) obj(1-3) D(4) by (simp add: redis_module_use_lookup_key_def Let_def)
  next
    case False
    then obtain r where "kv_store_dict_find (key_dict S) (keys d1) (get_kv_store_index_for_key k) k = Inr r"
      using l(1) x by (auto simp: res_bind_eq_Inr)
    then show ?thesis using False l(1) x a(1) obj(1-3) D(4) by (simp add: redis_module_use_lookup_key_def Let_def)
  qed
  then show thesis using l(2,3) by (rule that)
qed

subsection \<open>SET and GET\<close>

text \<open>The heap after a value has replaced what was stored under a key.\<close>

lemma entry_set_spec:
  assumes db: "db_inv (key_dict S) (expire_dict S) db" and old: "db_vals db k = Some b"
    and srv: "dbs srv ! i = db" "i < length (dbs srv)" "i = dbid rc" and L: "object_laws (lib S)"
    and b: "cells (heap srv) b = Some oobj" "refcount oobj = 1"
  shows "\<exists>db'. redis_module_use_db_entry_set_value S srv rc k a = Inr ((db_put srv i db')\<lparr>heap := obj_put (heap srv) b None\<rparr>) \<and>
    db_inv (key_dict S) (expire_dict S) db' \<and> db_vals db' = (db_vals db)(k \<mapsto> a) \<and> db_ttl db' = db_ttl db"
proof -
  note inv = db_invD [OF db]
  have lk: "kv_lookup (keys db) 0 k = Some (Some b)" using old by (simp add: db_vals_lookup [OF db])
  have get: "redis_module_use_db_entry_get_value S srv rc k = Inr (Some b)"
    using kv.entry_val [OF inv(1,2) lk] srv by (simp add: redis_module_use_db_entry_get_value_def db_get_def)
  obtain ks where ks: "kv_store_dict_set_val (key_dict S) (keys db) 0 k a = Inr ks" "kv_inv (key_dict S) ks"
    "kv_slot ks = kv_slot (keys db)" "kv_lookup ks = (kv_lookup (keys db))(0 := (kv_lookup (keys db) 0)(k \<mapsto> Some a))"
    using kv.set_val [OF inv(1,2) lk] by blast
  have "latte_object_decr_ref_count (lib S) (heap srv) b = Inr (obj_put (heap srv) b None)"
    using L b by (simp add: object_laws_def)
  then have "redis_module_use_db_entry_set_value S srv rc k a =
    Inr ((db_put srv i (db\<lparr>keys := ks\<rparr>))\<lparr>heap := obj_put (heap srv) b None\<rparr>)"
    using get ks(1) srv by (simp add: redis_module_use_db_entry_set_value_def db_get_def)
  then show ?thesis using db_inv_keys [OF db ks(2,3), of k "Some a"] ks(4) by auto
qed

lemma simple_string_spec:
  "reply_laws L \<Longrightarrow> NUL \<notin> set msg \<Longrightarrow> emits c (resp_encode (Simple msg)) (redis_module_use_reply_with_simple_string L c msg)"
  using out.put_three [of L c "''+''" msg crlf] by (simp add: redis_module_use_reply_with_simple_string_def)

text \<open>
  What SET leaves: the value's object has two references (the client's and the entry's), the old
  value is gone, the rest of the heap is as it was.
\<close>

text \<open>After a lookup that found nothing, neither the key nor a deadline nor its object is left.\<close>

lemma expired_by_gone:
  assumes e: "ks.expired_by now k db h db1 h1" and gone: "live (db_vals db) (db_ttl db) now k = None"
    and dom: "dom (db_ttl db1) \<subseteq> dom (db_vals db1)"
  shows "cells h1 = cells (heap_free h (db_vals db k))" "db_vals db1 = (db_vals db)(k := None)" "db_ttl db1 = (db_ttl db)(k := None)"
proof -
  have "cells h1 = cells (heap_free h (db_vals db k)) \<and> db_vals db1 = (db_vals db)(k := None) \<and> db_ttl db1 = (db_ttl db)(k := None)"
  proof (cases "\<exists>t. db_ttl db k = Some t \<and> t \<le> now")
    case False
    then have same: "db1 = db" "h1 = h" using e by (simp_all add: ks.expired_by_def)
    moreover have "db_vals db1 k = None" using ks.expired_by_live(2) [OF e] gone by simp
    ultimately have "db_vals db k = None" "db_ttl db k = None" using dom by (auto simp: dom_def subset_iff)
    then show ?thesis using same by (auto simp: heap_free_def fun_eq_iff)
  qed (use e in \<open>auto simp: ks.expired_by_def\<close>)
  then show "cells h1 = cells (heap_free h (db_vals db k))" "db_vals db1 = (db_vals db)(k := None)" "db_ttl db1 = (db_ttl db)(k := None)"
    by blast+
qed

text \<open>What a SET with a string key that holds no NUL byte leaves behind, before the client is reset.\<close>

definition set_ran :: "sys \<Rightarrow> int \<Rightarrow> redis_server \<Rightarrow> redis_client \<Rightarrow> string \<Rightarrow> nat \<Rightarrow> latte_object \<Rightarrow> bool" where
  "set_ran S now srv rc k va vobj \<longleftrightarrow> (\<exists>db' h' l. set_command S now srv rc =
      Inr ((db_put srv (dbid rc) db')\<lparr>heap := h'\<rparr>, redis_module_use_reply_with_simple_string (lib S) rc ''OK'', 0) \<and>
    db_inv (key_dict S) (expire_dict S) db' \<and> db_vals db' = (db_vals (dbs srv ! dbid rc))(k \<mapsto> va) \<and>
    (\<forall>k'. db_ttl db' k' = (if k' = k \<and> live (db_vals (dbs srv ! dbid rc)) (db_ttl (dbs srv ! dbid rc)) now k = None then None
           else db_ttl (dbs srv ! dbid rc) k')) \<and>
    next_addr h' = next_addr (heap srv) \<and>
    cells h' = (cells (heap_free (heap srv) (db_vals (dbs srv ! dbid rc) k)))
      (va \<mapsto> vobj\<lparr>refcount := 2, lru := l\<rparr>))"

lemma set_command_new:
  assumes inv: "srv_inv S srv (dbid rc)" and argv: "argv_get rc 1 = Inr ka" "argv_get rc 2 = Inr va" "argc rc = 3" "ka \<noteq> va"
    and k: "string_obj (lib S) kobj k" "NUL \<notin> set k" "refcount vobj = 1"
    and l: "redis_module_use_lookup_key S now srv rc ka = Inr ((db_put srv (dbid rc) db1)\<lparr>heap := h1\<rparr>, None)"
      "keyspace_inv (lib S) (key_dict S) (expire_dict S) db1 h1" "ks.expired_by now k (dbs srv ! dbid rc) (heap srv) db1 h1"
    and c: "cells h1 ka = Some kobj" "cells h1 va = Some vobj" "next_addr h1 = next_addr (heap srv)"
    and none: "live (db_vals (dbs srv ! dbid rc)) (db_ttl (dbs srv ! dbid rc)) now k = None"
  shows "set_ran S now srv rc k va vobj"
proof -
  note D = srv_invD [OF inv]
  note L = sys_lawsD [OF D(1)]
  let ?h2 = "obj_put h1 va (Some (vobj\<lparr>refcount := 2\<rparr>))"
  let ?srv2 = "(db_put srv (dbid rc) db1)\<lparr>heap := ?h2\<rparr>"
  have db1: "db_inv (key_dict S) (expire_dict S) db1" "dom (db_ttl db1) \<subseteq> dom (db_vals db1)" using l(2) by (simp_all add: keyspace_inv_def)
  note free = expired_by_gone [OF l(3) none db1(2)]
  have incr: "latte_object_incr_ref_count (lib S) h1 va = Inr ?h2" using L(2) c(2) k(3) by (simp add: object_laws_def)
  have "cells ?h2 ka = Some kobj" "cells ?h2 va = Some (vobj\<lparr>refcount := 2\<rparr>)" "hz ?srv2 \<noteq> 0" using c argv(4) D(3) by simp_all
  from db_add_new [OF db1(1) L(2) this(3,1) k(1) this(2), of now] free(2) k(2)
  obtain db' l where add: "db_add_key_value (lib S) (key_dict S) now ?srv2 db1 ?h2 ka va =
      Inr (db', obj_put ?h2 va (Some (vobj\<lparr>refcount := 2, lru := l\<rparr>)), 0)"
    "db_inv (key_dict S) (expire_dict S) db'" "db_vals db' = (db_vals db1)(k \<mapsto> va)" "db_ttl db' = db_ttl db1"
    by auto
  have "set_command S now srv rc =
    Inr ((db_put srv (dbid rc) db')\<lparr>heap := obj_put ?h2 va (Some (vobj\<lparr>refcount := 2, lru := l\<rparr>))\<rparr>,
      redis_module_use_reply_with_simple_string (lib S) rc ''OK'', 0)"
    using argv l(1) incr add(1) D(2)
    by (simp add: set_command_def redis_module_use_object_incr_count_def redis_module_use_db_add_def)
  then show ?thesis unfolding set_ran_def using add(2-4) free none c(3)
    by (intro exI [of _ db'] exI [of _ "obj_put ?h2 va (Some (vobj\<lparr>refcount := 2, lru := l\<rparr>))"] exI [of _ l]) auto
qed

lemma set_command_overwrite:
  assumes inv: "srv_inv S srv (dbid rc)" and argv: "argv_get rc 1 = Inr ka" "argv_get rc 2 = Inr va" "argc rc = 3"
    and l: "redis_module_use_lookup_key S now srv rc ka = Inr ((db_put srv (dbid rc) (dbs srv ! dbid rc))\<lparr>heap := heap srv\<rparr>, Some k)"
    and v: "cells (heap srv) va = Some vobj" "refcount vobj = 1" "va \<notin> ran (db_vals (dbs srv ! dbid rc))"
    and live: "live (db_vals (dbs srv ! dbid rc)) (db_ttl (dbs srv ! dbid rc)) now k = Some b" "db_vals (dbs srv ! dbid rc) k = Some b"
  shows "set_ran S now srv rc k va vobj"
proof -
  note D = srv_invD [OF inv]
  note L = sys_lawsD [OF D(1)]
  let ?db = "dbs srv ! dbid rc" and ?h2 = "obj_put (heap srv) va (Some (vobj\<lparr>refcount := 2\<rparr>))"
  let ?srv2 = "(db_put srv (dbid rc) ?db)\<lparr>heap := ?h2\<rparr>"
  have db: "db_inv (key_dict S) (expire_dict S) ?db" using D(5) by (simp add: keyspace_inv_def)
  have incr: "latte_object_incr_ref_count (lib S) (heap srv) va = Inr ?h2" using L(2) v(1,2) by (simp add: object_laws_def)
  obtain oobj s where oobj: "cells (heap srv) b = Some oobj" "string_obj (lib S) oobj s"
    using D(9) live(2) unfolding strings_only_def by blast
  obtain o1 where "cells (heap srv) b = Some o1" "refcount o1 = 1" using D(8) live(2) unfolding db_owns_def by blast
  then have rc1: "refcount oobj = 1" "b \<noteq> va" using live(2) oobj(1) v(3) by (auto simp: ran_def)
  have get: "redis_module_use_db_entry_get_value S ((db_put srv (dbid rc) ?db)\<lparr>heap := heap srv\<rparr>) rc k = Inr (Some b)"
    using kv.entry_val [OF db_invD(1,2) [OF db], of k "Some b"] live(2) D(2) db_vals_lookup [OF db, of k]
    by (simp add: redis_module_use_db_entry_get_value_def)
  have str: "redis_module_use_object_is_string ((db_put srv (dbid rc) ?db)\<lparr>heap := heap srv\<rparr>) (Some b) = Inr True"
    using oobj by (simp add: redis_module_use_object_is_string_def string_obj_def)
  have "cells (heap ?srv2) b = Some oobj" using oobj(1) rc1(2) by simp
  from entry_set_spec [OF db, of k b ?srv2 "dbid rc" rc oobj va] this rc1(1) live(2) D(2) L(2)
  obtain db' where set: "redis_module_use_db_entry_set_value S ?srv2 rc k va = Inr ((db_put srv (dbid rc) db')\<lparr>heap := obj_put ?h2 b None\<rparr>)"
    "db_inv (key_dict S) (expire_dict S) db'" "db_vals db' = (db_vals ?db)(k \<mapsto> va)" "db_ttl db' = db_ttl ?db"
    by auto
  have "set_command S now srv rc = Inr ((db_put srv (dbid rc) db')\<lparr>heap := obj_put ?h2 b None\<rparr>,
      redis_module_use_reply_with_simple_string (lib S) rc ''OK'', 0)"
    using argv l incr get str set(1) by (simp add: set_command_def redis_module_use_object_incr_count_def)
  moreover have "vobj\<lparr>refcount := 2, lru := lru vobj\<rparr> = vobj\<lparr>refcount := 2\<rparr>" by simp
  ultimately show ?thesis unfolding set_ran_def using set(2-4) live rc1(2)
    by (intro exI [of _ db'] exI [of _ "obj_put ?h2 b None"] exI [of _ "lru vobj"]) (auto simp: heap_free_def fun_eq_iff)
qed

lemma set_command_spec:
  assumes inv: "srv_inv S srv (dbid rc)" and args: "args_of rc [a0, ka, va]" "ka \<noteq> va"
    and key: "arg_at (lib S) (dbs srv ! dbid rc) (heap srv) ka k" "NUL \<notin> set k"
    and val: "arg_at (lib S) (dbs srv ! dbid rc) (heap srv) va v" "cells (heap srv) va = Some vobj"
  shows "set_ran S now srv rc k va vobj"
proof -
  let ?db = "dbs srv ! dbid rc" and ?h = "heap srv"
  obtain kobj where kobj: "cells ?h ka = Some kobj" "string_obj (lib S) kobj k" using key(1) by (auto simp: arg_at_def)
  have vobj: "refcount vobj = 1" "va \<notin> ran (db_vals ?db)" "ka \<notin> ran (db_vals ?db)" using val key(1) by (auto simp: arg_at_def)
  have argv: "argv_get rc 1 = Inr ka" "argv_get rc 2 = Inr va" "argc rc = 3"
    using argv_get_args [OF args(1), of 1] argv_get_args [OF args(1), of 2] args(1) by (auto simp: args_of_def)
  obtain db1 h1 where l: "redis_module_use_lookup_key S now srv rc ka = Inr ((db_put srv (dbid rc) db1)\<lparr>heap := h1\<rparr>,
       map_option (\<lambda>_. k) (live (db_vals ?db) (db_ttl ?db) now k))"
    "keyspace_inv (lib S) (key_dict S) (expire_dict S) db1 h1" "ks.expired_by now k ?db ?h db1 h1"
    by (rule lookup_key_spec [OF inv kobj])
  have sub: "db_vals ?db k \<noteq> Some ka" "db_vals ?db k \<noteq> Some va" using vobj(2,3) by (auto simp: ran_def)
  have cells1: "cells h1 ka = Some kobj" "cells h1 va = Some vobj" "next_addr h1 = next_addr ?h"
    using l(3) kobj(1) val(2) sub unfolding ks.expired_by_def by (auto simp: heap_free_other split: if_splits)
  show ?thesis
  proof (cases "live (db_vals ?db) (db_ttl ?db) now k")
    case None
    then show ?thesis using set_command_new [OF inv argv args(2) kobj(2) key(2) vobj(1) _ l(2,3) cells1 None] l(1) by simp
  next
    case (Some b)
    then have "db1 = ?db" "h1 = ?h" "db_vals ?db k = Some b"
      using l(3) by (auto simp: ks.expired_by_def live_def split: option.splits if_splits)
    then show ?thesis using set_command_overwrite [OF inv argv _ val(2) vobj(1,2) Some] l(1) Some by simp
  qed
qed

text \<open>Once the client has let go of its arguments, the entry owns the value.\<close>

lemma srv_inv_store:
  assumes inv: "srv_inv S srv i"
    and db': "db_inv (key_dict S) (expire_dict S) db'" "db_vals db' = (db_vals (dbs srv ! i))(k \<mapsto> a)"
      "dom (db_ttl db') \<subseteq> dom (db_ttl (dbs srv ! i))"
    and a: "cells h' a = Some obj" "refcount obj = 1" "string_obj (lib S) obj v" "int (length v) \<le> llong_max"
      "a \<notin> ran (db_vals (dbs srv ! i))"
    and same: "\<forall>k' b. k' \<noteq> k \<longrightarrow> db_vals (dbs srv ! i) k' = Some b \<longrightarrow> cells h' b = cells (heap srv) b"
    and wf: "heap_wf h'"
  shows "srv_inv S ((db_put srv i db')\<lparr>heap := h'\<rparr>) i"
    "\<forall>k'. k' \<noteq> k \<longrightarrow> db_ttl db' k' = db_ttl (dbs srv ! i) k' \<Longrightarrow> \<forall>t. db_ttl db' k = Some t \<longrightarrow> now < t \<Longrightarrow>
      store ((db_put srv i db')\<lparr>heap := h'\<rparr>) i now = (store srv i now)(k \<mapsto> v)"
proof -
  note D = srv_invD [OF inv]
  have "db_owns db' h'" by (rule db_owns_store [OF D(8) db'(2) a(1,2,5) same [rule_format]])
  moreover have "dom (db_ttl db') \<subseteq> dom (db_vals db')" using db'(2,3) D(10) by auto
  moreover have "strings_only (lib S) db' h'"
    unfolding strings_only_def
  proof (intro allI impI)
    fix k' b assume "db_vals db' k' = Some b"
    then show "\<exists>obj s. cells h' b = Some obj \<and> string_obj (lib S) obj s \<and> int (length s) \<le> llong_max"
      using a same [rule_format, of k' b] D(9) db'(2) unfolding strings_only_def by (cases "k' = k") auto
  qed
  ultimately show "srv_inv S ((db_put srv i db')\<lparr>heap := h'\<rparr>) i"
    using D db' wf by (simp add: srv_inv_def keyspace_inv_def)
  assume ttl: "\<forall>k'. k' \<noteq> k \<longrightarrow> db_ttl db' k' = db_ttl (dbs srv ! i) k'" "\<forall>t. db_ttl db' k = Some t \<longrightarrow> now < t"
  show "store ((db_put srv i db')\<lparr>heap := h'\<rparr>) i now = (store srv i now)(k \<mapsto> v)"
  proof
    fix k'
    show "store ((db_put srv i db')\<lparr>heap := h'\<rparr>) i now k' = ((store srv i now)(k \<mapsto> v)) k'"
    proof (cases "k' = k")
      case True
      then have "live (db_vals db') (db_ttl db') now k' = Some a"
        using db'(2) ttl(2) by (fastforce simp: live_def split: option.splits)
      then show ?thesis using True a D(2) by (simp add: store_def text_at_def string_obj_def)
    next
      case False
      have "live (db_vals db') (db_ttl db') now k' = live (db_vals (dbs srv ! i)) (db_ttl (dbs srv ! i)) now k'"
        using False db'(2) ttl(1) by (simp add: live_def split: option.splits)
      moreover have "text_at h' b = text_at (heap srv) b"
        if "live (db_vals (dbs srv ! i)) (db_ttl (dbs srv ! i)) now k' = Some b" for b
        using same [rule_format, OF False, of b] that by (auto simp: live_def text_at_def split: option.splits if_splits)
      ultimately show ?thesis using False D(2)
        by (cases "live (db_vals (dbs srv ! i)) (db_ttl (dbs srv ! i)) now k'") (simp_all add: store_def)
    qed
  qed
qed

lemma arg_atD:
  assumes "arg_at L db h a s"
  obtains obj where "cells h a = Some obj" "string_obj L obj s" "refcount obj = 1" "a \<notin> ran (db_vals db)" "int (length s) \<le> llong_max"
  using assms by (auto simp: arg_at_def)

text \<open>SET, and the heap once the references of the three arguments are dropped.\<close>

lemma set_then_drop:
  assumes inv: "srv_inv S srv (dbid rc)" and args: "args_of rc [a0, ka, va]" "distinct [a0, ka, va]"
    and a0: "arg_at (lib S) (dbs srv ! dbid rc) (heap srv) a0 c"
    and ka: "arg_at (lib S) (dbs srv ! dbid rc) (heap srv) ka k" "NUL \<notin> set k"
    and va: "arg_at (lib S) (dbs srv ! dbid rc) (heap srv) va v"
  obtains db' h' vobj where
    "set_command S now srv rc =
      Inr ((db_put srv (dbid rc) db')\<lparr>heap := h'\<rparr>, redis_module_use_reply_with_simple_string (lib S) rc ''OK'', 0)"
    "counted (lib S) h' [a0, ka, va]" "heap_wf (fold drop_ref [a0, ka, va] h')"
    "cells (fold drop_ref [a0, ka, va] h') = (cells (heap_free (heap srv) (db_vals (dbs srv ! dbid rc) k)))(a0 := None, ka := None, va \<mapsto> vobj)"
    "refcount vobj = 1" "string_obj (lib S) vobj v"
    "db_inv (key_dict S) (expire_dict S) db'" "db_vals db' = (db_vals (dbs srv ! dbid rc))(k \<mapsto> va)"
    "\<forall>k'. db_ttl db' k' = (if k' = k \<and> live (db_vals (dbs srv ! dbid rc)) (db_ttl (dbs srv ! dbid rc)) now k = None then None
       else db_ttl (dbs srv ! dbid rc) k')"
proof -
  note D = srv_invD [OF inv]
  note L = sys_lawsD [OF D(1)]
  let ?db = "dbs srv ! dbid rc" and ?h = "heap srv"
  obtain o0 where o0: "cells ?h a0 = Some o0" "refcount o0 = 1" "a0 \<notin> ran (db_vals ?db)" using a0 by (rule arg_atD)
  obtain ok where ok: "cells ?h ka = Some ok" "refcount ok = 1" "ka \<notin> ran (db_vals ?db)" using ka(1) by (rule arg_atD)
  obtain ov where ov: "cells ?h va = Some ov" "string_obj (lib S) ov v" "refcount ov = 1" "va \<notin> ran (db_vals ?db)"
    "int (length v) \<le> llong_max" using va by (rule arg_atD)
  obtain db' h' l where set: "set_command S now srv rc =
      Inr ((db_put srv (dbid rc) db')\<lparr>heap := h'\<rparr>, redis_module_use_reply_with_simple_string (lib S) rc ''OK'', 0)"
    and db': "db_inv (key_dict S) (expire_dict S) db'" "db_vals db' = (db_vals ?db)(k \<mapsto> va)"
    "\<forall>k'. db_ttl db' k' = (if k' = k \<and> live (db_vals ?db) (db_ttl ?db) now k = None then None else db_ttl ?db k')"
    and h': "next_addr h' = next_addr ?h" "cells h' = (cells (heap_free ?h (db_vals ?db k)))(va \<mapsto> ov\<lparr>refcount := 2, lru := l\<rparr>)"
    using set_command_spec [OF inv args(1) _ ka va ov(1), of now] args(2) by (auto simp: set_ran_def)
  have ne: "db_vals ?db k \<noteq> Some a0" "db_vals ?db k \<noteq> Some ka" using o0(3) ok(3) by (auto simp: ran_def)
  have c': "cells h' a0 = Some o0" "cells h' ka = Some ok" "cells h' va = Some (ov\<lparr>refcount := 2, lru := l\<rparr>)"
    using args(2) o0(1) ok(1) h'(2) ne by (auto simp: heap_free_other)
  have "3 < OBJ_STATIC_REFCOUNT (lib S)" using L(2) by (simp add: object_laws_def)
  then have cnt: "counted (lib S) h' [a0, ka, va]" using args(2) c' o0(2) ok(2) by (auto simp: counted_def)
  define h2 where "h2 = fold drop_ref [a0, ka, va] h'"
  define vobj where "vobj = ov\<lparr>refcount := 1, lru := l\<rparr>"
  have "cells h2 x = ((cells h')(a0 := None, ka := None, va \<mapsto> vobj)) x" for x
  proof (cases "x \<in> {a0, ka, va}")
    case True
    then show ?thesis using cells_drop_refs [OF args(2), of x h'] c' o0(2) ok(2) args(2) by (auto simp: h2_def vobj_def)
  next
    case False
    then show ?thesis using cells_drop_refs_other [of x "[a0, ka, va]" h'] by (simp add: h2_def)
  qed
  then have c2: "cells h2 = (cells (heap_free ?h (db_vals ?db k)))(a0 := None, ka := None, va \<mapsto> vobj)"
    using args(2) by (auto simp: h'(2) fun_eq_iff)
  have n2: "next_addr h2 = next_addr ?h" using h'(1) by (simp add: h2_def drop_ref_def split: option.splits)
  have sub: "cells (heap_free ?h v) x \<noteq> None \<Longrightarrow> x < next_addr ?h" for x v
    using D(7) unfolding heap_wf_def heap_free_def by (auto split: option.splits if_splits)
  have wf: "heap_wf h2" using sub ov(1) D(7) by (auto simp: heap_wf_def n2 c2 split: if_splits)
  have vo: "refcount vobj = 1" "string_obj (lib S) vobj v" using string_objD(6) [OF L(2) ov(2), of l 1] by (simp_all add: vobj_def)
  show thesis by (rule that [OF set cnt wf [unfolded h2_def] c2 [unfolded h2_def] vo db'])
qed

text \<open>What the heap holds for the other keys is as it was.\<close>

lemma set_keeps_others:
  assumes "db_owns db h" "a0 \<notin> ran (db_vals db)" "ka \<notin> ran (db_vals db)" "va \<notin> ran (db_vals db)"
    "cells h2 = (cells (heap_free h (db_vals db k)))(a0 := None, ka := None, va \<mapsto> vobj)"
  shows "\<forall>k' b. k' \<noteq> k \<longrightarrow> db_vals db k' = Some b \<longrightarrow> cells h2 b = cells h b"
proof (intro allI impI)
  fix k' b assume that: "k' \<noteq> k" "db_vals db k' = Some b"
  have "b \<noteq> a0" "b \<noteq> ka" "b \<noteq> va" using that(2) assms(2-4) by (auto simp: ran_def)
  moreover have "db_vals db k \<noteq> Some b" using that assms(1) unfolding db_owns_def by metis
  ultimately show "cells h2 b = cells h b" by (simp add: assms(5) heap_free_other)
qed

lemma set_then_reset:
  assumes inv: "srv_inv S srv (dbid rc)" and args: "args_of rc [a0, ka, va]" "distinct [a0, ka, va]"
    and a0: "arg_at (lib S) (dbs srv ! dbid rc) (heap srv) a0 c"
    and ka: "arg_at (lib S) (dbs srv ! dbid rc) (heap srv) ka k" "NUL \<notin> set k"
    and va: "arg_at (lib S) (dbs srv ! dbid rc) (heap srv) va v"
  shows "\<exists>srv1 rc1 rc2 h2. set_command S now srv rc = Inr (srv1, rc1, 0) \<and> emits rc (resp_encode (Simple ''OK'')) rc1 \<and>
    reset_redis_client (lib S) rc1 (heap srv1) = Inr (rc2, h2) \<and>
    srv_inv S (srv1\<lparr>heap := h2\<rparr>) (dbid rc) \<and>
    store (srv1\<lparr>heap := h2\<rparr>) (dbid rc) now = (store srv (dbid rc) now)(k \<mapsto> v) \<and>
    dom (cells h2) = dom (cells (heap_free (heap srv) (db_vals (dbs srv ! dbid rc) k))) - {a0, ka}"
proof -
  note D = srv_invD [OF inv]
  note L = sys_lawsD [OF D(1)]
  let ?db = "dbs srv ! dbid rc" and ?h = "heap srv"
  obtain db' h' vobj where set: "set_command S now srv rc =
      Inr ((db_put srv (dbid rc) db')\<lparr>heap := h'\<rparr>, redis_module_use_reply_with_simple_string (lib S) rc ''OK'', 0)"
    and cnt: "counted (lib S) h' [a0, ka, va]" and wf: "heap_wf (fold drop_ref [a0, ka, va] h')"
    and c2: "cells (fold drop_ref [a0, ka, va] h') = (cells (heap_free ?h (db_vals ?db k)))(a0 := None, ka := None, va \<mapsto> vobj)"
    and vo: "refcount vobj = 1" "string_obj (lib S) vobj v"
    and db': "db_inv (key_dict S) (expire_dict S) db'" "db_vals db' = (db_vals ?db)(k \<mapsto> va)"
      "\<forall>k'. db_ttl db' k' = (if k' = k \<and> live (db_vals ?db) (db_ttl ?db) now k = None then None else db_ttl ?db k')"
    by (rule set_then_drop [OF inv args a0 ka va, of now])
  define rc1 where "rc1 = redis_module_use_reply_with_simple_string (lib S) rc ''OK''"
  define h2 where "h2 = fold drop_ref [a0, ka, va] h'"
  have em: "emits rc (resp_encode (Simple ''OK'')) rc1" unfolding rc1_def by (rule simple_string_spec [OF L(3)]) simp
  have args1: "args_of rc1 [a0, ka, va]" using em args(1) unfolding emits_def by (metis args_of_frame)
  have reset: "reset_redis_client (lib S) rc1 h' = Inr (rc1\<lparr>argc := 0, cmd := None, argv_len_sum := 0, req_type := 0,
      multi_bulk_len := 0, bulk_len := -1\<rparr>, h2)"
    unfolding h2_def by (rule reset_redis_client_spec [OF L(2) args1 cnt])
  have ran: "a0 \<notin> ran (db_vals ?db)" "ka \<notin> ran (db_vals ?db)" "va \<notin> ran (db_vals ?db)" "int (length v) \<le> llong_max" "cells ?h va \<noteq> None"
    using a0 ka(1) va by (auto simp: arg_at_def)
  have same: "\<forall>k' b. k' \<noteq> k \<longrightarrow> db_vals ?db k' = Some b \<longrightarrow> cells h2 b = cells ?h b"
    using set_keeps_others [OF D(8) ran(1-3) c2] by (simp add: h2_def)
  note c2 = c2 [folded h2_def]
  have va2: "cells h2 va = Some vobj" by (simp add: c2)
  have dt: "dom (db_ttl db') \<subseteq> dom (db_ttl ?db)" using db'(3) by (auto simp: dom_def split: if_splits)
  have t1: "\<forall>k'. k' \<noteq> k \<longrightarrow> db_ttl db' k' = db_ttl ?db k'" using db'(3) by simp
  have t2: "\<forall>t. db_ttl db' k = Some t \<longrightarrow> now < t"
    using db'(3) by (auto simp: live_def split: if_splits)
  note fin = srv_inv_store [OF inv db'(1,2) dt va2 vo ran(4,3) same wf [folded h2_def]]
  have "dom (cells h2) = dom (cells (heap_free ?h (db_vals ?db k))) - {a0, ka}"
    using ran(3,5) args(2) by (auto simp: c2 heap_free_def ran_def dom_def split: option.splits if_splits)
  then show ?thesis using set em reset fin(1) fin(2) [OF t1 t2]
    by (intro exI [of _ "(db_put srv (dbid rc) db')\<lparr>heap := h'\<rparr>"] exI [of _ rc1] exI [of _ h2] exI) (auto simp: rc1_def)
qed

lemma get_command_spec:
  assumes inv: "srv_inv S srv (dbid rc)" and args: "args_of rc [a0, ka]"
    and ka: "arg_at (lib S) (dbs srv ! dbid rc) (heap srv) ka k"
  shows "\<exists>db' h' rc1. get_command S now srv rc = Inr ((db_put srv (dbid rc) db')\<lparr>heap := h'\<rparr>, rc1, 0) \<and>
    emits rc (case store srv (dbid rc) now k of None \<Rightarrow> ''*-1'' @ crlf | Some v \<Rightarrow> resp_encode (Bulk v)) rc1 \<and>
    keyspace_inv (lib S) (key_dict S) (expire_dict S) db' h' \<and>
    ks.expired_by now k (dbs srv ! dbid rc) (heap srv) db' h'"
proof -
  note D = srv_invD [OF inv]
  note L = sys_lawsD [OF D(1)]
  let ?db = "dbs srv ! dbid rc" and ?h = "heap srv"
  obtain kobj where kobj: "cells ?h ka = Some kobj" "string_obj (lib S) kobj k" using ka by (rule arg_atD)
  have argv: "argv_get rc 1 = Inr ka" "argc rc = 2" using argv_get_args [OF args, of 1] args by (auto simp: args_of_def)
  obtain db1 h1 where l: "redis_module_use_lookup_key S now srv rc ka = Inr ((db_put srv (dbid rc) db1)\<lparr>heap := h1\<rparr>,
       map_option (\<lambda>_. k) (live (db_vals ?db) (db_ttl ?db) now k))"
    "keyspace_inv (lib S) (key_dict S) (expire_dict S) db1 h1" "ks.expired_by now k ?db ?h db1 h1"
    by (rule lookup_key_spec [OF inv kobj])
  show ?thesis
  proof (cases "live (db_vals ?db) (db_ttl ?db) now k")
    case None
    let ?rc1 = "redis_module_use_reply_with_null (lib S) rc"
    have "get_command S now srv rc = Inr ((db_put srv (dbid rc) db1)\<lparr>heap := h1\<rparr>, ?rc1, 0)"
      using None argv l(1) by (simp add: get_command_def)
    moreover have "emits rc (case store srv (dbid rc) now k of None \<Rightarrow> ''*-1'' @ crlf | Some v \<Rightarrow> resp_encode (Bulk v)) ?rc1"
      using None out.emitted_put [OF L(3), of rc "''*-1'' @ crlf"] by (simp add: store_def redis_module_use_reply_with_null_def)
    ultimately show ?thesis using l(2,3) by blast
  next
    case (Some b)
    then have same: "db1 = ?db" "h1 = ?h" "db_vals ?db k = Some b"
      using l(3) by (auto simp: ks.expired_by_def live_def split: option.splits if_splits)
    obtain oobj v where oobj: "cells ?h b = Some oobj" "string_obj (lib S) oobj v" "int (length v) \<le> llong_max"
      using D(9) same(3) unfolding strings_only_def by blast
    let ?srv1 = "(db_put srv (dbid rc) db1)\<lparr>heap := h1\<rparr>"
    have get: "redis_module_use_db_entry_get_value S ?srv1 rc k = Inr (Some b)"
      using kv.entry_val [OF db_invD(1,2) [OF D(6)], of k "Some b"] same D(2) db_vals_lookup [OF D(6), of k]
      by (simp add: redis_module_use_db_entry_get_value_def)
    obtain rc1 where r: "redis_module_use_reply_with_object (lib S) rc oobj = Inr rc1" "emits rc (resp_encode (Bulk v)) rc1"
      using add_reply_bulk_spec [OF L(1) oobj(2,3)] unfolding redis_module_use_reply_with_object_def by blast
    have "store srv (dbid rc) now k = Some v"
      using Some oobj by (simp add: store_def text_at_def string_obj_def)
    moreover have "get_command S now srv rc = Inr (?srv1, rc1, 0)"
      using Some argv l(1) get oobj(1,2) r(1) same(2)
      by (simp add: get_command_def redis_module_use_object_is_string_def string_obj_def)
    ultimately show ?thesis using r(2) l(2,3) by (intro exI [of _ db1] exI [of _ h1] exI [of _ rc1]) simp
  qed
qed

section \<open>Loading\<close>

lemma api_registered:
  assumes D: "dict_laws (\<lambda>k. k) (api_dict S)"
  shows "dict_wf (\<lambda>k. k) (module_api srv) \<Longrightarrow> distinct (map fst fs) \<Longrightarrow>
    \<forall>n\<in>set (map fst fs). dict_map (\<lambda>k. k) (module_api srv) (''redis_module_'' @ n) = None \<Longrightarrow>
    srv' = fold (\<lambda>(n, f) srv. module_register_api S srv n f) fs srv \<Longrightarrow>
    dict_wf (\<lambda>k. k) (module_api srv') \<and>
    (\<forall>n f. (n, f) \<in> set fs \<longrightarrow> dict_map (\<lambda>k. k) (module_api srv') (''redis_module_'' @ n) = Some (''redis_module_'' @ n, Some f)) \<and>
    (\<forall>k. k \<notin> (\<lambda>n. ''redis_module_'' @ n) ` set (map fst fs) \<longrightarrow>
       dict_map (\<lambda>k. k) (module_api srv') k = dict_map (\<lambda>k. k) (module_api srv) k)"
proof (induction fs arbitrary: srv)
  case (Cons nf fs)
  obtain n f where nf: "nf = (n, f)" by fastforce
  define k where "k = ''redis_module_'' @ n"
  have "dict_map (\<lambda>k. k) (module_api srv) k = None" using Cons.prems(3) nf by (simp add: k_def)
  then obtain d where d: "dict_add (api_dict S) (module_api srv) k f = (d, True)" "dict_wf (\<lambda>k. k) d"
    "dict_map (\<lambda>k. k) d = (dict_map (\<lambda>k. k) (module_api srv))(k \<mapsto> (k, Some f))"
    using dict_laws_add_new [OF D Cons.prems(1)] by blast
  let ?srv1 = "module_register_api S srv n f"
  have m1: "module_api ?srv1 = d" using d(1) by (simp add: module_register_api_def k_def)
  have fresh: "\<forall>m\<in>set (map fst fs). dict_map (\<lambda>k. k) (module_api ?srv1) (''redis_module_'' @ m) = None"
    using Cons.prems(2,3) nf by (auto simp: m1 d(3) k_def image_iff)
  have IH: "dict_wf (\<lambda>k. k) (module_api srv') \<and>
    (\<forall>n f. (n, f) \<in> set fs \<longrightarrow> dict_map (\<lambda>k. k) (module_api srv') (''redis_module_'' @ n) = Some (''redis_module_'' @ n, Some f)) \<and>
    (\<forall>k. k \<notin> (\<lambda>n. ''redis_module_'' @ n) ` set (map fst fs) \<longrightarrow>
       dict_map (\<lambda>k. k) (module_api srv') k = dict_map (\<lambda>k. k) (module_api ?srv1) k)"
    using Cons.prems(2,4) nf d(2) m1 by (intro Cons.IH fresh) simp_all
  have "k \<notin> (\<lambda>n. ''redis_module_'' @ n) ` set (map fst fs)" using Cons.prems(2) nf by (auto simp: k_def)
  then have "dict_map (\<lambda>k. k) (module_api srv') k = Some (k, Some f)" using IH by (simp add: m1 d(3))
  then show ?case using IH nf by (auto simp: m1 d(3) k_def)
qed simp

text \<open>Every function the module header resolves is registered by the server.\<close>

lemma module_imports_found:
  assumes D: "dict_laws (\<lambda>k. k) (api_dict S)" and n: "n \<in> set module_imports"
  shows "module_pointer S (module_register_core_api S srv) n = map_of core_api n" "map_of core_api n \<noteq> None"
proof -
  let ?srv0 = "srv\<lparr>module_api := dict_new (api_dict S)\<rparr>"
  have e: "module_api ?srv0 = []" by (simp add: dict_laws_new [OF D])
  have "distinct (map fst core_api)" by code_simp
  with api_registered [OF D, of ?srv0 core_api "module_register_core_api S srv"] e
  have r: "dict_wf (\<lambda>k. k) (module_api (module_register_core_api S srv))"
    "\<And>n f. (n, f) \<in> set core_api \<Longrightarrow>
      dict_map (\<lambda>k. k) (module_api (module_register_core_api S srv)) (''redis_module_'' @ n) = Some (''redis_module_'' @ n, Some f)"
    unfolding module_register_core_api_def by auto
  have "list_all (\<lambda>n. map_of core_api n \<noteq> None) module_imports" by code_simp
  then show ne: "map_of core_api n \<noteq> None" using n by (simp add: list_all_iff)
  then obtain f where f: "map_of core_api n = Some f" by blast
  note m = r(2) [OF map_of_SomeD [OF f]]
  show "module_pointer S (module_register_core_api S srv) n = map_of core_api n"
    using dict_laws_find [OF D r(1)] dict_laws_get [OF D r(1) m] m f
    by (simp add: module_pointer_def redis_module_use_get_api_def)
qed

definition api_ready :: "sys \<Rightarrow> redis_server \<Rightarrow> bool" where
  "api_ready S srv \<longleftrightarrow> list_all (\<lambda>n. module_pointer S srv n \<noteq> None) module_imports"

lemma create_command_spec:
  assumes S: "sys_laws S" and wf: "cm_wf (cmd_manager srv)" and n: "NUL \<notin> set n"
    and fl: "command_flags_from_string (lib S) fs = Some fl" and new: "cm_map (cmd_manager srv) (map to_lower n) = None"
  shows "\<exists>cm i. redis_module_use_create_command S srv m n f fs 0 0 0 = (srv\<lparr>cmd_manager := cm\<rparr>, True) \<and> cm_wf cm \<and>
    cm_map cm = (cm_map (cmd_manager srv))(map to_lower n \<mapsto>
      \<lparr>cmd_name = n, cmd_proc = Redis_module_command_dispatcher, arity = -1, sflags = [], cmd_flags = fl OR CMD_MODULE,
       get_keys_proc = Some \<lparr>cp_module = mod_name m, cp_func = f\<rparr>, intention = 0, firstkey = 0, lastkey = 0, keystep = 0,
       microseconds = 0, calls = 0, rejected_calls = 0, failed_calls = 0, cmd_id = i\<rparr>)"
proof -
  let ?c = "\<lparr>cmd_name = n, cmd_proc = Redis_module_command_dispatcher, arity = -1, sflags = [], cmd_flags = fl OR CMD_MODULE,
       get_keys_proc = Some \<lparr>cp_module = mod_name m, cp_func = f\<rparr>, intention = 0, firstkey = 0, lastkey = 0, keystep = 0,
       microseconds = 0, calls = 0, rejected_calls = 0, failed_calls = 0, cmd_id = 0\<rparr>"
  obtain cm i where "command_manager_register_command (lib S) (rax_lib S) (command_dict S) (cmd_manager srv) ?c = (cm, True)"
    "cm_wf cm" "cm_map cm = (cm_map (cmd_manager srv))(map to_lower n \<mapsto> ?c\<lparr>cmd_id := i\<rparr>)"
    using register_new_map [OF sys_lawsD(4,8) [OF S] wf, where c = ?c and R = "rax_lib S"] n new by auto
  moreover have "command_manager_lookup (command_dict S) (cmd_manager srv) n = None"
    using command_manager_lookup_spec [OF sys_lawsD(8) [OF S] wf] new by simp
  ultimately show ?thesis using fl n by (auto simp: redis_module_use_create_command_def)
qed

lemma string_module_flags:
  assumes "sds_laws L"
  shows "command_flags_from_string L ''write deny-oom'' = Some (CMD_WRITE OR CMD_DENYOOM)"
    "command_flags_from_string L ''readonly'' = Some CMD_READONLY"
proof -
  have split: "ws \<noteq> [] \<Longrightarrow> list_all plain_word ws \<Longrightarrow> sds_split_len L (unwords ws) CHR '' '' = ws" for ws
    using assms by (simp add: sds_laws_def)
  have "list_all plain_word [''write'', ''deny-oom'']" "list_all plain_word [''readonly'']" by code_simp+
  from split [OF _ this(1)] split [OF _ this(2)]
  have "sds_split_len L ''write deny-oom'' CHR '' '' = [''write'', ''deny-oom'']" "sds_split_len L ''readonly'' CHR '' '' = [''readonly'']"
    by simp_all
  moreover have "flags_of_tokens [''write'', ''deny-oom''] 0 = Some (CMD_WRITE OR CMD_DENYOOM)"
    "flags_of_tokens [''readonly''] 0 = Some CMD_READONLY" by code_simp+
  ultimately show "command_flags_from_string L ''write deny-oom'' = Some (CMD_WRITE OR CMD_DENYOOM)"
    "command_flags_from_string L ''readonly'' = Some CMD_READONLY" by (simp_all add: command_flags_from_string_def)
qed

text \<open>The command a module function is registered as.\<close>

definition is_module_command :: "redis_command option \<Rightarrow> string \<Rightarrow> module_func \<Rightarrow> bool" where
  "is_module_command c m f \<longleftrightarrow>
     (\<exists>c'. c = Some c' \<and> cmd_proc c' = Redis_module_command_dispatcher \<and>
        get_keys_proc c' = Some \<lparr>cp_module = m, cp_func = f\<rparr> \<and> cmd_flags c' AND CMD_MODULE \<noteq> 0)"

lemma CMD_MODULE_nonzero [simp]: "CMD_MODULE \<noteq> 0"
  by (simp add: flag_values)

lemma lower_names: "map to_lower ''set'' = ''set''" "map to_lower ''get'' = ''get''" "map to_lower ''latte'' = ''latte''"
  by code_simp+

lemma module_pointer_cong:
  assumes "module_api srv' = module_api srv"
  shows "module_pointer S srv' n = module_pointer S srv n"
  unfolding module_pointer_def redis_module_use_get_api_def assms by (rule refl)

lemma onload_latte_spec:
  assumes S: "sys_laws S" and api: "api_ready S srv" and wf: "cm_wf (cmd_manager srv)"
    and new: "cm_map (cmd_manager srv) ''set'' = None" "cm_map (cmd_manager srv) ''get'' = None"
    and free: "\<not> redis_module_use_is_module_name_busy S srv ''latte''"
  shows "\<exists>cm m. redis_module_onload_latte S srv = Inr (srv\<lparr>cmd_manager := cm\<rparr>, Some m, True) \<and> mod_name m = ''latte'' \<and>
    cm_wf cm \<and> is_module_command (cm_map cm ''set'') ''latte'' Set_command \<and>
    is_module_command (cm_map cm ''get'') ''latte'' Get_command \<and>
    (\<forall>n. n \<noteq> ''set'' \<longrightarrow> n \<noteq> ''get'' \<longrightarrow> cm_map cm n = cm_map (cmd_manager srv) n)"
proof -
  note L = sys_lawsD(4) [OF S]
  let ?m = "\<lparr>mod_name = ''latte'', ver = 1, apiver = 1\<rparr>"
  have ptr: "module_pointer S (srv\<lparr>cmd_manager := cm\<rparr>) n = module_pointer S srv n" for cm n
    by (rule module_pointer_cong) simp
  have p: "module_pointer S srv ''set_module_attribs'' \<noteq> None" "module_pointer S srv ''create_command'' \<noteq> None"
    using api by (simp_all add: api_ready_def module_imports_def)
  have init: "redis_module_init S srv None ''latte'' 1 1 = Inr (Some ?m, True)"
    using p(1) free by (simp add: redis_module_init_def redis_module_use_set_module_attribs_def)
  obtain cm1 i1 where c1: "redis_module_use_create_command S srv ?m ''set'' Set_command ''write deny-oom'' 0 0 0 = (srv\<lparr>cmd_manager := cm1\<rparr>, True)"
    "cm_wf cm1" "cm_map cm1 = (cm_map (cmd_manager srv))(''set'' \<mapsto>
      \<lparr>cmd_name = ''set'', cmd_proc = Redis_module_command_dispatcher, arity = -1, sflags = [], cmd_flags = (CMD_WRITE OR CMD_DENYOOM) OR CMD_MODULE,
       get_keys_proc = Some \<lparr>cp_module = mod_name ?m, cp_func = Set_command\<rparr>, intention = 0, firstkey = 0, lastkey = 0, keystep = 0,
       microseconds = 0, calls = 0, rejected_calls = 0, failed_calls = 0, cmd_id = i1\<rparr>)"
    using create_command_spec [OF S wf _ string_module_flags(1) [OF L], of "''set''" ?m Set_command, unfolded lower_names] new(1) by auto
  have n2: "cm_map (cmd_manager (srv\<lparr>cmd_manager := cm1\<rparr>)) (map to_lower ''get'') = None" "cm_wf (cmd_manager (srv\<lparr>cmd_manager := cm1\<rparr>))"
    unfolding lower_names using c1 new(2) by simp_all
  obtain cm2 i2 where c2: "redis_module_use_create_command S (srv\<lparr>cmd_manager := cm1\<rparr>) ?m ''get'' Get_command ''readonly'' 0 0 0 =
      (srv\<lparr>cmd_manager := cm2\<rparr>, True)"
    "cm_wf cm2" "cm_map cm2 = (cm_map cm1)(''get'' \<mapsto>
      \<lparr>cmd_name = ''get'', cmd_proc = Redis_module_command_dispatcher, arity = -1, sflags = [], cmd_flags = CMD_READONLY OR CMD_MODULE,
       get_keys_proc = Some \<lparr>cp_module = mod_name ?m, cp_func = Get_command\<rparr>, intention = 0, firstkey = 0, lastkey = 0, keystep = 0,
       microseconds = 0, calls = 0, rejected_calls = 0, failed_calls = 0, cmd_id = i2\<rparr>)"
    using create_command_spec [OF S n2(2) _ string_module_flags(2) [OF L] n2(1), of ?m Get_command, unfolded lower_names] by auto
  obtain f where "module_pointer S srv ''create_command'' = Some f" using p(2) by blast
  then have "init_string_module S srv (Some ?m) = Inr (srv\<lparr>cmd_manager := cm2\<rparr>, True)"
    using c1(1) c2(1) by (simp add: init_string_module_def redis_module_create_command_def ptr)
  then have "redis_module_onload_latte S srv = Inr (srv\<lparr>cmd_manager := cm2\<rparr>, Some ?m, True)"
    using init by (simp add: redis_module_onload_latte_def)
  moreover have "is_module_command (cm_map cm2 ''set'') ''latte'' Set_command" "is_module_command (cm_map cm2 ''get'') ''latte'' Get_command"
    "\<forall>n. n \<noteq> ''set'' \<longrightarrow> n \<noteq> ''get'' \<longrightarrow> cm_map cm2 n = cm_map (cmd_manager srv) n"
    using c1(3) c2(3) by (auto simp: is_module_command_def)
  ultimately show ?thesis using c2(2) by (intro exI [of _ cm2] exI [of _ ?m]) simp
qed

lemma register_api_only: "\<exists>a. module_register_core_api S srv = srv\<lparr>module_api := a\<rparr>"
proof -
  have "\<exists>a. fold (\<lambda>(n, f) srv. module_register_api S srv n f) fs (srv\<lparr>module_api := a0\<rparr>) = srv\<lparr>module_api := a\<rparr>" for fs a0
    by (induction fs arbitrary: a0) (auto simp: module_register_api_def)
  then show ?thesis by (simp add: module_register_core_api_def)
qed

lemma register_api_fields:
  "cmd_manager (module_register_core_api S srv) = cmd_manager srv" "modules (module_register_core_api S srv) = modules srv"
  "dbs (module_register_core_api S srv) = dbs srv" "heap (module_register_core_api S srv) = heap srv"
  "hz (module_register_core_api S srv) = hz srv" "proto_max_bulk_len (module_register_core_api S srv) = proto_max_bulk_len srv"
  "server_metric (module_register_core_api S srv) = server_metric srv"
  using register_api_only [of S srv] by auto

lemma init_redis_server_spec:
  assumes "sys_laws S"
  shows "\<exists>srv. init_redis_server S rs = Inr srv \<and> api_ready S srv \<and> cm_wf (cmd_manager srv) \<and>
    cm_map (cmd_manager srv) = map_of (map (\<lambda>c. (cmd_name c, c)) registered_builtins) \<and>
    modules srv = dict_new (module_dict S)"
proof -
  obtain cm where "command_manager_new (lib S) (rax_lib S) (command_dict S) = Inr cm" "cm_wf cm"
    "cm_map cm = map_of (map (\<lambda>c. (cmd_name c, c)) registered_builtins)"
    using command_manager_new_spec [OF sys_lawsD(7,4,8) [OF assms]] by blast
  then show ?thesis using module_imports_found [OF sys_lawsD(10) [OF assms]]
    by (simp add: init_redis_server_def register_api_fields api_ready_def list_all_iff)
qed

lemma load_latte_spec:
  assumes "sys_laws S" "api_ready S srv" "cm_wf (cmd_manager srv)" "cm_map (cmd_manager srv) ''set'' = None"
    "cm_map (cmd_manager srv) ''get'' = None" "modules srv = dict_new (module_dict S)" "module_file_at S path = File_onload Onload_latte"
  obtains cm d m where "module_load S srv path = Inr (srv\<lparr>cmd_manager := cm, modules := d\<rparr>, True)" "cm_wf cm"
    "is_module_command (cm_map cm ''set'') ''latte'' Set_command" "is_module_command (cm_map cm ''get'') ''latte'' Get_command"
    "\<forall>n. n \<noteq> ''set'' \<longrightarrow> n \<noteq> ''get'' \<longrightarrow> cm_map cm n = cm_map (cmd_manager srv) n"
    "dict_wf (map to_lower) d" "dict_map (map to_lower) d = [''latte'' \<mapsto> (''latte'', Some m)]"
proof -
  note D = sys_lawsD(8,9) [OF assms(1)]
  have mods: "modules srv = []" using assms(6) dict_laws_new [OF D(2)] by simp
  then have "\<not> redis_module_use_is_module_name_busy S srv ''latte''"
    by (simp add: redis_module_use_is_module_name_busy_def dict_laws_find [OF D(2)])
  from onload_latte_spec [OF assms(1-5) this] obtain cm m where
    o: "redis_module_onload_latte S srv = Inr (srv\<lparr>cmd_manager := cm\<rparr>, Some m, True)" "mod_name m = ''latte''" "cm_wf cm"
    "is_module_command (cm_map cm ''set'') ''latte'' Set_command" "is_module_command (cm_map cm ''get'') ''latte'' Get_command"
    "\<forall>n. n \<noteq> ''set'' \<longrightarrow> n \<noteq> ''get'' \<longrightarrow> cm_map cm n = cm_map (cmd_manager srv) n" by blast
  obtain d where d: "dict_add (module_dict S) [] ''latte'' m = (d, True)" "dict_wf (map to_lower) d"
    "dict_map (map to_lower) d = (dict_map (map to_lower) [])(map to_lower ''latte'' \<mapsto> (''latte'', Some m))"
    using dict_laws_add_new [OF D(2), of "[]" "''latte''"] by auto
  have "module_load S srv path = Inr (srv\<lparr>cmd_manager := cm, modules := d\<rparr>, True)"
    using assms(7) o(1,2) d(1) mods by (simp add: module_load_def)
  moreover have "dict_map (map to_lower) d = [''latte'' \<mapsto> (''latte'', Some m)]" unfolding d(3) lower_names(3) by simp
  ultimately show thesis using that o(3-6) d(2) by blast
qed

section \<open>Properties\<close>

text \<open>
  C29. Every function pointer the module header resolves at load time is registered by the server under
  the name it is looked up with, so no module call goes through a NULL pointer.
\<close>

theorem module_api_complete:
  assumes "dict_laws (\<lambda>k. k) (api_dict S)"
  shows "\<forall>n\<in>set module_imports. module_pointer S (module_register_core_api S srv) n = map_of core_api n \<and> map_of core_api n \<noteq> None"
  using module_imports_found [OF assms] by blast

text \<open>
  C19. Loading the string module adds exactly the commands SET and GET, dispatched to its two
  functions, and marks the module's name as taken: a second load of it fails and changes nothing.
\<close>

theorem module_load_latte:
  assumes "sys_laws S" "api_ready S srv" "cm_wf (cmd_manager srv)" "cm_map (cmd_manager srv) ''set'' = None"
    "cm_map (cmd_manager srv) ''get'' = None" "modules srv = dict_new (module_dict S)" "module_file_at S path = File_onload Onload_latte"
  shows "\<exists>srv'. module_load S srv path = Inr (srv', True) \<and>
    (\<forall>n. map to_lower n = ''set'' \<longrightarrow> is_module_command (command_manager_lookup (command_dict S) (cmd_manager srv') n) ''latte'' Set_command) \<and>
    (\<forall>n. map to_lower n = ''get'' \<longrightarrow> is_module_command (command_manager_lookup (command_dict S) (cmd_manager srv') n) ''latte'' Get_command) \<and>
    (\<forall>n. map to_lower n \<noteq> ''set'' \<longrightarrow> map to_lower n \<noteq> ''get'' \<longrightarrow>
       command_manager_lookup (command_dict S) (cmd_manager srv') n = command_manager_lookup (command_dict S) (cmd_manager srv) n) \<and>
    module_load S srv' path = Inr (srv', False)"
proof -
  note D = sys_lawsD(8,9) [OF assms(1)]
  obtain cm d m where l: "module_load S srv path = Inr (srv\<lparr>cmd_manager := cm, modules := d\<rparr>, True)" "cm_wf cm"
    "is_module_command (cm_map cm ''set'') ''latte'' Set_command" "is_module_command (cm_map cm ''get'') ''latte'' Get_command"
    "\<forall>n. n \<noteq> ''set'' \<longrightarrow> n \<noteq> ''get'' \<longrightarrow> cm_map cm n = cm_map (cmd_manager srv) n"
    "dict_wf (map to_lower) d" "dict_map (map to_lower) d = [''latte'' \<mapsto> (''latte'', Some m)]"
    by (rule load_latte_spec [OF assms])
  define srv' where "srv' = srv\<lparr>cmd_manager := cm, modules := d\<rparr>"
  have "redis_module_use_is_module_name_busy S srv' ''latte''"
    using dict_laws_find [OF D(2) l(6), of "''latte''", unfolded l(7)] lower_names(3) by (simp add: redis_module_use_is_module_name_busy_def srv'_def)
  moreover have "module_pointer S srv' n = module_pointer S srv n" for n
    by (rule module_pointer_cong) (simp add: srv'_def)
  ultimately have "module_load S srv' path = Inr (srv', False)"
    using assms(2,7) by (simp add: module_load_def redis_module_onload_latte_def redis_module_init_def api_ready_def module_imports_def)
  moreover have "command_manager_lookup (command_dict S) (cmd_manager srv') n = cm_map cm (map to_lower n)" for n
    using command_manager_lookup_spec [OF D(1) l(2)] by (simp add: srv'_def)
  moreover have "command_manager_lookup (command_dict S) (cmd_manager srv) n = cm_map (cmd_manager srv) (map to_lower n)" for n
    by (rule command_manager_lookup_spec [OF D(1) assms(3)])
  ultimately show ?thesis using l(1,3-5) by (intro exI [of _ srv']) (simp add: srv'_def)
qed

text \<open>
  C8. SET on a key without NUL bytes answers +OK and, once the client has let go of its arguments,
  the database the reader sees is the old one with the key bound to the value, the invariant
  (every value owned by exactly one entry) holds again, and no object has leaked: what is allocated
  is what was allocated before, less the command's name, the key and the value that was replaced.
\<close>

theorem set_command_stores:
  assumes "srv_inv S srv (dbid rc)" "args_of rc [a0, ka, va]" "distinct [a0, ka, va]"
    "arg_at (lib S) (dbs srv ! dbid rc) (heap srv) a0 c"
    "arg_at (lib S) (dbs srv ! dbid rc) (heap srv) ka k" "NUL \<notin> set k"
    "arg_at (lib S) (dbs srv ! dbid rc) (heap srv) va v"
  shows "\<exists>srv1 rc1 rc2 h2. set_command S now srv rc = Inr (srv1, rc1, 0) \<and> emits rc (resp_encode (Simple ''OK'')) rc1 \<and>
    reset_redis_client (lib S) rc1 (heap srv1) = Inr (rc2, h2) \<and>
    srv_inv S (srv1\<lparr>heap := h2\<rparr>) (dbid rc) \<and>
    store (srv1\<lparr>heap := h2\<rparr>) (dbid rc) now = (store srv (dbid rc) now)(k \<mapsto> v) \<and>
    dom (cells h2) = dom (cells (heap_free (heap srv) (db_vals (dbs srv ! dbid rc) k))) - {a0, ka}"
  using assms by (rule set_then_reset)

text \<open>
  C9. GET answers with the bulk string the reader sees under the key at that moment, or with the null
  array when there is none or its deadline has come, and changes nothing the reader can see.
\<close>

theorem get_command_returns:
  assumes "srv_inv S srv (dbid rc)" "args_of rc [a0, ka]" "arg_at (lib S) (dbs srv ! dbid rc) (heap srv) ka k"
  shows "\<exists>srv1 rc1. get_command S now srv rc = Inr (srv1, rc1, 0) \<and>
    emits rc (case store srv (dbid rc) now k of None \<Rightarrow> ''*-1'' @ crlf | Some v \<Rightarrow> resp_encode (Bulk v)) rc1 \<and>
    srv_inv S srv1 (dbid rc) \<and> store srv1 (dbid rc) now = store srv (dbid rc) now"
  using get_command_spec [OF assms, of now] expired_srv_inv [OF assms(1)] by blast

text \<open>
  C37. SET looks a key up with all its bytes but stores it under the bytes before the first NUL: when
  the shortened key is taken and the whole key is not, the lookup finds nothing, the insertion finds
  an existing entry, and the process stops at an assertion.
\<close>

theorem set_nul_key_aborts:
  assumes "srv_inv S srv (dbid rc)" "args_of rc [a0, ka, va]" "ka \<noteq> va"
    "arg_at (lib S) (dbs srv ! dbid rc) (heap srv) ka k"
    "arg_at (lib S) (dbs srv ! dbid rc) (heap srv) va v"
    "db_vals (dbs srv ! dbid rc) k = None" "db_vals (dbs srv ! dbid rc) (c_string k) \<noteq> None"
  shows "set_command S now srv rc = Inl (Assert_fail ''overwrite is not supported'')"
proof -
  note D = srv_invD [OF assms(1)]
  note L = sys_lawsD [OF D(1)]
  let ?db = "dbs srv ! dbid rc" and ?h = "heap srv"
  obtain kobj where kobj: "cells ?h ka = Some kobj" "string_obj (lib S) kobj k" "ka \<notin> ran (db_vals ?db)" using assms(4) by (rule arg_atD)
  obtain vobj where vobj: "cells ?h va = Some vobj" "refcount vobj = 1" "va \<notin> ran (db_vals ?db)" using assms(5) by (rule arg_atD)
  have argv: "argv_get rc 1 = Inr ka" "argv_get rc 2 = Inr va" "argc rc = 3"
    using argv_get_args [OF assms(2), of 1] argv_get_args [OF assms(2), of 2] assms(2) by (auto simp: args_of_def)
  have none: "live (db_vals ?db) (db_ttl ?db) now k = None" "db_ttl ?db k = None"
    using assms(6) D(10) by (auto simp: live_def dom_def subset_iff split: option.splits)
  obtain db1 h1 where l: "redis_module_use_lookup_key S now srv rc ka = Inr ((db_put srv (dbid rc) db1)\<lparr>heap := h1\<rparr>,
       map_option (\<lambda>_. k) (live (db_vals ?db) (db_ttl ?db) now k))" "ks.expired_by now k ?db ?h db1 h1"
    using lookup_key_spec [OF assms(1) kobj(1,2)] by blast
  then have same: "db1 = ?db" "h1 = ?h" using none(2) by (simp_all add: ks.expired_by_def)
  let ?h2 = "obj_put ?h va (Some (vobj\<lparr>refcount := 2\<rparr>))"
  have incr: "latte_object_incr_ref_count (lib S) ?h va = Inr ?h2"
    using L(2) vobj(1,2) by (simp add: object_laws_def)
  have "keyspace_inv (lib S) (key_dict S) (expire_dict S) ?db ?h2"
    using D(5) vobj unfolding keyspace_inv_def db_owns_def by (auto simp: heap_wf_def ran_def)
  moreover obtain b where b: "db_vals ?db (c_string k) = Some b" using assms(7) by blast
  ultimately have "db_add_key_value (lib S) (key_dict S) now ((db_put srv (dbid rc) ?db)\<lparr>heap := ?h2\<rparr>) ?db ?h2 ka va =
      Inl (Assert_fail ''overwrite is not supported'')"
    using db_add_existing [of "key_dict S" "expire_dict S" ?db ?h2 "lib S" ka kobj k va "vobj\<lparr>refcount := 2\<rparr>" b] kobj assms(3)
    by (simp add: keyspace_inv_def)
  then show ?thesis using argv l(1) none(1) incr same D(2)
    by (simp add: set_command_def redis_module_use_object_incr_count_def redis_module_use_db_add_def)
qed

section \<open>Witnesses\<close>

definition sys_ref :: sys where
  "sys_ref = \<lparr>lib = latte_c_ref, key_dict = D0, expire_dict = D0e, command_dict = Dc0, module_dict = dict_ref (map to_lower),
     api_dict = dict_ref (\<lambda>k. k), metric_dict = Dm0, rax_lib = rax_ref,
     module_file_at = (\<lambda>p. if p = ''latte.so'' then File_onload Onload_latte else File_not_loadable)\<rparr>"

lemma sys_ref_laws: "sys_laws sys_ref"
  by (simp add: sys_laws_def sys_ref_def latte_c_ref_laws D0_laws D0e_laws Dc0_laws Dm0_laws rax_ref_laws dict_ref_laws)

text \<open>A server with \<open>k\<close> bound to \<open>v\<close> until 50, and the arguments of a client in its heap.\<close>

definition heap_w :: "string \<Rightarrow> obj_heap" where
  "heap_w k = \<lparr>cells = [1 \<mapsto> mk_string_obj ''v'', 2 \<mapsto> mk_string_obj ''set'', 3 \<mapsto> mk_string_obj k, 4 \<mapsto> mk_string_obj ''w''],
     next_addr = 5\<rparr>"

definition server_w :: "string \<Rightarrow> redis_server" where
  "server_w k =
     \<lparr>unixtime = 0, hz = 10, maxmemory_policy = 0, lruclock = 0, heap = heap_w k,
      cmd_manager = \<lparr>commands = [], commandId = [], nextid = 0\<rparr>, clients_to_close = [], current_client = None,
      modules = [], module_api = [], proto_max_bulk_len = 1048576, dbs = [db_ex2],
      slowlog = slowlog_manager_new 128 10000, server_metric = metric_new Dm0 16, metric_stat_numcommands = 0\<rparr>"

definition client_w :: "nat list \<Rightarrow> redis_client" where
  "client_w as = client_ex\<lparr>argc := length as, argv := Argv (map Some as)\<rparr>"

lemma sys_ref_sel [simp]: "lib sys_ref = latte_c_ref" "key_dict sys_ref = D0" "expire_dict sys_ref = D0e"
  by (simp_all add: sys_ref_def)

lemma server_w_sel [simp]: "dbs (server_w k) = [db_ex2]" "heap (server_w k) = heap_w k" "hz (server_w k) = 10"
  "dbid (client_w as) = 0"
  by (simp_all add: server_w_def client_w_def client_ex_def)

lemma heap_w_cells: "cells (heap_w k) 1 = Some (mk_string_obj ''v'')" "cells (heap_w k) 2 = Some (mk_string_obj ''set'')"
  "cells (heap_w k) 3 = Some (mk_string_obj k)" "cells (heap_w k) 4 = Some (mk_string_obj ''w'')" "heap_wf (heap_w k)"
  "refcount (mk_string_obj s) = 1"
  by (auto simp: heap_w_def heap_wf_def mk_string_obj_def split: if_splits)

lemma srv_inv_w: "srv_inv sys_ref (server_w k) (dbid (client_w as))"
proof -
  have "db_owns db_ex2 (heap_w k)" "strings_only latte_c_ref db_ex2 (heap_w k)"
    using db_ex2(2) heap_w_cells h_ex(3) [of "''v''"] by (auto simp: db_owns_def strings_only_def split: if_splits)
  then show ?thesis using db_ex2 heap_w_cells(5) object_laws_ref by (simp add: srv_inv_def sys_ref_laws keyspace_inv_def)
qed

lemma args_w: "args_of (client_w as) as"
  by (simp add: args_of_def client_w_def)

lemma arg_at_w:
  assumes "int (length k) \<le> llong_max"
  shows "arg_at (lib sys_ref) (dbs (server_w k) ! dbid (client_w as)) (heap (server_w k)) 2 ''set''"
    "arg_at (lib sys_ref) (dbs (server_w k) ! dbid (client_w as)) (heap (server_w k)) 3 k"
    "arg_at (lib sys_ref) (dbs (server_w k) ! dbid (client_w as)) (heap (server_w k)) 4 ''w''"
  using assms db_ex2(2) heap_w_cells h_ex(3) by (simp_all add: arg_at_def ran_def)

lemma store_w: "store (server_w k) (dbid (client_w as)) now = (if 50 \<le> now then Map.empty else [''k'' \<mapsto> ''v''])"
  using db_ex2 heap_w_cells(1) [of k] by (auto simp: store_def live_def text_at_def mk_string_obj_def fun_eq_iff)

theorem module_api_complete_witness:
  "module_pointer sys_ref (module_register_core_api sys_ref (server_w [])) ''lookup_key'' = Some Api_lookup_key"
  using module_api_complete [OF sys_lawsD(10) [OF sys_ref_laws], of "server_w []"]
  by (auto simp: module_imports_def core_api_def)

theorem module_load_latte_witness:
  "\<exists>srv srv'. init_redis_server sys_ref (server_w []) = Inr srv \<and> module_load sys_ref srv ''latte.so'' = Inr (srv', True) \<and>
     module_load sys_ref srv' ''latte.so'' = Inr (srv', False)"
proof -
  obtain srv where srv: "init_redis_server sys_ref (server_w []) = Inr srv" "api_ready sys_ref srv" "cm_wf (cmd_manager srv)"
    "cm_map (cmd_manager srv) = map_of (map (\<lambda>c. (cmd_name c, c)) registered_builtins)" "modules srv = dict_new (module_dict sys_ref)"
    using init_redis_server_spec [OF sys_ref_laws] by blast
  have "cm_map (cmd_manager srv) ''set'' = None" "cm_map (cmd_manager srv) ''get'' = None"
    "module_file_at sys_ref ''latte.so'' = File_onload Onload_latte"
    by (simp_all add: srv(4) registered_builtins_def builtin_def sys_ref_def)
  from module_load_latte [OF sys_ref_laws srv(2,3) this(1,2) srv(5) this(3)] srv(1) show ?thesis by blast
qed

theorem set_command_stores_witness:
  "\<exists>srv1 rc1 rc2 h2. set_command sys_ref 20 (server_w ''k'') (client_w [2, 3, 4]) = Inr (srv1, rc1, 0) \<and>
     reset_redis_client (lib sys_ref) rc1 (heap srv1) = Inr (rc2, h2) \<and>
     store (srv1\<lparr>heap := h2\<rparr>) (dbid (client_w [2, 3, 4])) 20 = [''k'' \<mapsto> ''w'']"
  using set_command_stores [OF srv_inv_w args_w _ arg_at_w(1) arg_at_w(2) _ arg_at_w(3), of "''k''" 20]
  unfolding store_w by fastforce

theorem get_command_returns_witness:
  "(\<exists>srv1 rc1. get_command sys_ref 20 (server_w ''k'') (client_w [2, 3]) = Inr (srv1, rc1, 0) \<and>
     emits (client_w [2, 3]) (resp_encode (Bulk ''v'')) rc1) \<and>
   (\<exists>srv1 rc1. get_command sys_ref 60 (server_w ''k'') (client_w [2, 3]) = Inr (srv1, rc1, 0) \<and>
     emits (client_w [2, 3]) (''*-1'' @ crlf) rc1)"
  using get_command_returns [OF srv_inv_w args_w arg_at_w(2), of "''k''" 20 2]
    get_command_returns [OF srv_inv_w args_w arg_at_w(2), of "''k''" 60 2]
  unfolding store_w by fastforce

theorem set_nul_key_aborts_witness:
  "set_command sys_ref 20 (server_w [CHR ''k'', NUL, CHR ''x'']) (client_w [2, 3, 4]) =
     Inl (Assert_fail ''overwrite is not supported'')"
proof -
  have "c_string [CHR ''k'', NUL, CHR ''x''] = ''k''" by (simp add: c_string_def)
  moreover have "db_vals (dbs (server_w [CHR ''k'', NUL, CHR ''x'']) ! dbid (client_w [2, 3, 4])) = [''k'' \<mapsto> 1]"
    using db_ex2(2) by simp
  ultimately show ?thesis
    using set_nul_key_aborts [OF srv_inv_w args_w _ arg_at_w(2,3), of "[CHR ''k'', NUL, CHR ''x'']" 2 20] by simp
qed

end
