(* ===== verification/Commands.thy ===== *)
theory Commands
  imports Server
begin

text \<open>
  The built-in commands of \<open>src/commands/command_manager.c\<close>, \<open>src/commands/info.c\<close> and
  \<open>src/commands/module.c\<close>, and the execution of a client's command in \<open>src/redis/client.c\<close>. A command
  takes the server and the client and returns both; the time it reads is an argument.
\<close>

section \<open>The commands\<close>

definition quit_command :: "latte_c \<Rightarrow> redis_client \<Rightarrow> redis_client res" where
  "quit_command L c =
     res_bind (add_reply L c (sh_ok (init_shared_objects L))) (\<lambda>c.
     Inr (c\<lparr>client := (client c)\<lparr>cl_flags := cl_flags (client c) OR CLIENT_CLOSE_AFTER_REPLY L\<rparr>\<rparr>))"

definition wrong_arity :: "latte_c \<Rightarrow> redis_client \<Rightarrow> redis_client res" where
  "wrong_arity L c =
     (case cmd c of
        None \<Rightarrow> Inl (Null_deref ''c->cmd->name'')
      | Some cm \<Rightarrow> Inr (add_reply_error_format L c
          (''wrong number of arguments for '' @ [CHR 0x27] @ c_string (cmd_name cm) @ [CHR 0x27] @ '' command'')))"

text \<open>The bytes of a string argument, \<open>c->argv[i]->ptr\<close> with \<open>string_object_len(c->argv[i])\<close>.\<close>

definition arg_bytes :: "latte_c \<Rightarrow> obj_heap \<Rightarrow> redis_client \<Rightarrow> nat \<Rightarrow> string res" where
  "arg_bytes L h c i =
     res_bind (argv_get c i) (\<lambda>a.
     res_bind (obj_get h a) (\<lambda>obj.
     case ptr obj of
       Ptr_bytes s \<Rightarrow> Inr (take (string_object_len L obj) s)
     | _ \<Rightarrow> Inl (Null_deref ''argv[i]->ptr'')))"

definition expire_command :: "sys \<Rightarrow> int \<Rightarrow> redis_server \<Rightarrow> redis_client \<Rightarrow> (redis_server \<times> redis_client) res" where
  "expire_command S now srv c =
     (let L = lib S; sh = init_shared_objects L in
      if argc c \<noteq> 3 then res_bind (wrong_arity L c) (\<lambda>c. Inr (srv, c))
      else
        res_bind (arg_bytes L (heap srv) c 2) (\<lambda>secs.
        case string2ll L secs of
          None \<Rightarrow> Inr (srv, add_reply_error L c ''ERR value is not an integer or out of range'')
        | Some seconds \<Rightarrow>
            if seconds < 0 then Inr (srv, add_reply_error L c ''ERR value is not an integer or out of range'')
            else
              res_bind (arg_bytes L (heap srv) c 1) (\<lambda>key_sds.
              res_bind (db_get srv (dbid c)) (\<lambda>db.
              res_bind (kv_store_dict_find (key_dict S) (keys db) (get_kv_store_index_for_key key_sds) key_sds) (\<lambda>de.
              if de = None then
                res_bind (add_reply_long_long_with_prefix L sh c 0 CHR '':'') (\<lambda>c. Inr (srv, c))
              else
                res_bind (db_set_expire (expire_dict S) db key_sds (wrap64 (now + wrap64 (seconds * 1000)))) (\<lambda>(db, r).
                let srv = db_put srv (dbid c) db in
                if r \<noteq> 0 then Inr (srv, add_reply_error L c ''ERR could not set expire'')
                else res_bind (add_reply_long_long_with_prefix L sh c 1 CHR '':'') (\<lambda>c. Inr (srv, c))))))))"

definition ping_command :: "latte_c \<Rightarrow> obj_heap \<Rightarrow> redis_client \<Rightarrow> redis_client res" where
  "ping_command L h c =
     (if 2 < argc c then wrong_arity L c
      else if argc c = 1 then add_reply L c (sh_pong (init_shared_objects L))
      else
        res_bind (argv_get c 1) (\<lambda>a.
        res_bind (obj_get h a) (\<lambda>obj.
        add_reply_bulk L (init_shared_objects L) c obj)))"

text \<open>Sixteen bytes of a text of fifteen: the terminating NUL is sent as well.\<close>

definition info_command :: "latte_c \<Rightarrow> redis_client \<Rightarrow> redis_client" where
  "info_command L c = reply_proto L c (''Not implemented'' @ [NUL])"

definition module_help_command :: "latte_c \<Rightarrow> obj_heap \<Rightarrow> redis_client \<Rightarrow> redis_client res" where
  "module_help_command L h c =
     add_reply_help L h c
       [''LIST'',
        ''  Return a list of loaded modules.'',
        ''LOAD <path> [<arg> ...]'',
        ''  Load a module library from <path>, passing to it any optional arguments.'',
        ''UNLOAD <name>'',
        ''  Unload a module.'']"

definition module_load_command :: "sys \<Rightarrow> redis_server \<Rightarrow> redis_client \<Rightarrow> (redis_server \<times> redis_client) res" where
  "module_load_command S srv c =
     res_bind (argv_get c 2) (\<lambda>a.
     res_bind (obj_get (heap srv) a) (\<lambda>obj.
     case ptr obj of
       Ptr_bytes path \<Rightarrow>
         res_bind (module_load S srv (c_string path)) (\<lambda>(srv, ok).
         if ok then res_bind (add_reply (lib S) c (sh_ok (init_shared_objects (lib S)))) (\<lambda>c. Inr (srv, c))
         else Inr (srv, add_reply_error (lib S) c ''Error loading the extension. Please check the server logs.''))
     | _ \<Rightarrow> Inl (Null_deref ''argv[2]->ptr'')))"

definition module_unload_command :: "redis_client \<Rightarrow> redis_client" where
  "module_unload_command c = c"

definition module_list_command :: "redis_client \<Rightarrow> redis_client" where
  "module_list_command c = c"

text \<open>The sub-command is read before the number of arguments is looked at.\<close>

definition module_command :: "sys \<Rightarrow> redis_server \<Rightarrow> redis_client \<Rightarrow> (redis_server \<times> redis_client) res" where
  "module_command S srv c =
     res_bind (argv_get c 1) (\<lambda>a.
     res_bind (obj_get (heap srv) a) (\<lambda>obj.
     case ptr obj of
       Ptr_bytes subcmd \<Rightarrow>
         if argc c = 2 \<and> strcase_eq subcmd ''help'' then
           res_bind (module_help_command (lib S) (heap srv) c) (\<lambda>c. Inr (srv, c))
         else if strcase_eq subcmd ''load'' \<and> 3 \<le> argc c then module_load_command S srv c
         else if strcase_eq subcmd ''unload'' \<and> 3 \<le> argc c then Inr (srv, module_unload_command c)
         else if strcase_eq subcmd ''list'' \<and> 3 \<le> argc c then Inr (srv, module_list_command c)
         else Inr (srv, c)
     | _ \<Rightarrow> Inl (Null_deref ''argv[1]->ptr'')))"

section \<open>Execution\<close>

definition call :: "sys \<Rightarrow> int \<Rightarrow> redis_server \<Rightarrow> redis_client \<Rightarrow> (redis_server \<times> redis_client) res" where
  "call S now srv rc =
     (case cmd rc of
        None \<Rightarrow> Inl (Null_deref ''rc->cmd->proc'')
      | Some c \<Rightarrow>
          (case cmd_proc c of
             Quit_command \<Rightarrow> res_bind (quit_command (lib S) rc) (\<lambda>rc. Inr (srv, rc))
           | Module_command \<Rightarrow> module_command S srv rc
           | Ping_command \<Rightarrow> res_bind (ping_command (lib S) (heap srv) rc) (\<lambda>rc. Inr (srv, rc))
           | Info_command \<Rightarrow> Inr (srv, info_command (lib S) rc)
           | Expire_command \<Rightarrow> expire_command S now srv rc
           | Redis_module_command_dispatcher \<Rightarrow> redis_module_command_dispatcher S now srv rc))"

definition process_command :: "sys \<Rightarrow> int \<Rightarrow> redis_server \<Rightarrow> redis_client \<Rightarrow> (redis_server \<times> redis_client \<times> int) res" where
  "process_command S now srv rc =
     res_bind (arg_bytes (lib S) (heap srv) rc 0) (\<lambda>cmd_sds.
     let found = command_manager_lookup (command_dict S) (cmd_manager srv) cmd_sds;
         rc = rc\<lparr>cmd := found, lastcmd := found\<rparr> in
     if found = None then Inr (srv, rc, -1)
     else res_bind (call S now srv rc) (\<lambda>(srv, rc). Inr (srv, rc, 0)))"

text \<open>
  \<open>self\<close> is the client's address. No command clears \<open>current_client\<close>, so the client is never
  found dead.
\<close>

definition process_command_and_reset_client ::
  "sys \<Rightarrow> int \<Rightarrow> nat \<Rightarrow> redis_server \<Rightarrow> redis_client \<Rightarrow> (redis_server \<times> redis_client \<times> int) res" where
  "process_command_and_reset_client S now self srv rc =
     (let old_client = current_client srv;
          srv = srv\<lparr>current_client := Some self\<rparr> in
      res_bind (process_command S now srv rc) (\<lambda>(srv, rc, r).
      res_bind (if r = 0 then res_bind (command_processed (lib S) rc (heap srv)) (\<lambda>(rc, h). Inr (srv\<lparr>heap := h\<rparr>, rc))
                else Inr (srv, rc)) (\<lambda>(srv, rc).
      let deadclient = (current_client srv = None);
          srv = srv\<lparr>current_client := old_client\<rparr>
      in Inr (srv, rc, if deadclient then -1 else 0))))"

section \<open>Behaviour\<close>

lemma arg_bytes_spec:
  assumes "object_laws L" "args_of c as" "i < length as" "cells h (as ! i) = Some obj" "string_obj L obj s"
  shows "arg_bytes L h c i = Inr s"
  using argv_get_args [OF assms(2,3)] assms(4) string_objD [OF assms(1,5)] by (simp add: arg_bytes_def)

lemma wrong_arity_spec:
  assumes "reply_laws L" "sds_laws L" "cmd c = Some cm"
  shows "\<exists>c' t. wrong_arity L c = Inr c' \<and> emits c (resp_encode (Err t)) c' \<and> resp_wf (Err t)"
  using add_reply_error_format_spec [OF assms(1,2)] assms(3) by (fastforce simp: wrong_arity_def)

lemma quit_command_spec:
  assumes "latte_c_laws L"
  shows "\<exists>c1. quit_command L c = Inr (c1\<lparr>client := (client c1)\<lparr>cl_flags := cl_flags (client c1) OR CLIENT_CLOSE_AFTER_REPLY L\<rparr>\<rparr>) \<and>
    emits c (resp_encode (Simple ''OK'')) c1"
proof -
  have L: "reply_laws L" "object_laws L" "sds_laws L" using assms by (simp_all add: latte_c_laws_def)
  show ?thesis using add_reply_spec [OF L(1) shared_objects_spec(2) [OF L(2,3)], of c] by (auto simp: quit_command_def)
qed

lemma ping_command_spec:
  assumes "latte_c_laws L"
  shows "args_of c [a0] \<Longrightarrow> \<exists>c'. ping_command L h c = Inr c' \<and> emits c (resp_encode (Simple ''PONG'')) c'"
    "args_of c [a0, a1] \<Longrightarrow> cells h a1 = Some obj \<Longrightarrow> string_obj L obj s \<Longrightarrow> int (length s) \<le> llong_max \<Longrightarrow>
      \<exists>c'. ping_command L h c = Inr c' \<and> emits c (resp_encode (Bulk s)) c'"
    "args_of c as \<Longrightarrow> 2 < length as \<Longrightarrow> cmd c = Some cm \<Longrightarrow>
      \<exists>c' t. ping_command L h c = Inr c' \<and> emits c (resp_encode (Err t)) c' \<and> resp_wf (Err t)"
proof -
  have L: "reply_laws L" "object_laws L" "sds_laws L" using assms by (simp_all add: latte_c_laws_def)
  show "args_of c [a0] \<Longrightarrow> \<exists>c'. ping_command L h c = Inr c' \<and> emits c (resp_encode (Simple ''PONG'')) c'"
    using add_reply_spec [OF L(1) shared_objects_spec(3) [OF L(2,3)], of c] by (auto simp: ping_command_def args_of_def)
  show "args_of c [a0, a1] \<Longrightarrow> cells h a1 = Some obj \<Longrightarrow> string_obj L obj s \<Longrightarrow> int (length s) \<le> llong_max \<Longrightarrow>
      \<exists>c'. ping_command L h c = Inr c' \<and> emits c (resp_encode (Bulk s)) c'"
    using add_reply_bulk_spec [OF assms, of obj s c] argv_get_args [of c "[a0, a1]" 1]
    by (auto simp: ping_command_def args_of_def)
  show "args_of c as \<Longrightarrow> 2 < length as \<Longrightarrow> cmd c = Some cm \<Longrightarrow>
      \<exists>c' t. ping_command L h c = Inr c' \<and> emits c (resp_encode (Err t)) c' \<and> resp_wf (Err t)"
    using wrong_arity_spec [OF L(1,3), of c cm] by (auto simp: ping_command_def args_of_def)
qed

text \<open>What EXPIRE answers, and the deadline it leaves.\<close>

definition expire_reply :: "latte_c \<Rightarrow> redis_db \<Rightarrow> string \<Rightarrow> string \<Rightarrow> resp" where
  "expire_reply L db k s =
     (case string2ll L s of
        None \<Rightarrow> Err ''ERR ERR value is not an integer or out of range''
      | Some n \<Rightarrow>
          if n < 0 then Err ''ERR ERR value is not an integer or out of range''
          else if db_vals db k = None then Integer 0
          else if db_ttl db k \<noteq> None then Err ''ERR ERR could not set expire''
          else Integer 1)"

definition expire_ttl :: "latte_c \<Rightarrow> redis_db \<Rightarrow> int \<Rightarrow> string \<Rightarrow> string \<Rightarrow> string \<rightharpoonup> int" where
  "expire_ttl L db now k s =
     (case string2ll L s of
        None \<Rightarrow> db_ttl db
      | Some n \<Rightarrow>
          if 0 \<le> n \<and> db_vals db k \<noteq> None \<and> db_ttl db k = None
          then (db_ttl db)(k \<mapsto> wrap64 (now + wrap64 (n * 1000))) else db_ttl db)"

lemma err_text_simp: "hd s \<noteq> CHR ''-'' \<Longrightarrow> err_text s = ''ERR '' @ s"
  by (simp add: err_text_def)

lemma error_reply:
  "reply_laws L \<Longrightarrow> NUL \<notin> set s \<Longrightarrow> hd s \<noteq> CHR ''-'' \<Longrightarrow> emits c (resp_encode (Err (''ERR '' @ s))) (add_reply_error L c s)"
  using add_reply_error_spec [of L c s] by (simp add: err_text_simp)

text \<open>What EXPIRE does: the reply, the deadlines, and nothing else.\<close>

definition expire_ran :: "sys \<Rightarrow> int \<Rightarrow> redis_server \<Rightarrow> redis_client \<Rightarrow> string \<Rightarrow> string \<Rightarrow> bool" where
  "expire_ran S now srv c k s \<longleftrightarrow> (\<exists>db' c'. expire_command S now srv c = Inr (db_put srv (dbid c) db', c') \<and>
    emits c (resp_encode (expire_reply (lib S) (dbs srv ! dbid c) k s)) c' \<and>
    keyspace_inv (lib S) (key_dict S) (expire_dict S) db' (heap srv) \<and>
    db_vals db' = db_vals (dbs srv ! dbid c) \<and> db_ttl db' = expire_ttl (lib S) (dbs srv ! dbid c) now k s)"

text \<open>The branches that leave the database as it is: no number, and no such key.\<close>

lemma expire_ran_self:
  assumes "srv_inv S srv (dbid c)" "expire_command S now srv c = Inr (srv, c')" "emits c (resp_encode (expire_reply (lib S) (dbs srv ! dbid c) k s)) c'"
    "expire_ttl (lib S) (dbs srv ! dbid c) now k s = db_ttl (dbs srv ! dbid c)"
  shows "expire_ran S now srv c k s"
proof -
  have "db_put srv (dbid c) (dbs srv ! dbid c) = srv" by (simp add: db_put_def)
  then show ?thesis unfolding expire_ran_def using assms srv_invD(5) [OF assms(1)] by (intro exI [of _ "dbs srv ! dbid c"] exI [of _ c']) simp
qed

lemma expire_command_no_number:
  assumes inv: "srv_inv S srv (dbid c)" and ac: "argc c = 3" and bytes: "arg_bytes (lib S) (heap srv) c 2 = Inr s"
    and bad: "\<not> (\<exists>n. string2ll (lib S) s = Some n \<and> 0 \<le> n)"
  shows "expire_ran S now srv c k s"
proof (rule expire_ran_self [OF inv])
  show "expire_command S now srv c = Inr (srv, add_reply_error (lib S) c ''ERR value is not an integer or out of range'')"
    using ac bytes bad by (auto simp: expire_command_def Let_def split: option.splits)
  have "expire_reply (lib S) (dbs srv ! dbid c) k s = Err ''ERR ERR value is not an integer or out of range''"
    using bad by (auto simp: expire_reply_def split: option.splits)
  then show "emits c (resp_encode (expire_reply (lib S) (dbs srv ! dbid c) k s))
      (add_reply_error (lib S) c ''ERR value is not an integer or out of range'')"
    using error_reply [OF sys_lawsD(3) [OF srv_invD(1) [OF inv]], of "''ERR value is not an integer or out of range''" c] by simp
  show "expire_ttl (lib S) (dbs srv ! dbid c) now k s = db_ttl (dbs srv ! dbid c)" using bad by (auto simp: expire_ttl_def split: option.splits)
qed

text \<open>The branches behind the lookup of the key.\<close>

lemma expire_command_number:
  assumes inv: "srv_inv S srv (dbid c)" and ac: "argc c = 3"
    and bytes: "arg_bytes (lib S) (heap srv) c 2 = Inr s" "arg_bytes (lib S) (heap srv) c 1 = Inr k"
    and n: "string2ll (lib S) s = Some n" "0 \<le> n"
  shows "expire_ran S now srv c k s"
proof -
  note D = srv_invD [OF inv]
  note L = sys_lawsD [OF D(1)]
  let ?L = "lib S" and ?db = "dbs srv ! dbid c" and ?when = "wrap64 (now + wrap64 (n * 1000))"
  note find = ks.find [OF D(5), of k]
  note run = ac bytes n D(4) find
  show ?thesis
  proof (cases "db_vals ?db k")
    case None
    obtain c0 where c0: "add_reply_long_long_with_prefix ?L (init_shared_objects ?L) c 0 CHR '':'' = Inr c0" "emits c (resp_encode (Integer 0)) c0"
      using add_reply_long_long_spec [OF L(1), of 0 c "CHR '':''"] by auto
    have "expire_command S now srv c = Inr (srv, c0)" using run None c0(1) by (simp add: expire_command_def Let_def)
    then show ?thesis using expire_ran_self [OF inv] c0(2) None n by (simp add: expire_reply_def expire_ttl_def)
  next
    case key: (Some b)
    show ?thesis
    proof (cases "db_ttl ?db k")
      case None
      obtain c1 where c1: "add_reply_long_long_with_prefix ?L (init_shared_objects ?L) c 1 CHR '':'' = Inr c1" "emits c (resp_encode (Integer 1)) c1"
        using add_reply_long_long_spec [OF L(1), of 1 c "CHR '':''"] by auto
      obtain db' where d: "db_set_expire (expire_dict S) ?db k ?when = Inr (db', 0)"
        "keyspace_inv ?L (key_dict S) (expire_dict S) db' (heap srv)" "db_vals db' = db_vals ?db" "db_ttl db' = (db_ttl ?db)(k \<mapsto> ?when)"
        using ks.set_expire_new [OF D(5) key None] by blast
      have "expire_command S now srv c = Inr (db_put srv (dbid c) db', c1)"
        using run key d(1) c1(1) by (simp add: expire_command_def Let_def)
      then show ?thesis unfolding expire_ran_def using c1(2) d(2-4) None key n
        by (intro exI [of _ db'] exI [of _ c1]) (simp add: expire_reply_def expire_ttl_def)
    next
      case ttl: (Some t)
      obtain db' where d: "db_set_expire (expire_dict S) ?db k ?when = Inr (db', -1)"
        "keyspace_inv ?L (key_dict S) (expire_dict S) db' (heap srv)" "db_vals db' = db_vals ?db" "db_ttl db' = db_ttl ?db"
        using ks.set_expire_old [OF D(5) ttl] by blast
      have "expire_command S now srv c = Inr (db_put srv (dbid c) db', add_reply_error ?L c ''ERR could not set expire'')"
        using run key d(1) by (simp add: expire_command_def Let_def)
      moreover have "emits c (resp_encode (Err ''ERR ERR could not set expire'')) (add_reply_error ?L c ''ERR could not set expire'')"
        using error_reply [OF L(3), of "''ERR could not set expire''" c] by simp
      ultimately show ?thesis unfolding expire_ran_def using d(2-4) ttl key n
        by (intro exI [of _ db'] exI) (auto simp: expire_reply_def expire_ttl_def)
    qed
  qed
qed

lemma expire_command_spec:
  assumes inv: "srv_inv S srv (dbid c)" and args: "args_of c [a0, ka, sa]"
    and k: "cells (heap srv) ka = Some kobj" "string_obj (lib S) kobj k"
    and s: "cells (heap srv) sa = Some sobj" "string_obj (lib S) sobj s"
  shows "expire_ran S now srv c k s"
proof -
  note L = sys_lawsD [OF srv_invD(1) [OF inv]]
  have ac: "argc c = 3" using args by (simp add: args_of_def)
  have bytes: "arg_bytes (lib S) (heap srv) c 2 = Inr s" "arg_bytes (lib S) (heap srv) c 1 = Inr k"
    using arg_bytes_spec [OF L(2) args, of 2 _ sobj s] arg_bytes_spec [OF L(2) args, of 1 _ kobj k] k s by simp_all
  show ?thesis using expire_command_no_number [OF inv ac bytes(1)] expire_command_number [OF inv ac bytes] by blast
qed

section \<open>Properties\<close>

text \<open>
  C20. EXPIRE answers 1 and sets the deadline to now plus the given seconds (in milliseconds, each step wrapped
  to 64 bits) when the key is stored without a deadline, and 0 when the key is not stored. It answers
  an error and changes nothing when the seconds are not a number or negative, and also when the key already has a deadline; the text
  of both errors says ERR twice. No value changes, and keys whose deadline has passed are not removed first.
\<close>

theorem expire_command_outcome:
  assumes "srv_inv S srv (dbid c)" "args_of c [a0, ka, sa]"
    "cells (heap srv) ka = Some kobj" "string_obj (lib S) kobj k" "cells (heap srv) sa = Some sobj" "string_obj (lib S) sobj s"
  shows "\<exists>db' c'. expire_command S now srv c = Inr (db_put srv (dbid c) db', c') \<and>
    emits c (resp_encode (expire_reply (lib S) (dbs srv ! dbid c) k s)) c' \<and>
    keyspace_inv (lib S) (key_dict S) (expire_dict S) db' (heap srv) \<and>
    db_vals db' = db_vals (dbs srv ! dbid c) \<and> db_ttl db' = expire_ttl (lib S) (dbs srv ! dbid c) now k s"
  using expire_command_spec [OF assms] unfolding expire_ran_def .

text \<open>
  C38. MODULE without a sub-command reads past the end of the argument vector: the declared arity of -2 is
  checked nowhere, and the sub-command is fetched before \<open>argc\<close> is looked at.
\<close>

theorem module_without_subcommand:
  assumes "object_laws (lib S)" "argv rc = Argv [Some a]" "cells (heap srv) a = Some obj" "string_obj (lib S) obj w"
    "command_manager_lookup (command_dict S) (cmd_manager srv) w = Some c" "cmd_proc c = Module_command"
  shows "process_command_and_reset_client S now self srv rc = Inl (Out_of_bounds ''argv'')"
  using assms(2-6) string_objD [OF assms(1,4)]
  by (simp add: process_command_and_reset_client_def process_command_def arg_bytes_def argv_get_def call_def module_command_def)

section \<open>Witnesses\<close>

theorem expire_command_outcome_witness:
  "\<exists>db' c'. expire_command sys_ref 9 (server_w ''7'') (client_w [2, 3, 3]) = Inr (db_put (server_w ''7'') 0 db', c') \<and>
     emits (client_w [2, 3, 3]) ('':0'' @ crlf) c' \<and> db_ttl db' = db_ttl db_ex2"
proof -
  have s: "string_obj (lib sys_ref) (mk_string_obj ''7'') ''7''" using h_ex(3) by simp
  have "db_vals db_ex2 ''7'' = None" using db_ex2(2) by simp
  moreover have "string2ll latte_c_ref ''7'' = Some 7" by code_simp
  ultimately have "expire_reply latte_c_ref db_ex2 ''7'' ''7'' = Integer 0" "expire_ttl latte_c_ref db_ex2 9 ''7'' ''7'' = db_ttl db_ex2"
    by (simp_all add: expire_reply_def expire_ttl_def)
  moreover have "resp_encode (Integer 0) = '':0'' @ crlf" by code_simp
  ultimately show ?thesis
    using expire_command_outcome [of sys_ref "server_w ''7''" "client_w [2, 3, 3]" 2 3 3 _ "''7''" _ "''7''" 9, OF srv_inv_w args_w _ s _ s] heap_w_cells(3) by (auto simp del: resp_encode.simps)
qed

theorem module_without_subcommand_witness:
  "\<exists>c cm. process_command_and_reset_client sys_ref 0 0
     ((server_w ''module'')\<lparr>cmd_manager := cm\<rparr>) (client_w [3]) = Inl (Out_of_bounds ''argv'') \<and>
     command_manager_new (lib sys_ref) (rax_lib sys_ref) (command_dict sys_ref) = Inr cm \<and>
     command_manager_lookup (command_dict sys_ref) cm ''module'' = Some c"
proof -
  obtain cm where cm: "command_manager_new (lib sys_ref) (rax_lib sys_ref) (command_dict sys_ref) = Inr cm" "cm_wf cm"
    "cm_map cm = map_of (map (\<lambda>c. (cmd_name c, c)) registered_builtins)"
    using command_manager_new_spec [of "rax_lib sys_ref" "lib sys_ref" "command_dict sys_ref"] sys_lawsD [OF sys_ref_laws] by blast
  have "map to_lower ''module'' = ''module''" by code_simp
  then have lk: "command_manager_lookup (command_dict sys_ref) cm ''module'' = Some (registered_builtins ! 1)"
    using command_manager_lookup_spec [OF sys_lawsD(8) [OF sys_ref_laws] cm(2)] cm(3)
    by (simp add: registered_builtins_def builtin_def)
  have "process_command_and_reset_client sys_ref 0 0 ((server_w ''module'')\<lparr>cmd_manager := cm\<rparr>) (client_w [3]) = Inl (Out_of_bounds ''argv'')"
    by (rule module_without_subcommand [of _ _ 3 _ "mk_string_obj ''module''" "''module''" "registered_builtins ! 1"])
      (use lk h_ex(3) heap_w_cells(3) object_laws_ref in \<open>simp_all add: client_w_def registered_builtins_def builtin_def\<close>)
  then show ?thesis using cm(1) lk by blast
qed

end
