(* ===== verification/Protocol.thy ===== *)
theory Protocol
  imports Slowlog
begin

text \<open>
  The two request parsers of \<open>src/redis/client.c\<close>: \<open>process_inline_buffer\<close> and
  \<open>process_multibulk_buffer\<close>. They read the client's query buffer from its position, build the
  argument vector in the object heap and answer protocol errors. The length of the buffer is
  \<open>sds_len\<close>; \<open>strchr\<close> stops at a NUL byte.
\<close>

section \<open>Inline requests\<close>

definition buf :: "redis_client \<Rightarrow> string" where
  "buf rc = querybuf (client rc)"

definition pos :: "redis_client \<Rightarrow> nat" where
  "pos rc = qb_pos (client rc)"

definition set_pos :: "nat \<Rightarrow> redis_client \<Rightarrow> redis_client" where
  "set_pos p rc = rc\<lparr>client := (client rc)\<lparr>qb_pos := p\<rparr>\<rparr>"

definition set_buf :: "string \<Rightarrow> redis_client \<Rightarrow> redis_client" where
  "set_buf b rc = rc\<lparr>client := (client rc)\<lparr>querybuf := b\<rparr>\<rparr>"

fun push_args :: "latte_c \<Rightarrow> string list \<Rightarrow> redis_client \<Rightarrow> obj_heap \<Rightarrow> (redis_client \<times> obj_heap) res" where
  "push_args L [] rc h = Inr (rc, h)"
| "push_args L (s # ss) rc h =
     (let (h, a) = obj_alloc h (latte_object_new L OBJ_STRING s) in
      res_bind (argv_push rc a) (\<lambda>rc.
      push_args L ss (rc\<lparr>argv_len_sum := argv_len_sum rc + length s\<rparr>) h))"

text \<open>
  \<open>linefeed_chars\<close> has no initial value in the source: \<open>lf0\<close> is what its memory holds. The new
  position is computed in \<open>size_t\<close>.
\<close>

definition process_inline_buffer ::
  "latte_c \<Rightarrow> int \<Rightarrow> int \<Rightarrow> redis_client \<Rightarrow> obj_heap \<Rightarrow> (redis_client \<times> obj_heap \<times> int) res" where
  "process_inline_buffer L lf0 unixtime rc h =
     (case strchr (drop (pos rc) (buf rc)) LF of
        None \<Rightarrow>
          Inr (if PROTO_INLINE_MAX_SIZE < length (buf rc) - pos rc
               then set_protocol_error ''too big inline request''
                      (add_reply_error L rc ''Protocol error: too big inline request'')
               else rc, h, -1)
      | Some newline \<Rightarrow>
          let cr = (newline \<noteq> 0 \<and> byte_at (drop (pos rc) (buf rc)) (newline - 1) = CR);
              query_len = (if cr then newline - 1 else newline);
              linefeed_chars = (if cr then lf0 + 1 else lf0)
          in (case sds_split_args L (take query_len (drop (pos rc) (buf rc))) of
                None \<Rightarrow>
                  Inr (set_protocol_error ''unbalanced quotes in inline request''
                         (add_reply_error L rc ''Protocol error: unbalanced quotes in request''), h, -1)
              | Some args \<Rightarrow>
                  let rc = (if query_len = 0 \<and> get_client_type rc = CLIENT_TYPE_SLAVE
                            then rc\<lparr>repl_ack_time := unixtime\<rparr> else rc)
                  in if query_len \<noteq> 0 \<and> flag rc AND CLIENT_MASTER \<noteq> 0 then
                       Inr (set_protocol_error ''Master using the inline protocol. Desync?'' rc, h, -1)
                     else
                       let rc = set_pos (nat ((int (pos rc) + int query_len + linefeed_chars) mod 2 ^ 64)) rc
                       in res_bind (if args \<noteq> [] then res_bind (argv_alloc rc (length args)) (\<lambda>rc. Inr (rc\<lparr>argv_len_sum := 0\<rparr>)) else Inr rc) (\<lambda>rc.
                          res_bind (push_args L args (rc\<lparr>argc := 0\<rparr>) h) (\<lambda>(rc, h). Inr (rc, h, 0)))))"

section \<open>Multibulk requests\<close>

text \<open>The header of a request, read when no request is under way; \<open>None\<close> when parsing goes on.\<close>

definition multibulk_header ::
  "latte_c \<Rightarrow> redis_client \<Rightarrow> (redis_client \<times> int option) res" where
  "multibulk_header L rc =
     res_bind (latte_assert (argc rc = 0) ''client argc ! = 0'') (\<lambda>_.
     case strchr (drop (pos rc) (buf rc)) CR of
       None \<Rightarrow>
         Inr (if PROTO_INLINE_MAX_SIZE < length (buf rc) - pos rc
              then set_protocol_error ''too big mbulk count string''
                     (add_reply_error L rc ''Protocol error: too big mbulk count string'')
              else rc, Some (-1))
     | Some newline \<Rightarrow>
         if int (length (buf rc)) - int (pos rc) - 2 < int newline then Inr (rc, Some (-1))
         else
           res_bind (latte_assert (byte_at (buf rc) (pos rc) = CHR ''*'') ''querybuf[0] != *'') (\<lambda>_.
           case string2ll L (take (newline - 1) (drop (pos rc + 1) (buf rc))) of
             None \<Rightarrow>
               Inr (set_protocol_error ''invalid mbulk count''
                      (add_reply_error L rc ''Protocol error: invalid multibulk length''), Some (-1))
           | Some ll \<Rightarrow>
               if 1024 * 1024 < ll then
                 Inr (set_protocol_error ''invalid mbulk count''
                        (add_reply_error L rc ''Protocol error: invalid multibulk length''), Some (-1))
               else if 10 < ll \<and> auth_required rc then
                 Inr (set_protocol_error ''unauth mbulk count''
                        (add_reply_error L rc ''Protocol error: unauthenticated multibulk length''), Some (-1))
               else
                 let rc = set_pos (pos rc + newline + 2) rc in
                 if ll \<le> 0 then Inr (rc, Some 0)
                 else res_bind (argv_alloc (rc\<lparr>multi_bulk_len := ll\<rparr>) (nat ll)) (\<lambda>rc. Inr (rc\<lparr>argv_len_sum := 0\<rparr>, None))))"

text \<open>
  The length of the next argument, read when it is not known; \<open>Some r\<close> when the function returns
  \<open>r\<close> or leaves its loop (which comes to -1 then). A big argument is moved to the front of the
  buffer when the rest of the buffer is not longer than it.
\<close>

definition bulk_header ::
  "latte_c \<Rightarrow> int \<Rightarrow> redis_client \<Rightarrow> redis_client \<times> int option" where
  "bulk_header L proto_max rc =
     (if bulk_len rc \<noteq> -1 then (rc, None)
      else case strchr (drop (pos rc) (buf rc)) CR of
        None \<Rightarrow>
          (if PROTO_INLINE_MAX_SIZE < length (buf rc) - pos rc
           then set_protocol_error ''too big bulk count string''
                  (add_reply_error L rc ''Protocol error: too big bulk count string'')
           else rc, Some (-1))
      | Some newline \<Rightarrow>
          if int (length (buf rc)) - int (pos rc) - 2 < int newline then (rc, Some (-1))
          else if byte_at (buf rc) (pos rc) \<noteq> CHR ''$'' then
            (set_protocol_error ''expected $ but got something else''
               (add_reply_error_format L rc (''Protocol error: expected '' @ [CHR 0x27, CHR ''$'', CHR 0x27] @ '', got '' @
                  [CHR 0x27, byte_at (buf rc) (pos rc), CHR 0x27])), Some (-1))
          else
            case string2ll L (take (newline - 1) (drop (pos rc + 1) (buf rc))) of
              None \<Rightarrow>
                (set_protocol_error ''invalid bulk length''
                   (add_reply_error L rc ''Protocol error: invalid bulk length''), Some (-1))
            | Some ll \<Rightarrow>
                if ll < 0 \<or> (flag rc AND CLIENT_MASTER = 0 \<and> proto_max < ll) then
                  (set_protocol_error ''invalid bulk length''
                     (add_reply_error L rc ''Protocol error: invalid bulk length''), Some (-1))
                else if 16384 < ll \<and> auth_required rc then
                  (set_protocol_error ''unauth bulk length''
                     (add_reply_error L rc ''Protocol error: unauthenticated bulk length''), Some (-1))
                else
                  let rc = set_pos (pos rc + newline + 2) rc;
                      rc = (if PROTO_MBULK_BIG_ARG L \<le> ll \<and> int (length (buf rc) - pos rc) \<le> ll + 2
                            then set_pos 0 (set_buf (drop (pos rc) (buf rc)) rc) else rc)
                  in (rc\<lparr>bulk_len := ll\<rparr>, None))"

text \<open>The bytes of the argument; \<open>None\<close> when they have not all arrived.\<close>

definition bulk_argument ::
  "latte_c \<Rightarrow> redis_client \<Rightarrow> obj_heap \<Rightarrow> (redis_client \<times> obj_heap) option res" where
  "bulk_argument L rc h =
     (if length (buf rc) - pos rc < nat (bulk_len rc + 2) then Inr None
      else
        let big = (pos rc = 0 \<and> PROTO_MBULK_BIG_ARG L \<le> bulk_len rc \<and> int (length (buf rc)) = bulk_len rc + 2);
            bytes = take (nat (bulk_len rc)) (drop (pos rc) (buf rc));
            (h, a) = obj_alloc h (if big then latte_object_new L OBJ_STRING bytes else string_object_new L bytes)
        in res_bind (argv_push rc a) (\<lambda>rc.
           let rc = rc\<lparr>argv_len_sum := argv_len_sum rc + nat (bulk_len rc)\<rparr>;
               rc = (if big then set_buf [] rc else set_pos (pos rc + nat (bulk_len rc + 2)) rc)
           in Inr (Some (rc\<lparr>bulk_len := -1, multi_bulk_len := multi_bulk_len rc - 1\<rparr>, h))))"

text \<open>The loop runs once per argument: \<open>n\<close> is the number of arguments left.\<close>

fun multibulk_loop ::
  "latte_c \<Rightarrow> int \<Rightarrow> nat \<Rightarrow> redis_client \<Rightarrow> obj_heap \<Rightarrow> (redis_client \<times> obj_heap \<times> int) res" where
  "multibulk_loop L proto_max 0 rc h = Inr (rc, h, 0)"
| "multibulk_loop L proto_max (Suc n) rc h =
     (case bulk_header L proto_max rc of
        (rc, Some r) \<Rightarrow> Inr (rc, h, r)
      | (rc, None) \<Rightarrow>
          res_bind (bulk_argument L rc h) (\<lambda>done.
          case done of
            None \<Rightarrow> Inr (rc, h, -1)
          | Some (rc, h) \<Rightarrow> multibulk_loop L proto_max n rc h))"

definition process_multibulk_buffer ::
  "latte_c \<Rightarrow> int \<Rightarrow> redis_client \<Rightarrow> obj_heap \<Rightarrow> (redis_client \<times> obj_heap \<times> int) res" where
  "process_multibulk_buffer L proto_max rc h =
     res_bind (if multi_bulk_len rc = 0 then multibulk_header L rc else Inr (rc, None)) (\<lambda>(rc, r).
     case r of
       Some r \<Rightarrow> Inr (rc, h, r)
     | None \<Rightarrow>
         res_bind (latte_assert (0 < multi_bulk_len rc) ''rc->multibulklen'') (\<lambda>_.
         multibulk_loop L proto_max (nat (multi_bulk_len rc)) rc h))"

section \<open>The unread bytes and the frame of a parser\<close>

definition unread :: "redis_client \<Rightarrow> string" where
  "unread rc = drop (pos rc) (buf rc)"

text \<open>A client without its query buffer and the request under construction: what a parser that answers nothing leaves alone.\<close>

definition unparsed :: "redis_client \<Rightarrow> redis_client" where
  "unparsed rc = rc\<lparr>client := (client rc)\<lparr>querybuf := [], qb_pos := 0\<rparr>,
     argc := 0, argv := Argv_null, argv_len_sum := 0, bulk_len := 0, multi_bulk_len := 0\<rparr>"

lemma buf_pos_simps [simp]:
  "buf (set_pos p rc) = buf rc" "pos (set_pos p rc) = p" "buf (set_buf b rc) = b" "pos (set_buf b rc) = pos rc"
  "argc (set_pos p rc) = argc rc" "argc (set_buf b rc) = argc rc" "argv (set_pos p rc) = argv rc" "argv (set_buf b rc) = argv rc"
  "bulk_len (set_pos p rc) = bulk_len rc" "bulk_len (set_buf b rc) = bulk_len rc"
  "multi_bulk_len (set_pos p rc) = multi_bulk_len rc" "multi_bulk_len (set_buf b rc) = multi_bulk_len rc"
  "flag (set_pos p rc) = flag rc" "flag (set_buf b rc) = flag rc"
  "argv_len_sum (set_pos p rc) = argv_len_sum rc" "argv_len_sum (set_buf b rc) = argv_len_sum rc"
  by (simp_all add: buf_def pos_def set_pos_def set_buf_def)

lemma buf_pos_updates [simp]:
  "buf (rc\<lparr>bulk_len := x\<rparr>) = buf rc" "buf (rc\<lparr>multi_bulk_len := x\<rparr>) = buf rc" "buf (rc\<lparr>argc := n\<rparr>) = buf rc"
  "buf (rc\<lparr>argv := v\<rparr>) = buf rc" "buf (rc\<lparr>argv_len_sum := n\<rparr>) = buf rc" "buf (rc\<lparr>repl_ack_time := x\<rparr>) = buf rc"
  "pos (rc\<lparr>bulk_len := x\<rparr>) = pos rc" "pos (rc\<lparr>multi_bulk_len := x\<rparr>) = pos rc" "pos (rc\<lparr>argc := n\<rparr>) = pos rc"
  "pos (rc\<lparr>argv := v\<rparr>) = pos rc" "pos (rc\<lparr>argv_len_sum := n\<rparr>) = pos rc" "pos (rc\<lparr>repl_ack_time := x\<rparr>) = pos rc"
  by (simp_all add: buf_def pos_def)

lemma unparsed_updates [simp]:
  "unparsed (set_pos p rc) = unparsed rc" "unparsed (set_buf b rc) = unparsed rc" "unparsed (rc\<lparr>bulk_len := x\<rparr>) = unparsed rc"
  "unparsed (rc\<lparr>multi_bulk_len := x\<rparr>) = unparsed rc" "unparsed (rc\<lparr>argc := n\<rparr>) = unparsed rc"
  "unparsed (rc\<lparr>argv := v\<rparr>) = unparsed rc" "unparsed (rc\<lparr>argv_len_sum := n\<rparr>) = unparsed rc"
  by (simp_all add: unparsed_def set_pos_def set_buf_def)

lemma unparsed_fields:
  assumes "unparsed rc' = unparsed rc"
  shows "flag rc' = flag rc" "req_type rc' = req_type rc" "dbid rc' = dbid rc" "cmd rc' = cmd rc" "lastcmd rc' = lastcmd rc"
    "cl_flags (client rc') = cl_flags (client rc)" "obuf (client rc') = obuf (client rc)" "reply (client rc') = reply (client rc)"
  using arg_cong [OF assms, of flag] arg_cong [OF assms, of req_type] arg_cong [OF assms, of dbid] arg_cong [OF assms, of cmd]
    arg_cong [OF assms, of lastcmd] arg_cong [OF assms, of "\<lambda>c. cl_flags (client c)"] arg_cong [OF assms, of "\<lambda>c. obuf (client c)"]
    arg_cong [OF assms, of "\<lambda>c. reply (client c)"]
  by (simp_all add: unparsed_def)

section \<open>One argument\<close>

text \<open>
  A request under way: the arguments \<open>bs\<close> were there before, since then the texts \<open>ts\<close> have been read into new
  objects of the heap \<open>h0\<close>, and there is room for the \<open>n\<close> arguments to come.
\<close>

definition midway :: "latte_c \<Rightarrow> nat list \<Rightarrow> obj_heap \<Rightarrow> obj_heap \<Rightarrow> redis_client \<Rightarrow> string list \<Rightarrow> nat \<Rightarrow> bool" where
  "midway L bs h0 h rc ts n \<longleftrightarrow> pos rc \<le> length (buf rc) \<and> multi_bulk_len rc = int n \<and>
     (\<exists>as. argv rc = Argv (map Some (bs @ as) @ replicate n None) \<and> argc rc = length (bs @ as) \<and> fresh_copies L h0 h as ts)"

lemma midway_args:
  assumes "midway L bs h0 h rc ts n"
  obtains as where "args_of rc (bs @ as)" "fresh_copies L h0 h as ts"
  using assms unfolding midway_def args_of_def by blast

lemma fresh_copies_alloc:
  assumes "fresh_copies L h0 h as ts" "string_obj L obj t" "refcount obj = 1"
  shows "fresh_copies L h0 (fst (obj_alloc h obj)) (as @ [next_addr h]) (ts @ [t])"
  using assms by (auto simp: fresh_copies_def obj_alloc_def nth_append less_Suc_eq)

lemma fresh_copies_Nil [simp]: "fresh_copies L h h [] []"
  by (simp add: fresh_copies_def)

lemma argv_push_midway:
  assumes "argv rc = Argv (map Some as @ replicate (Suc n) None)" "argc rc = length as"
  shows "argv_push rc a = Inr (rc\<lparr>argv := Argv (map Some (as @ [a]) @ replicate n None), argc := Suc (length as)\<rparr>)"
  using assms by (simp add: argv_push_def list_update_append)

lemma bulk_argument_step:
  assumes L: "object_laws L" and mid: "midway L bs h0 h rc ts (Suc n)"
    and len: "bulk_len rc = int (length w)" and bytes: "unread rc = w @ c1 # c2 # B"
  shows "\<exists>rc' h'. bulk_argument L rc h = Inr (Some (rc', h')) \<and> midway L bs h0 h' rc' (ts @ [w]) n \<and>
    bulk_len rc' = -1 \<and> unread rc' = B \<and> unparsed rc' = unparsed rc"
proof -
  obtain as where as: "argv rc = Argv (map Some (bs @ as) @ replicate (Suc n) None)" "argc rc = length (bs @ as)" "fresh_copies L h0 h as ts"
    and p: "pos rc \<le> length (buf rc)" and mb: "multi_bulk_len rc = int (Suc n)"
    using mid unfolding midway_def by blast
  have l: "length (buf rc) = pos rc + length w + 2 + length B"
    using arg_cong [OF bytes, of length] p by (simp add: unread_def)
  have w: "take (length w) (drop (pos rc) (buf rc)) = w" using bytes by (simp add: unread_def)
  have B: "drop (pos rc + (length w + 2)) (buf rc) = B"
    using arg_cong [OF bytes, of "drop (length w + 2)"] by (simp add: unread_def add.commute)
  define big where "big \<longleftrightarrow> pos rc = 0 \<and> PROTO_MBULK_BIG_ARG L \<le> int (length w) \<and> int (length (buf rc)) = int (length w) + 2"
  define obj where "obj = (if big then latte_object_new L OBJ_STRING w else string_object_new L w)"
  have obj: "string_obj L obj w" "refcount obj = 1" using L by (simp_all add: obj_def object_laws_def)
  let ?rc = "rc\<lparr>argv := Argv (map Some ((bs @ as) @ [next_addr h]) @ replicate n None), argc := Suc (length (bs @ as))\<rparr>"
  let ?rc1 = "?rc\<lparr>argv_len_sum := argv_len_sum rc + length w\<rparr>"
  let ?rc2 = "if big then set_buf [] ?rc1 else set_pos (pos rc + (length w + 2)) ?rc1"
  have bigc: "(pos rc = 0 \<and> PROTO_MBULK_BIG_ARG L \<le> bulk_len rc \<and> int (length (buf rc)) = bulk_len rc + 2) = big"
    by (simp add: big_def len)
  have run: "bulk_argument L rc h =
    Inr (Some (?rc2\<lparr>bulk_len := -1, multi_bulk_len := multi_bulk_len rc - 1\<rparr>, fst (obj_alloc h obj)))"
    unfolding bulk_argument_def Let_def bigc
    using len l w argv_push_midway [OF as(1,2), of "next_addr h"] by (cases big) (simp_all add: obj_def obj_alloc_def nat_add_distrib)
  have un: "unread ?rc2 = B"
  proof (cases big)
    case True
    then have "length B = 0" using l unfolding big_def by linarith
    then show ?thesis using True by (simp add: unread_def)
  qed (use B in \<open>simp add: unread_def\<close>)
  have "midway L bs h0 (fst (obj_alloc h obj)) (?rc2\<lparr>bulk_len := -1, multi_bulk_len := multi_bulk_len rc - 1\<rparr>) (ts @ [w]) n"
    using fresh_copies_alloc [OF as(3) obj] mb l
    by (auto simp: midway_def big_def intro!: exI [of _ "as @ [next_addr h]"])
  then show ?thesis using run un by (auto simp: unread_def)
qed

lemma bulk_argument_wait: "length (unread rc) < nat (bulk_len rc + 2) \<Longrightarrow> bulk_argument L rc h = Inr None"
  by (simp add: bulk_argument_def unread_def)

section \<open>One length line\<close>

lemma strchr_notin: "c \<notin> set s \<Longrightarrow> strchr s c = None"
  by (induction s) auto

text \<open>
  A line \<open>c # d\<close> that is ended by CR LF in what is unread now followed by what arrives later: either
  it is all there, or the search for its end does not find both bytes.
\<close>

lemma line_split:
  assumes "B @ F = (c # d) @ CR # LF # X" "CR \<notin> set (c # d)" "NUL \<notin> set (c # d)"
  obtains (whole) B' where "B = (c # d) @ CR # LF # B'" "B' @ F = X"
  | (part) "length B < length (c # d) + 2" "strchr B CR = None"
  | (cut) "length B < length (c # d) + 2" "strchr B CR = Some (length (c # d))"
proof (cases "length B < length (c # d) + 2")
  case False
  then obtain m where m: "length B = Suc (Suc (Suc (length d + m)))" by (auto simp: not_less dest: le_Suc_ex)
  have "B = take (length B) ((c # d) @ CR # LF # X)" using assms(1) by (metis append_eq_conv_conj)
  then have B: "B = (c # d) @ CR # LF # take m X" by (simp add: m)
  then have "((c # d) @ CR # LF # take m X) @ F = (c # d) @ CR # LF # X" using assms(1) by metis
  then show ?thesis using whole [OF B] by simp
next
  case True
  have pre: "B = take (length B) ((c # d) @ CR # LF # X)" using assms(1) by (metis append_eq_conv_conj)
  show ?thesis
  proof (cases "length B \<le> length (c # d)")
    case le: True
    then have "take (length B) ((c # d) @ CR # LF # X) = take (length B) (c # d)" unfolding take_append by simp
    with pre have "B = take (length B) (c # d)" by metis
    then have "CR \<notin> set B" using assms(2) by (metis in_set_takeD)
    then have "strchr B CR = None" by (rule strchr_notin)
    with True part show ?thesis by blast
  next
    case gt: False
    with True have "length B = Suc (length (c # d))" by simp
    then have "B = (c # d) @ [CR]" using pre by simp
    then have "strchr B CR = Some (length (c # d))" using strchr_skip [OF assms(2,3), of "[]"] by simp
    with True cut show ?thesis by blast
  qed
qed

text \<open>How long a printed number can be.\<close>

lemma length_dec_nat: "n < 10 ^ Suc k \<Longrightarrow> length (dec_nat n) \<le> Suc k"
proof (induction k arbitrary: n)
  case (Suc k)
  show ?case
  proof (cases "n < 10")
    case False
    have "n div 10 < 10 ^ Suc k" using Suc.prems by (simp add: less_mult_imp_div_less)
    then show ?thesis using Suc.IH [of "n div 10"] False by (simp add: dec_nat.simps [of n])
  qed (simp add: dec_nat.simps [of n])
next
  case 0
  then show ?case by (simp add: dec_nat.simps [of n])
qed

lemma length_dec: "0 \<le> n \<Longrightarrow> n \<le> llong_max \<Longrightarrow> length (dec n) \<le> 19"
  using length_dec_nat [of "nat n" 18] by (simp add: dec_def)

lemma bulk_header_known: "bulk_len rc \<noteq> -1 \<Longrightarrow> bulk_header L pm rc = (rc, None)"
  by (simp add: bulk_header_def)

lemma bulk_header_read:
  assumes "number_laws L" and p: "pos rc \<le> length (buf rc)" and bl: "bulk_len rc = -1"
    and n: "int n \<le> pm" "pm \<le> llong_max" and bytes: "unread rc = ''$'' @ dec (int n) @ CR # LF # B"
  shows "\<exists>rc'. bulk_header L pm rc = (rc', None) \<and> unread rc' = B \<and> bulk_len rc' = int n \<and> pos rc' \<le> length (buf rc') \<and>
    unparsed rc' = unparsed rc \<and> argc rc' = argc rc \<and> argv rc' = argv rc \<and> multi_bulk_len rc' = multi_bulk_len rc"
proof -
  let ?d = "dec (int n)"
  have s: "strchr (drop (pos rc) (buf rc)) CR = Some (Suc (length ?d))"
    using bytes strchr_skip [of CR "''$'' @ ?d" "LF # B"] by (simp add: unread_def)
  have l: "length (buf rc) = pos rc + length ?d + 3 + length B"
    using arg_cong [OF bytes, of length] p by (simp add: unread_def)
  have d: "take (length ?d) (drop (Suc (pos rc)) (buf rc)) = ?d"
    using arg_cong [OF bytes, of "\<lambda>s. take (length ?d) (drop 1 s)"] by (simp add: unread_def)
  have B: "drop (pos rc + Suc (length ?d) + 2) (buf rc) = B"
    using arg_cong [OF bytes, of "drop (Suc (length ?d) + 2)"] by (simp add: unread_def add_ac)
  have c: "byte_at (buf rc) (pos rc) = CHR ''$''"
    using arg_cong [OF bytes, of "\<lambda>s. s ! 0"] l by (simp add: unread_def byte_at_def)
  have num: "string2ll L ?d = Some (int n)" using assms(1) n by (simp add: number_laws_def)
  define rc1 where "rc1 = set_pos (pos rc + Suc (length ?d) + 2) rc"
  define rc2 where "rc2 = (if PROTO_MBULK_BIG_ARG L \<le> int n \<and> int (length (buf rc1) - pos rc1) \<le> int n + 2
    then set_pos 0 (set_buf (drop (pos rc1) (buf rc1)) rc1) else rc1)"
  have ns: "\<not> int (length (buf rc)) - int (pos rc) - 2 < int (Suc (length ?d))" using l by simp
  have "bulk_header L pm rc = (rc2\<lparr>bulk_len := int n\<rparr>, None)"
    using n ns unfolding bulk_header_def
    by (simp add: bl s c d num auth_required_def rc2_def rc1_def Let_def del: of_nat_Suc)
  moreover have "unread (rc2\<lparr>bulk_len := int n\<rparr>) = B" using B by (simp add: rc2_def rc1_def unread_def)
  moreover have "pos rc2 \<le> length (buf rc2)" using l by (simp add: rc2_def rc1_def)
  ultimately show ?thesis by (simp add: rc2_def rc1_def)
qed

lemma bulk_header_wait:
  assumes p: "pos rc \<le> length (buf rc)" and bl: "bulk_len rc = -1" and n: "int n \<le> llong_max"
    and short: "length (unread rc) < length (dec (int n)) + 3"
    and s: "strchr (unread rc) CR = None \<or> strchr (unread rc) CR = Some (Suc (length (dec (int n))))"
  shows "bulk_header L pm rc = (rc, Some (-1))"
proof -
  have "length (buf rc) - pos rc < length (dec (int n)) + 3" using short by (simp add: unread_def)
  moreover have "length (dec (int n)) \<le> 19" using length_dec n by simp
  ultimately show ?thesis using s p bl by (auto simp: bulk_header_def unread_def PROTO_INLINE_MAX_SIZE_def)
qed

section \<open>A request, in however many pieces\<close>

text \<open>The bytes of a request, and the ones still expected for the arguments \<open>todo\<close>.\<close>

definition request :: "string list \<Rightarrow> string" where
  "request ws = resp_encode (Array (map Bulk ws))"

definition bulks :: "string list \<Rightarrow> string" where
  "bulks ws = concat (map (\<lambda>w. resp_encode (Bulk w)) ws)"

definition expected :: "int \<Rightarrow> string list \<Rightarrow> string" where
  "expected bl todo = (if bl = -1 then bulks todo else hd todo @ crlf @ bulks (tl todo))"

definition length_known :: "redis_client \<Rightarrow> string list \<Rightarrow> bool" where
  "length_known rc todo \<longleftrightarrow> bulk_len rc = -1 \<or> (todo \<noteq> [] \<and> bulk_len rc = int (length (hd todo)))"

lemma bulks_simps [simp]:
  "bulks [] = []" "bulks (w # ws) = ''$'' @ dec (int (length w)) @ CR # LF # w @ CR # LF # bulks ws"
  by (simp_all add: bulks_def)

lemma request_eq: "request ws = (CHR ''*'' # dec (int (length ws))) @ CR # LF # bulks ws"
  by (simp add: request_def bulks_def comp_def)

text \<open>Reading one argument of which the length is known.\<close>

lemma bulk_argument_progress:
  assumes L: "object_laws L" and mid: "midway L bs h0 h rc ts (Suc n)" and len: "bulk_len rc = int (length w)"
    and bytes: "unread rc @ F = w @ crlf @ X"
  shows "(\<exists>rc' h'. bulk_argument L rc h = Inr (Some (rc', h')) \<and> midway L bs h0 h' rc' (ts @ [w]) n \<and>
      bulk_len rc' = -1 \<and> unread rc' @ F = X \<and> unparsed rc' = unparsed rc) \<or>
    (bulk_argument L rc h = Inr None \<and> length (unread rc) < length (w @ crlf))"
proof (cases "length (unread rc) < length w + 2")
  case True
  then show ?thesis using bulk_argument_wait [of rc L h] len by (simp add: nat_add_distrib)
next
  case False
  have "unread rc = take (length (unread rc)) ((w @ crlf) @ X)" using bytes by (metis append.assoc append_eq_conv_conj)
  then have "unread rc = (w @ crlf) @ take (length (unread rc) - length (w @ crlf)) X" using False by (simp only: take_append) simp
  then obtain B where B: "unread rc = w @ CR # LF # B" by (metis append.assoc append_Cons append_Nil)
  then have "B @ F = X" using bytes by simp
  then show ?thesis using bulk_argument_step [OF L mid len B] by blast
qed

lemma bulk_header_progress:
  assumes "number_laws L" "midway L bs h0 h rc ts (Suc n)" "length_known rc (w # ws)"
    and n: "int (length w) \<le> pm" "pm \<le> llong_max" and bytes: "unread rc @ F = expected (bulk_len rc) (w # ws) @ R"
  shows "(\<exists>rc'. bulk_header L pm rc = (rc', None) \<and> midway L bs h0 h rc' ts (Suc n) \<and> bulk_len rc' = int (length w) \<and>
      unread rc' @ F = w @ crlf @ bulks ws @ R \<and> unparsed rc' = unparsed rc) \<or>
    (bulk_header L pm rc = (rc, Some (-1)) \<and> bulk_len rc = -1 \<and>
      length (unread rc) < length (''$'' @ dec (int (length w)) @ crlf))"
proof (cases "bulk_len rc = -1")
  case False
  then show ?thesis using assms by (auto simp: length_known_def expected_def bulk_header_known)
next
  case bl: True
  have p: "pos rc \<le> length (buf rc)" using assms(2) by (simp add: midway_def)
  let ?d = "dec (int (length w))"
  have "unread rc @ F = (CHR ''$'' # ?d) @ CR # LF # (w @ crlf @ bulks ws @ R)" using bytes bl by (simp add: expected_def)
  moreover have "CR \<notin> set (CHR ''$'' # ?d)" "NUL \<notin> set (CHR ''$'' # ?d)" by simp_all
  ultimately show ?thesis
  proof (cases rule: line_split)
    case (whole B')
    then have "unread rc = ''$'' @ ?d @ CR # LF # B'" by simp
    from bulk_header_read [OF assms(1) p bl n this] obtain rc' where
      "bulk_header L pm rc = (rc', None)" "unread rc' = B'" "bulk_len rc' = int (length w)" "pos rc' \<le> length (buf rc')"
      "unparsed rc' = unparsed rc" "argc rc' = argc rc" "argv rc' = argv rc" "multi_bulk_len rc' = multi_bulk_len rc" by blast
    then show ?thesis using whole(2) assms(2) by (auto simp: midway_def)
  next
    case part
    then have "bulk_header L pm rc = (rc, Some (-1))"
      using bulk_header_wait [OF p bl, of "length w"] n by simp
    then show ?thesis using part bl by simp
  next
    case cut
    then have "bulk_header L pm rc = (rc, Some (-1))"
      using bulk_header_wait [OF p bl, of "length w"] n by simp
    then show ?thesis using cut bl by simp
  qed
qed

lemma multibulk_loop_progress:
  assumes L: "object_laws L" "number_laws L" and pm: "pm \<le> llong_max"
  shows "midway L bs h0 h rc ts (length todo) \<Longrightarrow> length_known rc todo \<Longrightarrow> list_all (\<lambda>w. int (length w) \<le> pm) todo \<Longrightarrow>
    unread rc @ F = expected (bulk_len rc) todo @ R \<Longrightarrow>
    \<exists>rc' h' r todo' ts'. multibulk_loop L pm (length todo) rc h = Inr (rc', h', r) \<and> unparsed rc' = unparsed rc \<and>
      ts @ todo = ts' @ todo' \<and> midway L bs h0 h' rc' ts' (length todo') \<and> length_known rc' todo' \<and>
      unread rc' @ F = expected (bulk_len rc') todo' @ R \<and>
      r = (if todo' = [] then 0 else -1) \<and> (todo' \<noteq> [] \<longrightarrow> length (unread rc) < length (expected (bulk_len rc) todo))"
proof (induction todo arbitrary: rc h ts)
  case Nil
  then show ?case by (auto simp: length_known_def)
next
  case (Cons w ws)
  have w: "int (length w) \<le> pm" using Cons.prems(3) by simp
  have mid: "midway L bs h0 h rc ts (Suc (length ws))" using Cons.prems(1) by simp
  from bulk_header_progress [OF L(2) mid Cons.prems(2) w pm Cons.prems(4)] show ?case
  proof (elim disjE exE conjE)
    assume stop: "bulk_header L pm rc = (rc, Some (-1))" "bulk_len rc = -1" "length (unread rc) < length (''$'' @ dec (int (length w)) @ crlf)"
    show ?thesis
      by (rule exI [of _ rc], rule exI [of _ h], rule exI [of _ "-1"], rule exI [of _ "w # ws"], rule exI [of _ ts])
        (use stop Cons.prems in \<open>simp add: expected_def\<close>)
  next
    fix rc1 assume h1: "bulk_header L pm rc = (rc1, None)" "midway L bs h0 h rc1 ts (Suc (length ws))" "bulk_len rc1 = int (length w)"
      "unread rc1 @ F = w @ crlf @ bulks ws @ R" "unparsed rc1 = unparsed rc"
    from bulk_argument_progress [OF L(1) h1(2,3,4)] show ?thesis
    proof (elim disjE exE conjE)
      assume stop: "bulk_argument L rc1 h = Inr None" "length (unread rc1) < length (w @ crlf)"
      have "length (unread rc) + length (unread rc1 @ F) = length (unread rc @ F) + length (unread rc1)" by simp
      then have "length (unread rc) < length (expected (bulk_len rc) (w # ws))"
        using stop(2) Cons.prems(4) h1(4) by simp
      then show ?thesis
        by (intro exI [of _ rc1] exI [of _ h] exI [of _ "-1"] exI [of _ "w # ws"] exI [of _ ts])
          (use stop h1 in \<open>simp add: expected_def length_known_def\<close>)
    next
      fix rc2 h2 assume a: "bulk_argument L rc1 h = Inr (Some (rc2, h2))" "midway L bs h0 h2 rc2 (ts @ [w]) (length ws)"
        "bulk_len rc2 = -1" "unread rc2 @ F = bulks ws @ R" "unparsed rc2 = unparsed rc1"
      have "unread rc2 @ F = expected (bulk_len rc2) ws @ R" using a(3,4) by (simp add: expected_def)
      moreover have "length_known rc2 ws" "list_all (\<lambda>w. int (length w) \<le> pm) ws" using Cons.prems(3) a(3) by (simp_all add: length_known_def)
      ultimately obtain rc' h' r todo' ts' where
        IH: "multibulk_loop L pm (length ws) rc2 h2 = Inr (rc', h', r)" "unparsed rc' = unparsed rc2"
        "(ts @ [w]) @ ws = ts' @ todo'" "midway L bs h0 h' rc' ts' (length todo')" "length_known rc' todo'"
        "unread rc' @ F = expected (bulk_len rc') todo' @ R" "r = (if todo' = [] then 0 else -1)"
        "todo' \<noteq> [] \<longrightarrow> length (unread rc2) < length (expected (bulk_len rc2) ws)"
        using Cons.IH [OF a(2)] by blast
      have "length (unread rc2) + length F = length (expected (bulk_len rc2) ws) + length R"
        using arg_cong [OF a(4), of length] a(3) by (simp add: expected_def)
      moreover have "length (unread rc) + length F = length (expected (bulk_len rc) (w # ws)) + length R"
        using arg_cong [OF Cons.prems(4), of length] by simp
      ultimately have "todo' \<noteq> [] \<longrightarrow> length (unread rc) < length (expected (bulk_len rc) (w # ws))" using IH(8) by linarith
      then show ?thesis
        by (intro exI [of _ rc'] exI [of _ h'] exI [of _ r] exI [of _ todo'] exI [of _ ts'])
          (use h1 a IH in simp)
    qed
  qed
qed

text \<open>A client at rest, which waits for a new request with no arguments and a vector that is NULL or still allocated, and one that is somewhere in the request \<open>ws\<close> with \<open>S\<close> still expected.\<close>

definition idle :: "redis_client \<Rightarrow> bool" where
  "idle rc \<longleftrightarrow> pos rc \<le> length (buf rc) \<and> argc rc = 0 \<and> multi_bulk_len rc = 0 \<and> bulk_len rc = -1 \<and> argv rc \<noteq> Argv_garbage"

lemma argv_alloc_Inr [simp]: "argv rc \<noteq> Argv_garbage \<Longrightarrow> argv_alloc rc n = Inr (rc\<lparr>argv := Argv (replicate n None)\<rparr>)"
  by (simp add: argv_alloc_def split: argv_ptr.split)

definition parsing :: "latte_c \<Rightarrow> nat list \<Rightarrow> obj_heap \<Rightarrow> string list \<Rightarrow> redis_client \<Rightarrow> obj_heap \<Rightarrow> string \<Rightarrow> bool" where
  "parsing L bs h0 ws rc h S \<longleftrightarrow> (bs = [] \<and> idle rc \<and> h = h0 \<and> S = request ws) \<or>
     (\<exists>ts todo. todo \<noteq> [] \<and> ws = ts @ todo \<and> midway L bs h0 h rc ts (length todo) \<and> length_known rc todo \<and>
        S = expected (bulk_len rc) todo)"

definition request_ok :: "int \<Rightarrow> string list \<Rightarrow> bool" where
  "request_ok pm ws \<longleftrightarrow> ws \<noteq> [] \<and> length ws \<le> 1024 * 1024 \<and> pm \<le> llong_max \<and> list_all (\<lambda>w. int (length w) \<le> pm) ws"

lemma multibulk_header_progress:
  assumes "number_laws L" "idle rc" "ws \<noteq> []" "length ws \<le> 1024 * 1024" and bytes: "unread rc @ F = request ws @ R"
  shows "(\<exists>rc'. multibulk_header L rc = Inr (rc', None) \<and> midway L [] h h rc' [] (length ws) \<and> bulk_len rc' = -1 \<and>
      unread rc' @ F = bulks ws @ R \<and> unparsed rc' = unparsed rc) \<or>
    (multibulk_header L rc = Inr (rc, Some (-1)) \<and> length (unread rc) < length (request ws))"
proof -
  let ?d = "dec (int (length ws))"
  have i: "pos rc \<le> length (buf rc)" "argc rc = 0" "bulk_len rc = -1" "argv rc \<noteq> Argv_garbage" using assms(2) by (simp_all add: idle_def)
  have d: "length ?d \<le> 19" using assms(4) by (intro length_dec) simp_all
  have "unread rc @ F = (CHR ''*'' # ?d) @ CR # LF # (bulks ws @ R)" using bytes by (simp add: request_eq)
  moreover have "CR \<notin> set (CHR ''*'' # ?d)" "NUL \<notin> set (CHR ''*'' # ?d)" by simp_all
  ultimately show ?thesis
  proof (cases rule: line_split)
    case (whole B')
    have s: "strchr (drop (pos rc) (buf rc)) CR = Some (Suc (length ?d))"
      using whole(1) strchr_skip [of CR "''*'' @ ?d" "LF # B'"] by (simp add: unread_def)
    have l: "length (buf rc) = pos rc + length ?d + 3 + length B'"
      using arg_cong [OF whole(1), of length] i(1) by (simp add: unread_def)
    have dd: "take (length ?d) (drop (Suc (pos rc)) (buf rc)) = ?d"
      using arg_cong [OF whole(1), of "\<lambda>s. take (length ?d) (drop 1 s)"] by (simp add: unread_def)
    have B: "drop (Suc (Suc (Suc (pos rc + length ?d)))) (buf rc) = B'"
      using arg_cong [OF whole(1), of "drop (Suc (length ?d) + 2)"] by (simp add: unread_def add_ac)
    have c: "byte_at (buf rc) (pos rc) = CHR ''*''"
      using arg_cong [OF whole(1), of "\<lambda>s. s ! 0"] l by (simp add: unread_def byte_at_def)
    have num: "string2ll L ?d = Some (int (length ws))" using assms(1,4) by (simp add: number_laws_def)
    let ?rc = "(set_pos (Suc (Suc (Suc (pos rc + length ?d)))) rc)\<lparr>multi_bulk_len := int (length ws), argv := Argv (replicate (length ws) None), argv_len_sum := 0\<rparr>"
    have "multibulk_header L rc = Inr (?rc, None)"
      using assms(3,4) l unfolding multibulk_header_def by (simp add: i s c dd num auth_required_def Let_def)
    moreover have "midway L [] h h ?rc [] (length ws)" using l i(2) by (simp add: midway_def)
    ultimately show ?thesis using B i(3) whole(2) by (simp add: unread_def)
  next
    case cut
    have "int (length (buf rc)) - int (pos rc) - 2 < int (Suc (length ?d))"
      using cut(1) i(1) unfolding unread_def length_drop by (simp add: less_diff_conv2)
    then show ?thesis using cut i by (simp add: multibulk_header_def unread_def request_eq)
  qed (use d i in \<open>simp_all add: multibulk_header_def unread_def PROTO_INLINE_MAX_SIZE_def request_eq\<close>)
qed

lemma multibulk_loop_resumes:
  assumes L: "object_laws L" "number_laws L" and ok: "request_ok pm ws" and t: "ws = ts @ todo" "midway L bs h0 h rc ts (length todo)"
    "length_known rc todo" "unread rc @ F = expected (bulk_len rc) todo @ R"
  shows "\<exists>rc' h' r. multibulk_loop L pm (length todo) rc h = Inr (rc', h', r) \<and> unparsed rc' = unparsed rc \<and>
    ((r = 0 \<and> midway L bs h0 h' rc' ws 0 \<and> bulk_len rc' = -1 \<and> unread rc' @ F = R) \<or>
     (r = -1 \<and> length (unread rc) < length (expected (bulk_len rc) todo) \<and>
      (\<exists>S'. parsing L bs h0 ws rc' h' S' \<and> unread rc' @ F = S' @ R)))"
proof -
  have "list_all (\<lambda>w. int (length w) \<le> pm) todo" "pm \<le> llong_max" using ok t(1) by (simp_all add: request_ok_def)
  then obtain rc' h' r todo' ts' where r: "multibulk_loop L pm (length todo) rc h = Inr (rc', h', r)" "unparsed rc' = unparsed rc"
    "ts @ todo = ts' @ todo'" "midway L bs h0 h' rc' ts' (length todo')" "length_known rc' todo'"
    "unread rc' @ F = expected (bulk_len rc') todo' @ R" "r = (if todo' = [] then 0 else -1)"
    "todo' \<noteq> [] \<longrightarrow> length (unread rc) < length (expected (bulk_len rc) todo)"
    using multibulk_loop_progress [OF L _ t(2,3) _ t(4)] by blast
  show ?thesis
  proof (cases "todo' = []")
    case True
    then show ?thesis using r t(1) by (simp add: length_known_def expected_def)
  next
    case False
    then have "parsing L bs h0 ws rc' h' (expected (bulk_len rc') todo')" using r t(1) unfolding parsing_def by blast
    then show ?thesis using r False by auto
  qed
qed

lemma process_multibulk_progress:
  assumes L: "object_laws L" "number_laws L" and ok: "request_ok pm ws" and par: "parsing L bs h0 ws rc h S"
    and bytes: "unread rc @ F = S @ R"
  shows "\<exists>rc' h' r. process_multibulk_buffer L pm rc h = Inr (rc', h', r) \<and> unparsed rc' = unparsed rc \<and>
    ((r = 0 \<and> midway L bs h0 h' rc' ws 0 \<and> bulk_len rc' = -1 \<and> unread rc' @ F = R) \<or>
     (r = -1 \<and> length (unread rc) < length S \<and> (\<exists>S'. parsing L bs h0 ws rc' h' S' \<and> unread rc' @ F = S' @ R)))"
proof -
  from par [unfolded parsing_def] show ?thesis
  proof (elim disjE exE conjE)
    assume i: "idle rc" "h = h0" "S = request ws" and bs: "bs = []"
    have ws: "ws \<noteq> []" "length ws \<le> 1024 * 1024" using ok by (simp_all add: request_ok_def)
    from multibulk_header_progress [OF L(2) i(1) ws, of F R h] bytes i(3) have
      "(\<exists>rc'. multibulk_header L rc = Inr (rc', None) \<and> midway L [] h h rc' [] (length ws) \<and> bulk_len rc' = -1 \<and>
          unread rc' @ F = bulks ws @ R \<and> unparsed rc' = unparsed rc) \<or>
        (multibulk_header L rc = Inr (rc, Some (-1)) \<and> length (unread rc) < length (request ws))" by simp
    then show ?thesis
    proof (elim disjE exE conjE)
      fix rc1 assume h1: "multibulk_header L rc = Inr (rc1, None)" "midway L [] h h rc1 [] (length ws)" "bulk_len rc1 = -1"
        "unread rc1 @ F = bulks ws @ R" "unparsed rc1 = unparsed rc"
      have m: "multi_bulk_len rc1 = int (length ws)" using h1(2) by (simp add: midway_def)
      have "length (unread rc) + length F = length (request ws) + length R" "length (unread rc1) + length F = length (bulks ws) + length R"
        using arg_cong [OF bytes, of length] arg_cong [OF h1(4), of length] i(3) by simp_all
      then have "length (unread rc1) < length (bulks ws) \<longrightarrow> length (unread rc) < length S" unfolding i(3) by linarith
      moreover have "process_multibulk_buffer L pm rc h = multibulk_loop L pm (length ws) rc1 h"
        using h1(1) m i(1) ws(1) by (simp add: process_multibulk_buffer_def idle_def)
      ultimately show ?thesis using multibulk_loop_resumes [OF L ok, of "[]" ws bs h0 h rc1 F R] h1 i(2) bs by (auto simp: length_known_def expected_def)
    next
      assume "multibulk_header L rc = Inr (rc, Some (-1))" "length (unread rc) < length (request ws)"
      then show ?thesis using i bytes par by (auto simp: process_multibulk_buffer_def idle_def)
    qed
  next
    fix ts todo assume t: "todo \<noteq> []" "ws = ts @ todo" "midway L bs h0 h rc ts (length todo)" "length_known rc todo" "S = expected (bulk_len rc) todo"
    have "multi_bulk_len rc = int (length todo)" using t(3) by (simp add: midway_def)
    then have "process_multibulk_buffer L pm rc h = multibulk_loop L pm (length todo) rc h" using t(1) by (simp add: process_multibulk_buffer_def)
    then show ?thesis using multibulk_loop_resumes [OF L ok t(2,3,4)] bytes t(5) by auto
  qed
qed

text \<open>
  What the network layer does between two calls of the parser: it appends what it has read to the
  query buffer. \<open>feed\<close> hands the pieces over one at a time until a request is complete, and returns the
  pieces that are left then.
\<close>

fun feed :: "latte_c \<Rightarrow> int \<Rightarrow> string list \<Rightarrow> redis_client \<Rightarrow> obj_heap \<Rightarrow> (redis_client \<times> obj_heap \<times> int \<times> string list) res" where
  "feed L pm [] rc h = Inr (rc, h, -1, [])"
| "feed L pm (c # cs) rc h =
     res_bind (process_multibulk_buffer L pm (set_buf (buf rc @ c) rc) h) (\<lambda>(rc, h, r).
     if r = 0 then Inr (rc, h, 0, cs) else feed L pm cs rc h)"

lemma parsing_receive:
  assumes "parsing L bs h0 ws rc h S"
  shows "parsing L bs h0 ws (set_buf (buf rc @ c) rc) h S" "unread (set_buf (buf rc @ c) rc) = unread rc @ c"
  using assms unfolding parsing_def midway_def idle_def length_known_def unread_def by auto

lemma feed_parses:
  assumes L: "object_laws L" "number_laws L" and ok: "request_ok pm ws"
  shows "parsing L bs h0 ws rc h S \<Longrightarrow> cs \<noteq> [] \<Longrightarrow> unread rc @ concat cs = S @ R \<Longrightarrow>
    \<exists>rc' h' left. feed L pm cs rc h = Inr (rc', h', 0, left) \<and> unparsed rc' = unparsed rc \<and>
      midway L bs h0 h' rc' ws 0 \<and> bulk_len rc' = -1 \<and> unread rc' @ concat left = R"
proof (induction cs arbitrary: rc h S)
  case (Cons c cs)
  let ?rc = "set_buf (buf rc @ c) rc"
  have "unread ?rc @ concat cs = S @ R" using Cons.prems(3) parsing_receive(2) [OF Cons.prems(1)] by simp
  from process_multibulk_progress [OF L ok parsing_receive(1) [OF Cons.prems(1)] this] obtain rc1 h1 r where
    p: "process_multibulk_buffer L pm ?rc h = Inr (rc1, h1, r)" "unparsed rc1 = unparsed rc"
    "(r = 0 \<and> midway L bs h0 h1 rc1 ws 0 \<and> bulk_len rc1 = -1 \<and> unread rc1 @ concat cs = R) \<or>
     (r = -1 \<and> length (unread ?rc) < length S \<and> (\<exists>S'. parsing L bs h0 ws rc1 h1 S' \<and> unread rc1 @ concat cs = S' @ R))" by auto
  from p(3) show ?case
  proof (elim disjE conjE exE)
    fix S' assume r: "r = -1" "length (unread ?rc) < length S" "parsing L bs h0 ws rc1 h1 S'" "unread rc1 @ concat cs = S' @ R"
    have "cs \<noteq> []" using r(2) arg_cong [OF \<open>unread ?rc @ concat cs = S @ R\<close>, of length] by auto
    from Cons.IH [OF r(3) this r(4)] show ?thesis using p(1,2) r(1) by auto
  qed (use p(1,2) in auto)
qed simp

section \<open>Any bytes at all\<close>

text \<open>
  What the parser relies on: the position is inside the buffer, and the argument vector has room for the
  arguments of the request under way. The objects read so far are new ones of \<open>h0\<close>.
\<close>

definition parser_ok :: "latte_c \<Rightarrow> obj_heap \<Rightarrow> redis_client \<Rightarrow> obj_heap \<Rightarrow> bool" where
  "parser_ok L h0 rc h \<longleftrightarrow> -1 \<le> bulk_len rc \<and>
     (idle rc \<and> h = h0 \<or> (\<exists>ts n. 0 < n \<and> midway L [] h0 h rc ts n))"

lemma reply_frame_buf: "reply_frame c c' \<Longrightarrow> buf c' = buf c" "reply_frame c c' \<Longrightarrow> pos c' = pos c"
  by (simp_all add: buf_def pos_def reply_frame_fields)

lemma reply_frame_midway: "reply_frame c c' \<Longrightarrow> midway L [] h0 h c' ts n = midway L [] h0 h c ts n"
  by (simp add: midway_def reply_frame_fields reply_frame_buf)

lemma add_reply_error_frame:
  "reply_laws L \<Longrightarrow> reply_frame c (add_reply_error L c s)"
  "reply_laws L \<Longrightarrow> sds_laws L \<Longrightarrow> reply_frame c (add_reply_error_format L c s)"
  using add_reply_error_spec [of L c s] add_reply_error_format_spec [of L c s] by (auto simp: emits_def)

lemma bulk_header_safe:
  assumes L: "reply_laws L" "sds_laws L" and p: "pos rc \<le> length (buf rc)" and bl: "-1 \<le> bulk_len rc"
  shows "\<exists>rc' r. bulk_header L pm rc = (rc', r) \<and> -1 \<le> bulk_len rc' \<and> pos rc' \<le> length (buf rc') \<and>
    length (unread rc') \<le> length (unread rc) \<and> argc rc' = argc rc \<and> argv rc' = argv rc \<and> multi_bulk_len rc' = multi_bulk_len rc \<and>
    (r = Some (-1) \<and> reply_frame rc rc' \<or> r = None \<and> 0 \<le> bulk_len rc' \<and> unparsed rc' = unparsed rc)"
proof -
  have err: "reply_frame rc (set_protocol_error m (add_reply_error L rc s))" "reply_frame rc (set_protocol_error m (add_reply_error_format L rc s))" for m s
    using add_reply_error_frame L by (simp_all add: set_protocol_error_def)
  have stop: ?thesis if "bulk_header L pm rc = (rc', Some (-1))" "reply_frame rc rc'" for rc'
    using that p bl by (auto simp: unread_def reply_frame_fields reply_frame_buf)
  show ?thesis
  proof (cases "bulk_len rc = -1")
    case False
    then show ?thesis using p bl by (simp add: bulk_header_def)
  next
    case True
    show ?thesis
    proof (cases "strchr (drop (pos rc) (buf rc)) CR")
      case None
      then show ?thesis using True err stop by (auto simp: bulk_header_def split: if_splits)
    next
      case (Some nl)
      show ?thesis
      proof (cases "int (length (buf rc)) - int (pos rc) - 2 < int nl \<or> byte_at (buf rc) (pos rc) \<noteq> CHR ''$'' \<or>
          (\<forall>ll. string2ll L (take (nl - 1) (drop (pos rc + 1) (buf rc))) = Some ll \<longrightarrow>
             ll < 0 \<or> (flag rc AND CLIENT_MASTER = 0 \<and> pm < ll))")
        case bad: True
        have "\<exists>rc'. bulk_header L pm rc = (rc', Some (-1)) \<and> reply_frame rc rc'"
          using bad True Some err unfolding bulk_header_def by (auto split: option.split)
        then show ?thesis using stop by blast
      next
        case False
        then obtain ll where ll: "string2ll L (take (nl - 1) (drop (pos rc + 1) (buf rc))) = Some ll" "0 \<le> ll"
          "\<not> (flag rc AND CLIENT_MASTER = 0 \<and> pm < ll)" by fastforce
        define rc1 where "rc1 = set_pos (pos rc + nl + 2) rc"
        define rc2 where "rc2 = (if PROTO_MBULK_BIG_ARG L \<le> ll \<and> int (length (buf rc1) - pos rc1) \<le> ll + 2
          then set_pos 0 (set_buf (drop (pos rc1) (buf rc1)) rc1) else rc1)"
        have "bulk_header L pm rc = (rc2\<lparr>bulk_len := ll\<rparr>, None)"
          using True Some False ll unfolding bulk_header_def by (simp add: auth_required_def rc2_def rc1_def Let_def)
        moreover have "pos rc2 \<le> length (buf rc2)" "length (unread rc2) \<le> length (unread rc)"
          using False by (auto simp: rc2_def rc1_def unread_def)
        ultimately show ?thesis using ll(2) by (auto simp: rc2_def rc1_def unread_def)
      qed
    qed
  qed
qed

text \<open>The fields no parser writes, whether it answers or not.\<close>

definition same_session :: "redis_client \<Rightarrow> redis_client \<Rightarrow> bool" where
  "same_session rc rc' \<longleftrightarrow> req_type rc' = req_type rc \<and> flag rc' = flag rc \<and> dbid rc' = dbid rc \<and> cmd rc' = cmd rc \<and>
     lastcmd rc' = lastcmd rc \<and> cl_flags (client rc') = cl_flags (client rc)"

lemma same_sessionI: "unparsed rc' = unparsed rc \<Longrightarrow> same_session rc rc'" "reply_frame rc rc' \<Longrightarrow> same_session rc rc'"
  using unparsed_fields [of rc' rc] reply_frame_fields [of rc rc'] by (simp_all add: same_session_def)

lemma same_session_trans [trans]: "same_session a b \<Longrightarrow> same_session b c \<Longrightarrow> same_session a c"
  by (simp add: same_session_def)

lemma bulk_argument_safe:
  assumes "object_laws L" "midway L [] h0 h rc ts (Suc n)" "0 \<le> bulk_len rc"
  shows "bulk_argument L rc h = Inr None \<or>
    (\<exists>rc' h' w. bulk_argument L rc h = Inr (Some (rc', h')) \<and> midway L [] h0 h' rc' (ts @ [w]) n \<and> bulk_len rc' = -1 \<and>
      length (unread rc') < length (unread rc) \<and> same_session rc rc')"
proof (cases "length (unread rc) < nat (bulk_len rc + 2)")
  case False
  define w where "w = take (nat (bulk_len rc)) (unread rc)"
  define B where "B = drop (nat (bulk_len rc) + 2) (unread rc)"
  have b: "nat (bulk_len rc) + 2 \<le> length (unread rc)" using False assms(3) by (simp add: nat_add_distrib)
  obtain c1 c2 where "drop (nat (bulk_len rc)) (unread rc) = c1 # c2 # B"
  proof
    show "drop (nat (bulk_len rc)) (unread rc) = unread rc ! nat (bulk_len rc) # unread rc ! Suc (nat (bulk_len rc)) # B"
      using b by (simp add: B_def Cons_nth_drop_Suc)
  qed
  then have "unread rc = w @ c1 # c2 # B" unfolding w_def by (metis append_take_drop_id)
  moreover have "bulk_len rc = int (length w)" using b assms(3) by (simp add: w_def)
  ultimately show ?thesis using bulk_argument_step [OF assms(1,2), of w c1 c2 B] by (auto intro: same_sessionI)
qed (simp add: bulk_argument_wait)

lemma multibulk_loop_safe:
  assumes L: "object_laws L" "reply_laws L" "sds_laws L"
  shows "midway L [] h0 h rc ts n \<Longrightarrow> -1 \<le> bulk_len rc \<Longrightarrow> (n = 0 \<longrightarrow> bulk_len rc = -1) \<Longrightarrow>
    \<exists>rc' h' r ts' n'. multibulk_loop L pm n rc h = Inr (rc', h', r) \<and> midway L [] h0 h' rc' ts' n' \<and> -1 \<le> bulk_len rc' \<and>
      r = (if n' = 0 then 0 else -1) \<and> (n' = 0 \<longrightarrow> bulk_len rc' = -1) \<and> length (unread rc') \<le> length (unread rc) \<and>
      (0 < n \<and> n' = 0 \<longrightarrow> length (unread rc') < length (unread rc)) \<and> same_session rc rc'"
proof (induction n arbitrary: rc h ts)
  case 0
  show ?case
    by (intro exI [of _ rc] exI [of _ h] exI [of _ 0] exI [of _ ts] exI [of _ "0 :: nat"]) (use 0 in \<open>simp add: same_session_def\<close>)
next
  case (Suc n)
  have p: "pos rc \<le> length (buf rc)" using Suc.prems(1) by (simp add: midway_def)
  obtain rc1 r1 where h: "bulk_header L pm rc = (rc1, r1)" "-1 \<le> bulk_len rc1" "pos rc1 \<le> length (buf rc1)"
    "length (unread rc1) \<le> length (unread rc)" "argc rc1 = argc rc" "argv rc1 = argv rc" "multi_bulk_len rc1 = multi_bulk_len rc"
    "r1 = Some (-1) \<and> reply_frame rc rc1 \<or> r1 = None \<and> 0 \<le> bulk_len rc1 \<and> unparsed rc1 = unparsed rc"
    using bulk_header_safe [OF L(2,3) p Suc.prems(2), of pm] by blast
  have mid: "midway L [] h0 h rc1 ts (Suc n)" using Suc.prems(1) h(3,5,6,7) by (simp add: midway_def)
  have same: "same_session rc rc1" using h(8) same_sessionI by blast
  have stop: ?case if "multibulk_loop L pm (Suc n) rc h = Inr (rc1, h, -1)"
    by (intro exI [of _ rc1] exI [of _ h] exI [of _ "-1"] exI [of _ ts] exI [of _ "Suc n"]) (use that mid h(2,4) same in simp)
  from h(8) show ?case
  proof (elim disjE conjE)
    assume r: "r1 = None" "0 \<le> bulk_len rc1"
    from bulk_argument_safe [OF L(1) mid r(2)] show ?case
    proof (elim disjE exE conjE)
      fix rc2 h2 w assume a: "bulk_argument L rc1 h = Inr (Some (rc2, h2))" "midway L [] h0 h2 rc2 (ts @ [w]) n" "bulk_len rc2 = -1"
        "length (unread rc2) < length (unread rc1)" "same_session rc1 rc2"
      have "-1 \<le> bulk_len rc2" "n = 0 \<longrightarrow> bulk_len rc2 = -1" using a(3) by simp_all
      then obtain rc' h' r ts' n' where IH: "multibulk_loop L pm n rc2 h2 = Inr (rc', h', r)" "midway L [] h0 h' rc' ts' n'" "-1 \<le> bulk_len rc'"
        "r = (if n' = 0 then 0 else -1)" "n' = 0 \<longrightarrow> bulk_len rc' = -1" "length (unread rc') \<le> length (unread rc2)" "same_session rc2 rc'"
        using Suc.IH [OF a(2)] by blast
      show ?case
        by (intro exI [of _ rc'] exI [of _ h'] exI [of _ r] exI [of _ ts'] exI [of _ n'])
          (use h(1,4) r a(1,4) IH same_session_trans [OF same same_session_trans [OF a(5) IH(7)]] in simp)
    qed (use stop h(1) r in simp)
  qed (use stop h(1) in simp)
qed

lemma multibulk_header_safe:
  assumes "reply_laws L" "idle rc" "byte_at (buf rc) (pos rc) = CHR ''*''"
  shows "\<exists>rc' r. multibulk_header L rc = Inr (rc', r) \<and> same_session rc rc' \<and> length (unread rc') \<le> length (unread rc) \<and>
    (r = Some (-1) \<and> idle rc' \<and> unread rc' = unread rc \<or> r = Some 0 \<and> idle rc' \<and> length (unread rc') < length (unread rc) \<or>
     r = None \<and> bulk_len rc' = -1 \<and> length (unread rc') < length (unread rc) \<and> (\<exists>n>0. midway L [] h h rc' [] n))"
proof -
  have i: "argc rc = 0" "pos rc \<le> length (buf rc)" "multi_bulk_len rc = 0" "bulk_len rc = -1" "argv rc \<noteq> Argv_garbage" using assms(2) by (simp_all add: idle_def)
  have err: "reply_frame rc (set_protocol_error m (add_reply_error L rc s))" for m s
    using add_reply_error_frame(1) [OF assms(1)] by (simp add: set_protocol_error_def)
  have stop: ?thesis if "multibulk_header L rc = Inr (rc', Some (-1))" "reply_frame rc rc'" for rc'
    using that i by (auto simp: unread_def idle_def reply_frame_fields reply_frame_buf intro: same_sessionI(2))
  show ?thesis
  proof (cases "strchr (drop (pos rc) (buf rc)) CR")
    case None
    then show ?thesis using i err stop by (auto simp: multibulk_header_def split: if_splits)
  next
    case (Some nl)
    show ?thesis
    proof (cases "int (length (buf rc)) - int (pos rc) - 2 < int nl \<or>
        (\<forall>ll. string2ll L (take (nl - 1) (drop (pos rc + 1) (buf rc))) = Some ll \<longrightarrow> 1024 * 1024 < ll)")
      case True
      have "\<exists>rc'. multibulk_header L rc = Inr (rc', Some (-1)) \<and> reply_frame rc rc'"
        using True Some err i(1) assms(3) unfolding multibulk_header_def by (auto split: option.split)
      then show ?thesis using stop by blast
    next
      case False
      then obtain ll where ll: "string2ll L (take (nl - 1) (drop (pos rc + 1) (buf rc))) = Some ll" "\<not> 1024 * 1024 < ll" by blast
      let ?rc = "set_pos (pos rc + nl + 2) rc"
      let ?rc' = "if ll \<le> 0 then ?rc else ?rc\<lparr>multi_bulk_len := ll, argv := Argv (replicate (nat ll) None), argv_len_sum := 0\<rparr>"
      have run: "multibulk_header L rc = Inr (?rc', if ll \<le> 0 then Some 0 else None)"
        using Some False ll i(1,5) assms(3) unfolding multibulk_header_def by (simp add: auth_required_def Let_def)
      have u: "pos rc + nl + 2 \<le> length (buf rc)" "unread ?rc' = drop (pos rc + nl + 2) (buf rc)"
        using False by (auto simp: unread_def)
      have "0 < ll \<longrightarrow> (\<exists>n>0. midway L [] h h ?rc' [] n)"
        using u(1) i by (intro impI exI [of _ "nat ll"]) (simp add: midway_def)
      moreover have "same_session rc ?rc'" by (rule same_sessionI(1)) simp
      moreover have "length (unread ?rc') < length (unread rc)" unfolding u(2) using u(1) by (simp add: unread_def)
      moreover have "ll \<le> 0 \<longrightarrow> idle ?rc'" using i u(1) by (simp add: idle_def)
      ultimately show ?thesis using run i(4)
        by (intro exI [of _ ?rc'] exI [of _ "if ll \<le> 0 then Some 0 else None"]) (cases "ll \<le> 0"; simp)
    qed
  qed
qed

lemma process_multibulk_safe:
  assumes L: "object_laws L" "reply_laws L" "sds_laws L" and ok: "parser_ok L h0 rc h"
    and star: "multi_bulk_len rc = 0 \<Longrightarrow> byte_at (buf rc) (pos rc) = CHR ''*''"
  shows "\<exists>rc' h' r. process_multibulk_buffer L pm rc h = Inr (rc', h', r) \<and> same_session rc rc' \<and>
    (r = -1 \<and> parser_ok L h0 rc' h' \<and> (multi_bulk_len rc' = 0 \<longrightarrow> multi_bulk_len rc = 0 \<and> unread rc' = unread rc) \<or>
     r = 0 \<and> length (unread rc') < length (unread rc) \<and> bulk_len rc' = -1 \<and> (idle rc' \<and> h' = h0 \<or> (\<exists>ts. midway L [] h0 h' rc' ts 0)))"
proof -
  have loop: "\<exists>rc' h' r. multibulk_loop L pm n rc1 h = Inr (rc', h', r) \<and> same_session rc1 rc' \<and>
    (r = -1 \<and> parser_ok L h0 rc' h' \<and> multi_bulk_len rc' \<noteq> 0 \<or>
     r = 0 \<and> length (unread rc') < length (unread rc1) \<and> bulk_len rc' = -1 \<and> (\<exists>ts. midway L [] h0 h' rc' ts 0))"
    if m: "midway L [] h0 h rc1 ts n" "0 < n" "-1 \<le> bulk_len rc1" for rc1 ts n
  proof -
    have "n = 0 \<longrightarrow> bulk_len rc1 = -1" using m(2) by simp
    then obtain rc' h' r ts' n' where l: "multibulk_loop L pm n rc1 h = Inr (rc', h', r)" "midway L [] h0 h' rc' ts' n'" "-1 \<le> bulk_len rc'"
      "r = (if n' = 0 then 0 else -1)" "n' = 0 \<longrightarrow> bulk_len rc' = -1"
      "0 < n \<and> n' = 0 \<longrightarrow> length (unread rc') < length (unread rc1)" "same_session rc1 rc'"
      using multibulk_loop_safe [OF L m(1,3), of pm] by blast
    moreover have "multi_bulk_len rc' = int n'" using l(2) by (simp add: midway_def)
    ultimately show ?thesis using m(2) by (cases "n' = 0") (auto simp: parser_ok_def)
  qed
  have bl: "-1 \<le> bulk_len rc" using ok by (simp add: parser_ok_def)
  from ok [unfolded parser_ok_def] have "idle rc \<and> h = h0 \<or> (\<exists>ts n. 0 < n \<and> midway L [] h0 h rc ts n)" by blast
  then show ?thesis
  proof (elim disjE conjE exE)
    assume i: "idle rc" "h = h0"
    then have m0: "multi_bulk_len rc = 0" by (simp add: idle_def)
    obtain rc1 r1 where hd: "multibulk_header L rc = Inr (rc1, r1)" "same_session rc rc1" "length (unread rc1) \<le> length (unread rc)"
      "r1 = Some (-1) \<and> idle rc1 \<and> unread rc1 = unread rc \<or> r1 = Some 0 \<and> idle rc1 \<and> length (unread rc1) < length (unread rc) \<or>
       r1 = None \<and> bulk_len rc1 = -1 \<and> length (unread rc1) < length (unread rc) \<and> (\<exists>n>0. midway L [] h h rc1 [] n)"
      using multibulk_header_safe [OF L(2) i(1) star [OF m0], of h] by blast
    have run: "process_multibulk_buffer L pm rc h = (case r1 of Some r \<Rightarrow> Inr (rc1, h, r) | None \<Rightarrow>
       res_bind (latte_assert (0 < multi_bulk_len rc1) ''rc->multibulklen'') (\<lambda>_. multibulk_loop L pm (nat (multi_bulk_len rc1)) rc1 h))"
      using m0 hd(1) by (simp add: process_multibulk_buffer_def)
    from hd(4) show ?thesis
    proof (elim disjE conjE exE)
      fix n assume n: "r1 = None" "bulk_len rc1 = -1" "length (unread rc1) < length (unread rc)" "0 < n" "midway L [] h h rc1 [] n"
      then have "process_multibulk_buffer L pm rc h = multibulk_loop L pm n rc1 h" using run by (simp add: midway_def)
      then show ?thesis using loop [of rc1 "[]" n] n i(2) hd(2) by (fastforce intro: same_session_trans)
    qed (use run hd(2) i(2) m0 in \<open>auto simp: parser_ok_def idle_def\<close>)
  next
    fix ts n assume n: "0 < n" "midway L [] h0 h rc ts n"
    then have "process_multibulk_buffer L pm rc h = multibulk_loop L pm n rc h" by (simp add: process_multibulk_buffer_def midway_def)
    then show ?thesis using loop [OF n(2,1) bl] by auto
  qed
qed

section \<open>Inline requests\<close>

lemma push_args_spec:
  assumes L: "object_laws L"
  shows "argv rc = Argv (map Some as @ replicate (length ss) None) \<Longrightarrow> argc rc = length as \<Longrightarrow> fresh_copies L h0 h as ts \<Longrightarrow>
    \<exists>rc' h' as'. push_args L ss rc h = Inr (rc', h') \<and> args_of rc' as' \<and> fresh_copies L h0 h' as' (ts @ ss) \<and>
      buf rc' = buf rc \<and> pos rc' = pos rc \<and> unparsed rc' = unparsed rc"
proof (induction ss arbitrary: rc h as ts)
  case Nil
  then show ?case by (auto simp: args_of_def intro!: exI [of _ as])
next
  case (Cons s ss)
  let ?obj = "latte_object_new L OBJ_STRING s" and ?rc = "rc\<lparr>argv := Argv (map Some (as @ [next_addr h]) @ replicate (length ss) None),
    argc := Suc (length as), argv_len_sum := argv_len_sum rc + length s\<rparr>"
  have obj: "string_obj L ?obj s" "refcount ?obj = 1" using L by (simp_all add: object_laws_def)
  have push: "argv_push rc (next_addr h) = Inr (rc\<lparr>argv := Argv (map Some (as @ [next_addr h]) @ replicate (length ss) None), argc := Suc (length as)\<rparr>)"
    by (rule argv_push_midway) (use Cons.prems in simp_all)
  have run: "push_args L (s # ss) rc h = push_args L ss ?rc (fst (obj_alloc h ?obj))"
    using push by (simp add: obj_alloc_def)
  have "argv ?rc = Argv (map Some (as @ [next_addr h]) @ replicate (length ss) None)" "argc ?rc = length (as @ [next_addr h])" by simp_all
  from Cons.IH [OF this fresh_copies_alloc [OF Cons.prems(3) obj]] show ?case unfolding run by (auto simp: buf_def pos_def)
qed

lemma plain_char_not_break: "plain_char c \<Longrightarrow> c \<noteq> LF \<and> c \<noteq> CR \<and> c \<noteq> NUL"
  by (auto simp: plain_char_def)

lemma set_unwords: "list_all plain_word ws \<Longrightarrow> c \<in> set (unwords ws) \<Longrightarrow> c = CHR '' '' \<or> plain_char c"
  by (induction ws rule: unwords.induct) (auto simp: plain_word_def list_all_iff)

lemma unwords_nonempty: "ws \<noteq> [] \<Longrightarrow> list_all plain_word ws \<Longrightarrow> unwords ws \<noteq> []"
  by (induction ws rule: unwords.induct) (auto simp: plain_word_def)

text \<open>A line of words, and what has come of a line so far.\<close>

lemma push_args_counts: "push_args L ss rc h = Inr (rc', h') \<Longrightarrow> multi_bulk_len rc' = multi_bulk_len rc \<and> bulk_len rc' = bulk_len rc"
  by (induction ss arbitrary: rc h) (auto simp: obj_alloc_def argv_push_def split: argv_ptr.split_asm if_split_asm elim!: res_bind_InrE)

lemma inline_words:
  assumes "object_laws L" "sds_laws L" "ws \<noteq> []" "list_all plain_word ws" "pos rc \<le> length (buf rc)" "length (buf rc) < 2 ^ 62"
    "unread rc = unwords ws @ crlf @ rest" "flag rc AND CLIENT_MASTER = 0" "0 \<le> lf0" "lf0 < 2 ^ 31" "argv rc \<noteq> Argv_garbage"
  shows "\<exists>rc' h' as. process_inline_buffer L lf0 now rc h = Inr (rc', h', 0) \<and> args_of rc' as \<and> fresh_copies L h h' as ws \<and>
    buf rc' = buf rc \<and> pos rc' = pos rc + length (unwords ws) + nat lf0 + 1 \<and> unparsed rc' = unparsed rc \<and>
    multi_bulk_len rc' = multi_bulk_len rc \<and> bulk_len rc' = bulk_len rc"
proof -
  let ?w = "unwords ws"
  have chars: "CR \<notin> set ?w" "LF \<notin> set ?w" "NUL \<notin> set ?w"
    using set_unwords [OF assms(4)] plain_char_not_break by blast+
  have b: "drop (pos rc) (buf rc) = (?w @ [CR]) @ LF # rest" using assms(7) by (simp add: unread_def)
  have s: "strchr (drop (pos rc) (buf rc)) LF = Some (Suc (length ?w))"
    unfolding b using strchr_skip [of LF "?w @ [CR]" rest] chars by simp
  have cr: "byte_at (drop (pos rc) (buf rc)) (length ?w) = CR" unfolding b by (simp add: byte_at_def nth_append)
  have q: "take (length ?w) (drop (pos rc) (buf rc)) = ?w" unfolding b by simp
  have sp: "sds_split_args L ?w = Some ws" using assms(2,3,4) by (simp add: sds_laws_def)
  have w0: "?w \<noteq> []" using unwords_nonempty assms(3,4) by blast
  have l: "length (buf rc) = pos rc + length ?w + 2 + length rest" using arg_cong [OF b, of length] assms(5) by simp
  define p where "p = pos rc + length ?w + nat lf0 + 1"
  have "int (pos rc) + int (length ?w) + (lf0 + 1) < 2 ^ 64" using l assms(6,10) by simp
  then have pe: "nat ((int (pos rc) + int (length ?w) + (lf0 + 1)) mod 2 ^ 64) = p" using assms(9) by (simp add: p_def)
  let ?rc = "(set_pos p rc)\<lparr>argv := Argv (replicate (length ws) None), argv_len_sum := 0, argc := 0\<rparr>"
  have "argv ?rc = Argv (map Some [] @ replicate (length ws) None)" "argc ?rc = length []" by simp_all
  from push_args_spec [OF assms(1) this fresh_copies_Nil [of L h]] obtain rc' h' as where
    r: "push_args L ws ?rc h = Inr (rc', h')" "args_of rc' as" "fresh_copies L h h' as ws" "buf rc' = buf rc" "pos rc' = p" "unparsed rc' = unparsed ?rc"
    by auto
  have "process_inline_buffer L lf0 now rc h = Inr (rc', h', 0)"
    using r(1) assms(3,8,11) w0 pe unfolding process_inline_buffer_def by (simp add: s cr q sp Let_def del: int_plus)
  moreover have "unparsed rc' = unparsed rc" using r(6) by (simp add: unparsed_def set_pos_def)
  moreover have "multi_bulk_len rc' = multi_bulk_len rc" "bulk_len rc' = bulk_len rc" using push_args_counts [OF r(1)] by simp_all
  ultimately show ?thesis using r p_def by blast
qed

lemma inline_waits:
  assumes "LF \<notin> set (unread rc)" "length (unread rc) \<le> PROTO_INLINE_MAX_SIZE"
  shows "process_inline_buffer L lf0 now rc h = Inr (rc, h, -1)"
proof -
  have "strchr s LF = None" if "LF \<notin> set s" for s using that by (induction s) auto
  then have "strchr (drop (pos rc) (buf rc)) LF = None" using assms(1) by (simp add: unread_def)
  then show ?thesis using assms(2) by (simp add: process_inline_buffer_def unread_def)
qed

text \<open>Any line at all, from a client at rest.\<close>

lemma inline_safe:
  assumes L: "object_laws L" "reply_laws L" and rc: "idle rc"
  shows "\<exists>rc' h' r. process_inline_buffer L lf0 now rc h = Inr (rc', h', r) \<and> same_session rc rc' \<and>
    (r = -1 \<and> idle rc' \<and> h' = h \<or> r = 0 \<and> (\<exists>as ts. args_of rc' as \<and> fresh_copies L h h' as ts))"
proof -
  have i: "argv rc \<noteq> Argv_garbage" using rc by (simp add: idle_def)
  have stop: ?thesis if "process_inline_buffer L lf0 now rc h = Inr (rc', h, -1)" "reply_frame rc rc' \<or> rc' = rc\<lparr>repl_ack_time := t\<rparr> \<or> rc' = rc" for rc' t
    using that rc by (auto simp: idle_def reply_frame_fields reply_frame_buf same_session_def intro: same_sessionI(2))
  have err: "reply_frame rc (set_protocol_error m (add_reply_error L rc s))" for m s
    using add_reply_error_frame(1) [OF L(2)] by (simp add: set_protocol_error_def)
  show ?thesis
  proof (cases "strchr (drop (pos rc) (buf rc)) LF")
    case None
    then show ?thesis using stop err by (auto simp: process_inline_buffer_def split: if_splits)
  next
    case (Some nl)
    define cr where "cr \<longleftrightarrow> nl \<noteq> 0 \<and> byte_at (drop (pos rc) (buf rc)) (nl - 1) = CR"
    define q where "q = (if cr then nl - 1 else nl)"
    define lf where "lf = (if cr then lf0 + 1 else lf0)"
    define ack where "ack = (if q = 0 \<and> get_client_type rc = CLIENT_TYPE_SLAVE then rc\<lparr>repl_ack_time := now\<rparr> else rc)"
    have ack: "argv ack = argv rc" "pos ack = pos rc" "flag ack = flag rc" "same_session rc ack" by (auto simp: ack_def same_session_def)
    show ?thesis
    proof (cases "sds_split_args L (take q (drop (pos rc) (buf rc)))")
      case None
      then show ?thesis using Some err by (intro stop) (auto simp: process_inline_buffer_def Let_def q_def cr_def)
    next
      case args: (Some args)
      show ?thesis
      proof (cases "q \<noteq> 0 \<and> flag rc AND CLIENT_MASTER \<noteq> 0")
        case True
        then have "process_inline_buffer L lf0 now rc h = Inr (rc, h, -1)"
          using args ack(3) unfolding process_inline_buffer_def Some option.case Let_def cr_def [symmetric] q_def [symmetric] lf_def [symmetric] ack_def [symmetric]
          by (simp add: set_protocol_error_def ack_def)
        then show ?thesis using stop by blast
      next
        case False
        define rc1 where "rc1 = set_pos (nat ((int (pos rc) + int q + lf) mod 2 ^ 64)) ack"
        define rc2 where "rc2 = (if args \<noteq> [] then rc1\<lparr>argv := Argv (replicate (length args) None), argv_len_sum := 0\<rparr> else rc1)\<lparr>argc := 0\<rparr>"
        have rc1: "argv rc1 \<noteq> Argv_garbage" using i ack(1) by (simp add: rc1_def)
        have run: "process_inline_buffer L lf0 now rc h = res_bind (push_args L args rc2 h) (\<lambda>(rc, h). Inr (rc, h, 0))"
          using args False rc1 ack(2,3)
          unfolding process_inline_buffer_def Some option.case Let_def cr_def [symmetric] q_def [symmetric] lf_def [symmetric] ack_def [symmetric] ack(2) rc1_def [symmetric]
          by (auto simp: rc2_def)
        have ses: "same_session rc rc2" using ack(4) by (auto simp: rc2_def rc1_def same_session_def set_pos_def)
        show ?thesis
        proof (cases "args = []")
          case True
          then have "args_of rc2 []" by (simp add: rc2_def args_of_def)
          then show ?thesis using run True ses by (auto intro!: exI [of _ "[]"])
        next
          case ne: False
          have "argv rc2 = Argv (map Some [] @ replicate (length args) None)" "argc rc2 = length []" using ne by (simp_all add: rc2_def)
          from push_args_spec [OF L(1) this fresh_copies_Nil [of L h]] show ?thesis
            using run ses same_session_trans same_sessionI(1) by fastforce
        qed
      qed
    qed
  qed
qed

section \<open>Properties\<close>

text \<open>
  C4. A request in the RESP array form is parsed into exactly its arguments however the network splits it: given, from a client at rest,
  the bytes piece by piece, the parser waits without answering, and the call that sees the last byte of
  the request returns 0 with one new object per argument, holding its bytes (also CR, LF and NUL bytes, and arguments
  that take the big-argument path). Bytes after the request stay unread, and nothing else of the client or of the heap changes.
\<close>

theorem multibulk_any_chunks:
  assumes "object_laws L" "number_laws L" "request_ok pm ws" "idle rc" "chunks \<noteq> []"
    "unread rc @ concat chunks = request ws @ rest"
  shows "\<exists>rc' h' left as. feed L pm chunks rc h = Inr (rc', h', 0, left) \<and> args_of rc' as \<and> fresh_copies L h h' as ws \<and>
    multi_bulk_len rc' = 0 \<and> bulk_len rc' = -1 \<and> unread rc' @ concat left = rest \<and> unparsed rc' = unparsed rc"
proof -
  have "parsing L [] h ws rc h (request ws)" using assms(4) by (simp add: parsing_def)
  from feed_parses [OF assms(1,2,3) this assms(5,6)] obtain rc' h' left where
    f: "feed L pm chunks rc h = Inr (rc', h', 0, left)" "unparsed rc' = unparsed rc" "midway L [] h h' rc' ws 0" "bulk_len rc' = -1"
    "unread rc' @ concat left = rest" by blast
  obtain as where "args_of rc' as" "fresh_copies L h h' as ws" using midway_args [OF f(3)] by auto
  then show ?thesis using f by (auto simp: midway_def)
qed

text \<open>
  C30. An inline request of plain words, sent by a client that is no master and whose argument vector is NULL or a block that is still allocated, is parsed into its words, one new object each. Where reading goes on depends on
  what the uninitialised \<open>linefeed_chars\<close> held: only with 1 is it behind the line end.
\<close>

theorem inline_position:
  assumes "object_laws L" "sds_laws L" "ws \<noteq> []" "list_all plain_word ws" "pos rc \<le> length (buf rc)" "length (buf rc) < 2 ^ 62"
    "unread rc = unwords ws @ crlf @ rest" "flag rc AND CLIENT_MASTER = 0" "0 \<le> lf0" "lf0 < 2 ^ 31" "argv rc \<noteq> Argv_garbage"
  shows "\<exists>rc' h' as. process_inline_buffer L lf0 now rc h = Inr (rc', h', 0) \<and> args_of rc' as \<and> fresh_copies L h h' as ws \<and>
    buf rc' = buf rc \<and> pos rc' = pos rc + length (unwords ws) + nat lf0 + 1 \<and> (unread rc' = rest \<longleftrightarrow> lf0 = 1 \<or> lf0 \<ge> 1 \<and> rest = [])"
proof -
  obtain rc' h' as where r: "process_inline_buffer L lf0 now rc h = Inr (rc', h', 0)" "args_of rc' as" "fresh_copies L h h' as ws"
    "buf rc' = buf rc" "pos rc' = pos rc + length (unwords ws) + nat lf0 + 1"
    using inline_words [OF assms] by blast
  have "unread rc' = drop (pos rc + length (unwords ws) + nat lf0 + 1) (buf rc)" by (simp add: unread_def r(4,5))
  also have "\<dots> = drop (length (unwords ws) + nat lf0 + 1) (unread rc)" by (simp add: unread_def add_ac)
  also have "\<dots> = drop (nat lf0 + 1) (crlf @ rest)" unfolding assms(7) by simp
  finally have u: "unread rc' = drop (nat lf0 + 1) (crlf @ rest)" .
  consider "lf0 = 0" | "lf0 = 1" | "1 < lf0" using assms(9) by linarith
  then have "unread rc' = rest \<longleftrightarrow> lf0 = 1 \<or> lf0 \<ge> 1 \<and> rest = []"
  proof cases
    case 3
    then have d: "unread rc' = drop (nat lf0 - 1) rest" unfolding u by (simp add: drop_Cons' nat_diff_distrib)
    then have "length (unread rc') < length rest \<or> rest = []" using 3 by (cases rest) auto
    then have "rest = []" if "unread rc' = rest" using that by auto
    then show ?thesis using 3 d by (cases "rest = []") auto
  qed (use u in simp_all)
  then show ?thesis using r by blast
qed

section \<open>Witnesses\<close>

definition reader_ex :: "string \<Rightarrow> redis_client" where
  "reader_ex b = set_buf b (client_ex\<lparr>argc := 0, argv := Argv_null, req_type := 2\<rparr>)"

lemma reader_ex_simps [simp]:
  "buf (reader_ex b) = b" "pos (reader_ex b) = 0" "unread (reader_ex b) = b" "idle (reader_ex b)" "flag (reader_ex b) = 0"
  "req_type (reader_ex b) = 2" "multi_bulk_len (reader_ex b) = 0" "bulk_len (reader_ex b) = -1" "argv (reader_ex b) = Argv_null"
  by (simp_all add: reader_ex_def unread_def idle_def client_ex_def pos_def buf_def set_buf_def)

theorem multibulk_any_chunks_witness:
  "\<exists>rc' h' left as. feed latte_c_ref 512 [''*2'' @ [CR], LF # ''$3'' @ crlf @ ''GE'', ''T'' @ crlf @ ''$1'' @ crlf @ ''k'' @ crlf @ ''PING''] (reader_ex []) empty_heap
       = Inr (rc', h', 0, left) \<and> args_of rc' as \<and> fresh_copies latte_c_ref empty_heap h' as [''GET'', ''k''] \<and>
     unread rc' @ concat left = ''PING''"
proof -
  have "request_ok 512 [''GET'', ''k'']" by (simp add: request_ok_def)
  moreover have "dec 2 = ''2''" "dec 3 = ''3''" "dec 1 = ''1''" by code_simp+
  then have "unread (reader_ex []) @ concat [''*2'' @ [CR], LF # ''$3'' @ crlf @ ''GE'', ''T'' @ crlf @ ''$1'' @ crlf @ ''k'' @ crlf @ ''PING'']
    = request [''GET'', ''k''] @ ''PING''" by (simp add: request_eq)
  ultimately show ?thesis
    using multibulk_any_chunks [OF object_laws_ref number_laws_ref, of 512 "[''GET'', ''k'']" "reader_ex []"
      "[''*2'' @ [CR], LF # ''$3'' @ crlf @ ''GE'', ''T'' @ crlf @ ''$1'' @ crlf @ ''k'' @ crlf @ ''PING'']" "''PING''" empty_heap]
    by auto
qed

theorem inline_position_witness:
  "\<exists>rc' h' as. process_inline_buffer latte_c_ref 1 0 (reader_ex (''get k'' @ crlf @ ''x'')) empty_heap = Inr (rc', h', 0) \<and> args_of rc' as \<and>
     fresh_copies latte_c_ref empty_heap h' as [''get'', ''k''] \<and> unread rc' = ''x''"
proof -
  have "list_all plain_word [''get'', ''k'']" by (simp add: plain_word_def plain_char_def)
  moreover have "unread (reader_ex (''get k'' @ crlf @ ''x'')) = unwords [''get'', ''k''] @ crlf @ ''x''" by simp
  ultimately show ?thesis
    using inline_position [OF object_laws_ref sds_laws_ref, of "[''get'', ''k'']" "reader_ex (''get k'' @ crlf @ ''x'')" "''x''" 1 0 empty_heap]
    by auto
qed

end
