(* ===== verification/Input_Loop.thy ===== *)
theory Input_Loop
  imports Commands Protocol
begin

text \<open>
  The loop of \<open>src/redis/client.c\<close> that serves a client's query buffer: \<open>redis_process_input_buffer\<close>
  parses one request after the other and executes it, called by \<open>redis_client_handle\<close> when the
  network layer has appended to the buffer; \<open>redis_client_command_end\<close> runs when the network
  layer has answered. The loop need not end, so it runs on fuel: \<open>None\<close> is a loop that has not returned
  after that many turns.
\<close>

section \<open>The loop\<close>

text \<open>How a turn of the loop ends: the next turn, \<open>break\<close>, or the return for a dead client.\<close>

datatype turn = Next | Break | Dead

definition read_request ::
  "sys \<Rightarrow> int \<Rightarrow> redis_server \<Rightarrow> redis_client \<Rightarrow> (redis_server \<times> redis_client \<times> int) res" where
  "read_request S lf0 srv rc =
     (let rc = (if req_type rc = 0
                then rc\<lparr>req_type := if byte_at (buf rc) (pos rc) = CHR ''*'' then PROTO_REQ_MULTIBULK else PROTO_REQ_INLINE\<rparr>
                else rc) in
      res_bind (if req_type rc = PROTO_REQ_INLINE then process_inline_buffer (lib S) lf0 (unixtime srv) rc (heap srv)
                else if req_type rc = PROTO_REQ_MULTIBULK then process_multibulk_buffer (lib S) (proto_max_bulk_len srv) rc (heap srv)
                else Inl (Unreachable ''Unknown request type'')) (\<lambda>(rc, h, r).
      Inr (srv\<lparr>heap := h\<rparr>, rc, r)))"

text \<open>\<open>now\<close> is the time the command reads, \<open>lf0\<close> what the stack holds where the inline parser keeps \<open>linefeed_chars\<close>.\<close>

definition input_turn ::
  "sys \<Rightarrow> int \<Rightarrow> int \<Rightarrow> nat \<Rightarrow> redis_server \<Rightarrow> redis_client \<Rightarrow> (redis_server \<times> redis_client \<times> turn) res" where
  "input_turn S now lf0 self srv rc =
     (if cl_flags (client rc) AND (CLIENT_CLOSE_AFTER_REPLY (lib S) OR CLIENT_CLOSE_ASAP (lib S)) \<noteq> 0
      then Inr (srv, rc, Break)
      else
        res_bind (read_request S lf0 srv rc) (\<lambda>(srv, rc, r).
        if r \<noteq> 0 then Inr (srv, rc, Break)
        else if argc rc = 0 then
          res_bind (reset_redis_client (lib S) rc (heap srv)) (\<lambda>(rc, h). Inr (srv\<lparr>heap := h\<rparr>, rc, Next))
        else
          res_bind (process_command_and_reset_client S now self srv rc) (\<lambda>(srv, rc, r).
          Inr (srv, rc, if r = -1 then Dead else Next))))"

text \<open>\<open>clock\<close> and \<open>lf\<close> give what each turn reads, \<open>i\<close> counts the turns.\<close>

fun redis_process_input_buffer ::
  "sys \<Rightarrow> (nat \<Rightarrow> int) \<Rightarrow> (nat \<Rightarrow> int) \<Rightarrow> nat \<Rightarrow> nat \<Rightarrow> nat \<Rightarrow> redis_server \<Rightarrow> redis_client
     \<Rightarrow> (redis_server \<times> redis_client \<times> int) res option" where
  "redis_process_input_buffer S clock lf self 0 i srv rc = None"
| "redis_process_input_buffer S clock lf self (Suc fuel) i srv rc =
     (if length (buf rc) \<le> pos rc then Some (Inr (srv, rc, if pos rc \<noteq> 0 then 1 else 0))
      else case input_turn S (clock i) (lf i) self srv rc of
        Inl e \<Rightarrow> Some (Inl e)
      | Inr (srv, rc, Next) \<Rightarrow> redis_process_input_buffer S clock lf self fuel (Suc i) srv rc
      | Inr (srv, rc, Break) \<Rightarrow> Some (Inr (srv, rc, if pos rc \<noteq> 0 then 1 else 0))
      | Inr (srv, rc, Dead) \<Rightarrow> Some (Inr (srv, rc, 0)))"

definition redis_client_handle ::
  "sys \<Rightarrow> (nat \<Rightarrow> int) \<Rightarrow> (nat \<Rightarrow> int) \<Rightarrow> nat \<Rightarrow> nat \<Rightarrow> redis_server \<Rightarrow> redis_client \<Rightarrow> int
     \<Rightarrow> (redis_server \<times> redis_client \<times> int) res option" where
  "redis_client_handle S clock lf self fuel srv rc nread =
     redis_process_input_buffer S clock lf self fuel 0 srv
       (if flag rc AND CLIENT_MASTER \<noteq> 0 then rc\<lparr>read_reploff := wrap64 (read_reploff rc + nread)\<rparr> else rc)"

definition redis_client_command_end ::
  "sys \<Rightarrow> int \<Rightarrow> string option \<Rightarrow> string \<Rightarrow> redis_server \<Rightarrow> redis_client \<Rightarrow> redis_server res" where
  "redis_client_command_end S ustime name peer srv rc =
     res_bind (slowlog_manager_push_if_needed (lib S) ustime name peer (slowlog srv) rc (heap srv)) (\<lambda>(m, h).
     Inr (srv\<lparr>slowlog := m, heap := h, metric_stat_numcommands := wrap64 (metric_stat_numcommands srv + 1)\<rparr>))"

section \<open>Commands leave the state of the parser alone\<close>

named_theorems input_kept \<open>what leaves the query buffer and the state of the parser as they are\<close>

definition parse_state :: "redis_client \<Rightarrow> (string \<times> nat) \<times> int \<times> int \<times> int \<times> nat" where
  "parse_state c = ((buf c, pos c), req_type c, bulk_len c, multi_bulk_len c, dbid c)"

lemma parse_state_updates [input_kept]:
  "parse_state (c\<lparr>argc := n\<rparr>) = parse_state c" "parse_state (c\<lparr>argv := v\<rparr>) = parse_state c" "parse_state (c\<lparr>cmd := x\<rparr>) = parse_state c"
  "parse_state (c\<lparr>lastcmd := x\<rparr>) = parse_state c" "parse_state (c\<lparr>argv_len_sum := n\<rparr>) = parse_state c"
  "parse_state (c\<lparr>reply_bytes := w\<rparr>) = parse_state c"
  "parse_state (c\<lparr>client := (client c)\<lparr>cl_flags := f\<rparr>\<rparr>) = parse_state c" "parse_state (c\<lparr>client := (client c)\<lparr>reply := r\<rparr>\<rparr>) = parse_state c"
  "parse_state (set_reply c r) = parse_state c" "parse_state (set_protocol_error m c) = parse_state c"
  by (simp_all add: parse_state_def buf_def pos_def set_reply_def set_protocol_error_def)

lemma parse_state_frame: "reply_frame c c' \<Longrightarrow> parse_state c' = parse_state c"
  by (simp add: parse_state_def reply_frame_buf reply_frame_fields)

lemma reply_proto_input [input_kept]: "reply_laws L \<Longrightarrow> parse_state (reply_proto L c s) = parse_state c"
  using out.emitted_put [of L c s] by (simp add: emits_def parse_state_frame)

lemma add_reply_input:
  "reply_laws L \<Longrightarrow> add_reply L c obj = Inr c' \<Longrightarrow> parse_state c' = parse_state c"
  "reply_laws L \<Longrightarrow> add_reply_long_long_with_prefix L sh c ll p = Inr c' \<Longrightarrow> parse_state c' = parse_state c"
  "reply_laws L \<Longrightarrow> add_reply_bulk L sh c obj = Inr c' \<Longrightarrow> parse_state c' = parse_state c"
proof -
  assume L: "reply_laws L"
  have one: "add_reply L c obj = Inr c' \<Longrightarrow> parse_state c' = parse_state c" for c obj c'
    by (auto simp: add_reply_def prepare_client_to_write_def reply_proto_input [OF L] split: if_split_asm object_ptr.split_asm)
  have num: "add_reply_long_long_with_prefix L sh c ll p = Inr c' \<Longrightarrow> parse_state c' = parse_state c" for c c' ll p
    by (auto simp: add_reply_long_long_with_prefix_def reply_proto_input [OF L] dest: one split: if_splits)
  show "add_reply L c obj = Inr c' \<Longrightarrow> parse_state c' = parse_state c"
    "add_reply_long_long_with_prefix L sh c ll p = Inr c' \<Longrightarrow> parse_state c' = parse_state c" by (fact one num)+
  show "add_reply_bulk L sh c obj = Inr c' \<Longrightarrow> parse_state c' = parse_state c"
    by (auto simp: add_reply_bulk_def add_reply_bulk_len_def res_simps dest!: one num)
qed

lemma add_reply_text_input [input_kept]:
  assumes "reply_laws L"
  shows "parse_state (add_reply_error_length L c s) = parse_state c" "parse_state (add_reply_error L c s) = parse_state c"
    "parse_state (add_reply_error_format L c s) = parse_state c" "parse_state (add_reply_status_length L c s) = parse_state c"
    "parse_state (add_reply_status_format L c s) = parse_state c" "parse_state (add_reply_status L c s) = parse_state c"
    "parse_state (redis_module_use_reply_with_simple_string L c s) = parse_state c" "parse_state (redis_module_use_reply_with_null L c) = parse_state c"
    "parse_state (info_command L c) = parse_state c"
  using assms by (simp_all add: add_reply_error_length_def add_reply_error_def add_reply_error_format_def add_reply_status_length_def
    add_reply_status_format_def add_reply_status_def redis_module_use_reply_with_simple_string_def redis_module_use_reply_with_null_def
    info_command_def Let_def input_kept)

lemma deferred_input:
  "parse_state (trim_reply_unused_tail_space L c) = parse_state c" "parse_state (fst (add_reply_deferred_len L c)) = parse_state c"
  "parse_state (set_deferred_next L c ln s) = parse_state c"
  "set_deferred_reply L c node s = Inr c' \<Longrightarrow> parse_state c' = parse_state c"
  "set_deferred_array_len L c node len = Inr c' \<Longrightarrow> parse_state c' = parse_state c"
proof -
  show trim: "parse_state (trim_reply_unused_tail_space L c) = parse_state c"
    by (simp add: trim_reply_unused_tail_space_def Let_def input_kept split: option.splits)
  show "parse_state (fst (add_reply_deferred_len L c)) = parse_state c"
    using trim by (simp add: add_reply_deferred_len_def Let_def input_kept)
  have nxt: "parse_state (set_deferred_next L c ln s) = parse_state c" for c ln s
    by (simp add: set_deferred_next_def Let_def input_kept split: option.splits)
  show "parse_state (set_deferred_next L c ln s) = parse_state c" by (rule nxt)
  show reply: "set_deferred_reply L c node s = Inr c' \<Longrightarrow> parse_state c' = parse_state c" for node s
    by (auto simp: set_deferred_reply_def Let_def res_simps nxt input_kept split: option.splits if_splits)
  show "set_deferred_array_len L c node len = Inr c' \<Longrightarrow> parse_state c' = parse_state c"
    by (auto simp: set_deferred_array_len_def set_deferred_aggregate_len_def res_simps split: option.splits dest: reply)
qed

lemma status_lines_input:
  "reply_laws L \<Longrightarrow> parse_state (fold (\<lambda>line c. add_reply_status L c line) ls c) = parse_state c"
  by (induction ls arbitrary: c) (simp_all add: input_kept)

lemma add_reply_help_input:
  "reply_laws L \<Longrightarrow> add_reply_help L h c help = Inr c' \<Longrightarrow> parse_state c' = parse_state c"
  using deferred_input(2) [of L c]
  by (auto simp: add_reply_help_def Let_def input_kept status_lines_input split: object_ptr.split_asm prod.split_asm elim!: res_bind_InrE dest!: deferred_input(5))

lemma wrong_arity_input: "reply_laws L \<Longrightarrow> wrong_arity L c = Inr c' \<Longrightarrow> parse_state c' = parse_state c"
  by (auto simp: wrong_arity_def input_kept split: option.splits)

lemma string_commands_input:
  assumes "reply_laws (lib S)"
  shows "set_command S now srv c = Inr (srv', c', r) \<Longrightarrow> parse_state c' = parse_state c"
    "get_command S now srv c = Inr (srv', c', r) \<Longrightarrow> parse_state c' = parse_state c"
  using add_reply_input [OF assms]
  by (auto simp: set_command_def get_command_def input_kept assms redis_module_use_reply_with_wrong_type_error_def
    redis_module_use_reply_with_object_def split: if_split_asm option.split_asm elim!: res_bind_InrE)

lemma builtin_commands_input:
  assumes L: "reply_laws (lib S)"
  shows "quit_command (lib S) c = Inr c' \<Longrightarrow> parse_state c' = parse_state c"
    "ping_command (lib S) h c = Inr c' \<Longrightarrow> parse_state c' = parse_state c"
    "expire_command S now srv c = Inr (srv', c') \<Longrightarrow> parse_state c' = parse_state c"
    "module_command S srv c = Inr (srv', c') \<Longrightarrow> parse_state c' = parse_state c"
proof -
  note one = add_reply_input [OF L] wrong_arity_input [OF L]
  show "quit_command (lib S) c = Inr c' \<Longrightarrow> parse_state c' = parse_state c"
    by (auto simp: quit_command_def res_simps input_kept dest: one)
  show "ping_command (lib S) h c = Inr c' \<Longrightarrow> parse_state c' = parse_state c"
    by (auto simp: ping_command_def res_simps split: if_splits dest: one)
  show "expire_command S now srv c = Inr (srv', c') \<Longrightarrow> parse_state c' = parse_state c"
    by (auto simp: expire_command_def res_simps Let_def input_kept L split: if_splits option.splits prod.splits dest: one)
  have load: "module_load_command S srv c = Inr (srv', c') \<Longrightarrow> parse_state c' = parse_state c"
    by (auto simp: module_load_command_def input_kept L split: if_split_asm object_ptr.split_asm elim!: res_bind_InrE dest!: add_reply_input(1) [OF L])
  show "module_command S srv c = Inr (srv', c') \<Longrightarrow> parse_state c' = parse_state c"
    by (auto simp: module_command_def module_help_command_def module_unload_command_def module_list_command_def
      split: if_split_asm object_ptr.split_asm elim!: res_bind_InrE dest: load add_reply_help_input [OF L])
qed

lemma call_input:
  assumes L: "reply_laws (lib S)" and run: "call S now srv c = Inr (srv', c')"
  shows "parse_state c' = parse_state c"
proof -
  have module: "redis_module_command_dispatcher S now srv c = Inr (srv', c') \<Longrightarrow> parse_state c' = parse_state c"
    by (auto simp: redis_module_command_dispatcher_def call_module_func_def hello_test_redis_command_def res_simps input_kept L
      split: option.splits module_func.splits dest: string_commands_input [OF L])
  show ?thesis using run builtin_commands_input [OF L] module
    by (auto simp: call_def res_simps input_kept L split: option.splits command_proc.splits)
qed

text \<open>The query buffer and the position in it.\<close>

definition input_of :: "redis_client \<Rightarrow> string \<times> nat" where
  "input_of c = (buf c, pos c)"

lemma parse_state_input: "parse_state c' = parse_state c \<Longrightarrow> input_of c' = input_of c \<and> bulk_len c' = bulk_len c"
  by (simp add: parse_state_def input_of_def)

lemma input_of_updates [simp]:
  "input_of (c\<lparr>argc := n\<rparr>) = input_of c" "input_of (c\<lparr>argv := v\<rparr>) = input_of c" "input_of (c\<lparr>cmd := x\<rparr>) = input_of c"
  "input_of (c\<lparr>lastcmd := x\<rparr>) = input_of c" "input_of (c\<lparr>argv_len_sum := n\<rparr>) = input_of c" "input_of (c\<lparr>bulk_len := b\<rparr>) = input_of c"
  "input_of (c\<lparr>multi_bulk_len := b\<rparr>) = input_of c" "input_of (c\<lparr>req_type := b\<rparr>) = input_of c"
  by (simp_all add: input_of_def buf_def pos_def)

text \<open>After a command the query buffer is as before, and the length of the next argument is unknown again or as before.\<close>

lemma reset_input:
  "reset_redis_client L c h = Inr (c', h') \<Longrightarrow> input_of c' = input_of c \<and> bulk_len c' = -1"
  by (auto simp: reset_redis_client_def free_client_argv_def res_simps input_kept)

lemma process_command_input:
  assumes L: "reply_laws (lib S)" and run: "process_command_and_reset_client S now self srv c = Inr (srv', c', r)"
  shows "input_of c' = input_of c \<and> (bulk_len c' = -1 \<or> bulk_len c' = bulk_len c)"
proof -
  obtain srv1 c1 r1 where p: "process_command S now (srv\<lparr>current_client := Some self\<rparr>) c = Inr (srv1, c1, r1)"
    "if r1 = 0 then \<exists>h. command_processed (lib S) c1 (heap srv1) = Inr (c', h) else c' = c1"
    using run by (auto simp: process_command_and_reset_client_def res_simps Let_def split: if_splits prod.splits)
  have "input_of c1 = input_of c" "r1 \<noteq> 0 \<longrightarrow> bulk_len c1 = bulk_len c"
    using p(1) by (auto simp: process_command_def res_simps Let_def input_kept split: if_splits prod.splits dest!: call_input [OF L] parse_state_input)
  then show ?thesis using p(2) by (auto simp: command_processed_def dest!: reset_input split: if_splits)
qed

section \<open>Every turn reads something\<close>

lemma strchr_less: "strchr s c = Some n \<Longrightarrow> n < length s"
  by (induction s arbitrary: n) (auto split: if_splits)

text \<open>What a parser has read when it returns 0.\<close>

definition has_read :: "redis_client \<Rightarrow> redis_client \<Rightarrow> bool" where
  "has_read rc rc' \<longleftrightarrow> length (unread rc') < length (unread rc) \<and> length (buf rc') \<le> length (buf rc) \<and> -1 \<le> bulk_len rc'"

lemma bulk_header_stop: "bulk_header L pm rc = (rc', Some r) \<Longrightarrow> r = -1"
  by (auto simp: bulk_header_def Let_def split: if_splits option.splits)

lemma bulk_header_len:
  assumes "bulk_header L pm rc = (rc', None)" "-1 \<le> bulk_len rc"
  shows "length (unread rc') \<le> length (unread rc) \<and> length (buf rc') \<le> length (buf rc) \<and> 0 \<le> bulk_len rc'"
  using assms by (auto simp: bulk_header_def Let_def unread_def split: if_splits option.splits)

lemma bulk_argument_len:
  assumes "bulk_argument L rc h = Inr (Some (rc', h'))" "0 \<le> bulk_len rc"
  shows "has_read rc rc'"
  using assms
  by (auto simp: bulk_argument_def Let_def has_read_def unread_def argv_push_def split: if_split_asm argv_ptr.split_asm option.split_asm prod.split_asm
      elim!: res_bind_InrE)

lemma multibulk_loop_len:
  "multibulk_loop L pm n rc h = Inr (rc', h', 0) \<Longrightarrow> -1 \<le> bulk_len rc \<Longrightarrow> 0 < n \<Longrightarrow> has_read rc rc'"
proof (induction n arbitrary: rc h)
  case (Suc n)
  obtain rc1 where h1: "bulk_header L pm rc = (rc1, None)"
    using Suc.prems(1) bulk_header_stop [of L pm rc] by (auto split: prod.splits option.splits)
  then obtain rc2 h2 where a: "bulk_argument L rc1 h = Inr (Some (rc2, h2))" and l: "multibulk_loop L pm n rc2 h2 = Inr (rc', h', 0)"
    using Suc.prems(1) by (auto split: option.split_asm elim!: res_bind_InrE)
  note b = bulk_header_len [OF h1 Suc.prems(2)]
  have r: "has_read rc1 rc2" using bulk_argument_len [OF a] b by blast
  show ?case
  proof (cases "n = 0")
    case True
    then show ?thesis using l r b by (auto simp: has_read_def)
  next
    case False
    then have "has_read rc2 rc'" using Suc.IH [OF l] r by (simp add: has_read_def)
    then show ?thesis using r b by (auto simp: has_read_def)
  qed
qed simp

lemma process_multibulk_len:
  assumes "process_multibulk_buffer L pm rc h = Inr (rc', h', 0)" "-1 \<le> bulk_len rc"
  shows "has_read rc rc'"
proof (cases "multi_bulk_len rc = 0")
  case False
  then show ?thesis using assms
    by (auto simp: process_multibulk_buffer_def latte_assert_def split: if_split_asm elim!: res_bind_InrE intro!: multibulk_loop_len)
next
  case True
  then obtain rc1 r where hd: "multibulk_header L rc = Inr (rc1, r)"
    and go: "if r = None then 0 < multi_bulk_len rc1 \<and> multibulk_loop L pm (nat (multi_bulk_len rc1)) rc1 h = Inr (rc', h', 0) else rc' = rc1 \<and> r = Some 0"
    using assms(1) by (auto simp: process_multibulk_buffer_def latte_assert_def split: if_split_asm option.split_asm elim!: res_bind_InrE)
  have "r \<noteq> Some (-1)" using go by auto
  then have h1: "has_read rc rc1" using hd assms(2)
    by (auto simp: multibulk_header_def Let_def has_read_def unread_def argv_alloc_def split: if_split_asm option.split_asm argv_ptr.split_asm
        elim!: res_bind_InrE)
  show ?thesis
  proof (cases "r = None")
    case True
    then have "has_read rc1 rc'" using go h1 multibulk_loop_len [of L pm "nat (multi_bulk_len rc1)" rc1 h rc' h'] by (simp add: has_read_def)
    then show ?thesis using h1 by (auto simp: has_read_def)
  qed (use go h1 in auto)
qed

lemma push_args_input:
  "push_args L ss rc h = Inr (rc', h') \<Longrightarrow> input_of rc' = input_of rc \<and> bulk_len rc' = bulk_len rc"
  by (induction ss arbitrary: rc h)
    (auto simp: obj_alloc_def argv_push_def input_kept split: argv_ptr.split_asm if_split_asm elim!: res_bind_InrE)

lemma process_inline_len:
  assumes run: "process_inline_buffer L lf0 now rc h = Inr (rc', h', 0)"
    and p: "pos rc < length (buf rc)" "length (buf rc) < 2 ^ 62" "1 \<le> lf0" "lf0 < 2 ^ 31" "-1 \<le> bulk_len rc"
  shows "has_read rc rc'"
proof -
  obtain newline where nl: "strchr (drop (pos rc) (buf rc)) LF = Some newline"
    using run by (auto simp: process_inline_buffer_def split: option.splits)
  define cr where "cr \<longleftrightarrow> newline \<noteq> 0 \<and> byte_at (drop (pos rc) (buf rc)) (newline - 1) = CR"
  define q where "q = (if cr then newline - 1 else newline)"
  define lf where "lf = (if cr then lf0 + 1 else lf0)"
  define p' where "p' = nat ((int (pos rc) + int q + lf) mod 2 ^ 64)"
  have q: "pos rc + q < length (buf rc)" using strchr_less [OF nl] by (auto simp: q_def)
  have "lf < 2 ^ 32" "1 \<le> lf" using p(3,4) by (auto simp: lf_def)
  then have "(int (pos rc) + int q + lf) mod 2 ^ 64 = int (pos rc) + int q + lf" using q p(2) by (intro mod_pos_pos_trivial) auto
  then have p': "pos rc < p'" using \<open>1 \<le> lf\<close> by (simp add: p'_def)
  define ack where "ack = (if q = 0 \<and> get_client_type rc = CLIENT_TYPE_SLAVE then rc\<lparr>repl_ack_time := now\<rparr> else rc)"
  have ack: "pos ack = pos rc" "buf ack = buf rc" "bulk_len ack = bulk_len rc" by (auto simp: ack_def)
  obtain args rc1 where start: "push_args L args rc1 h = Inr (rc', h')" "buf rc1 = buf rc \<and> pos rc1 = p' \<and> bulk_len rc1 = bulk_len rc"
    using run unfolding process_inline_buffer_def nl option.case Let_def cr_def [symmetric] q_def [symmetric] lf_def [symmetric] ack_def [symmetric] ack p'_def [symmetric]
    by (auto simp: argv_alloc_def ack simp del: push_args.simps split: option.split_asm if_split_asm prod.split_asm argv_ptr.split_asm elim!: res_bind_InrE)
  from push_args_input [OF start(1)] have "input_of rc' = (buf rc, p') \<and> bulk_len rc' = bulk_len rc"
    using start(2) by (simp add: input_of_def)
  then show ?thesis using p p' by (auto simp: has_read_def input_of_def unread_def)
qed

lemma has_read_input:
  "has_read a b \<Longrightarrow> input_of a = input_of a' \<Longrightarrow> input_of b' = input_of b \<Longrightarrow> bulk_len b' = -1 \<or> bulk_len b' = bulk_len b \<Longrightarrow> has_read a' b'"
  by (auto simp: has_read_def input_of_def unread_def)

lemma input_turn_reads:
  assumes L: "reply_laws (lib S)" and run: "input_turn S now lf0 self srv rc = Inr (srv', rc', Next)"
    and p: "pos rc < length (buf rc)" "length (buf rc) < 2 ^ 62" "1 \<le> lf0" "lf0 < 2 ^ 31" "-1 \<le> bulk_len rc"
  shows "has_read rc rc'"
proof -
  obtain srv1 rc1 where req: "read_request S lf0 srv rc = Inr (srv1, rc1, 0)"
    and exec: "input_of rc' = input_of rc1 \<and> (bulk_len rc' = -1 \<or> bulk_len rc' = bulk_len rc1)"
    using run by (auto simp: input_turn_def split: if_split_asm elim!: res_bind_InrE dest!: reset_input process_command_input [OF L])
  define rc0 where "rc0 = (if req_type rc = 0
    then rc\<lparr>req_type := if byte_at (buf rc) (pos rc) = CHR ''*'' then PROTO_REQ_MULTIBULK else PROTO_REQ_INLINE\<rparr> else rc)"
  have rc0: "input_of rc0 = input_of rc" "bulk_len rc0 = bulk_len rc" by (simp_all add: rc0_def input_kept)
  then have b: "pos rc0 < length (buf rc0)" "length (buf rc0) < 2 ^ 62" "-1 \<le> bulk_len rc0" using p by (simp_all add: input_of_def)
  have "has_read rc0 rc1"
    using req b p(3,4) unfolding read_request_def rc0_def [symmetric] Let_def
    by (auto split: if_split_asm elim!: res_bind_InrE intro: process_inline_len process_multibulk_len)
  then show ?thesis using has_read_input rc0(1) exec by blast
qed

lemma input_loop_returns:
  assumes L: "reply_laws (lib S)" and lf: "\<forall>i. 1 \<le> lf i \<and> lf i < 2 ^ 31"
  shows "length (buf rc) < 2 ^ 62 \<Longrightarrow> -1 \<le> bulk_len rc \<Longrightarrow> length (unread rc) < n \<Longrightarrow> length (unread rc) < m \<Longrightarrow>
    redis_process_input_buffer S clock lf self n i srv rc = redis_process_input_buffer S clock lf self m i srv rc \<and>
    redis_process_input_buffer S clock lf self n i srv rc \<noteq> None"
proof (induction n arbitrary: m i srv rc)
  case (Suc n)
  then obtain m' where m: "m = Suc m'" by (cases m) auto
  show ?case
  proof (cases "length (buf rc) \<le> pos rc")
    case False
    then have step: "input_turn S (clock i) (lf i) self srv rc = Inr (srv', rc', Next) \<Longrightarrow> has_read rc rc'" for srv' rc'
      using input_turn_reads [OF L] lf Suc.prems by simp
    show ?thesis
    proof (cases "\<exists>srv' rc'. input_turn S (clock i) (lf i) self srv rc = Inr (srv', rc', Next)")
      case True
      then obtain srv' rc' where t: "input_turn S (clock i) (lf i) self srv rc = Inr (srv', rc', Next)" by blast
      have "length (buf rc') < 2 ^ 62" "-1 \<le> bulk_len rc'" "length (unread rc') < n" "length (unread rc') < m'"
        using step [OF t] Suc.prems m by (auto simp: has_read_def)
      from Suc.IH [OF this, of "Suc i" srv'] have IH: "redis_process_input_buffer S clock lf self n (Suc i) srv' rc' = redis_process_input_buffer S clock lf self m' (Suc i) srv' rc'"
        "redis_process_input_buffer S clock lf self m' (Suc i) srv' rc' \<noteq> None" by metis+
      then show ?thesis using t False m by (simp del: not_None_eq)
    qed (use False m in \<open>auto split: sum.splits turn.splits\<close>)
  qed (use m in simp)
qed simp

section \<open>An empty line, and an unknown command\<close>

text \<open>A client that is about to read an empty line.\<close>

definition at_empty_line :: "latte_c \<Rightarrow> redis_client \<Rightarrow> bool" where
  "at_empty_line L rc \<longleftrightarrow> hd (unread rc) = LF \<and> unread rc \<noteq> [] \<and> pos rc < 2 ^ 64 \<and> (req_type rc = 0 \<or> req_type rc = PROTO_REQ_INLINE) \<and>
     cl_flags (client rc) AND (CLIENT_CLOSE_AFTER_REPLY L OR CLIENT_CLOSE_ASAP L) = 0"

lemma empty_line_turn:
  assumes "sds_split_args (lib S) [] = Some []" "at_empty_line (lib S) rc"
  shows "\<exists>rc'. input_turn S now 0 self srv rc = Inr (srv, rc', Next) \<and> at_empty_line (lib S) rc'"
proof -
  have u: "drop (pos rc) (buf rc) = LF # tl (unread rc)" using assms(2) by (cases "unread rc") (auto simp: at_empty_line_def unread_def)
  then have "pos rc < length (buf rc)" by (metis drop_all list.distinct(1) not_less)
  then have c: "byte_at (buf rc) (pos rc) = LF" using u by (simp add: byte_at_def hd_drop_conv_nth [symmetric])
  define rc1 where "rc1 = (if req_type rc = 0 then rc\<lparr>req_type := PROTO_REQ_INLINE\<rparr> else rc)"
  define rc2 where "rc2 = (if get_client_type rc1 = CLIENT_TYPE_SLAVE then rc1\<lparr>repl_ack_time := unixtime srv\<rparr> else rc1)"
  define rc3 where "rc3 = (set_pos (pos rc) rc2)\<lparr>argc := 0\<rparr>"
  have rc1: "req_type rc1 = PROTO_REQ_INLINE" "pos rc1 = pos rc" "buf rc1 = buf rc"
    using assms(2) by (auto simp: at_empty_line_def buf_def pos_def rc1_def)
  have rc2: "pos rc2 = pos rc" using rc1(2) by (simp add: rc2_def)
  have "process_inline_buffer (lib S) 0 (unixtime srv) rc1 (heap srv) = Inr (rc3, heap srv, 0)"
    using u assms unfolding process_inline_buffer_def rc1(2,3) by (simp add: Let_def at_empty_line_def rc2_def [symmetric] rc2 rc3_def)
  moreover have "(if req_type rc = 0 then rc\<lparr>req_type := if byte_at (buf rc) (pos rc) = CHR ''*'' then PROTO_REQ_MULTIBULK else PROTO_REQ_INLINE\<rparr> else rc) = rc1"
    using c by (simp add: rc1_def)
  ultimately have req: "read_request S 0 srv rc = Inr (srv, rc3, 0)"
    using rc1(1) unfolding read_request_def Let_def by simp
  have rc3: "argc rc3 = 0" by (simp add: rc3_def)
  have "reset_redis_client (lib S) rc3 (heap srv) = Inr (rc3\<lparr>argc := 0, cmd := None, argv_len_sum := 0, req_type := 0, multi_bulk_len := 0, bulk_len := -1\<rparr>, heap srv)"
    by (simp add: reset_redis_client_def free_client_argv_def rc3)
  then have "input_turn S now 0 self srv rc =
      Inr (srv, rc3\<lparr>argc := 0, cmd := None, argv_len_sum := 0, req_type := 0, multi_bulk_len := 0, bulk_len := -1\<rparr>, Next)"
    using req rc3 assms(2) by (simp add: input_turn_def at_empty_line_def)
  moreover have "at_empty_line (lib S) (rc3\<lparr>argc := 0, cmd := None, argv_len_sum := 0, req_type := 0, multi_bulk_len := 0, bulk_len := -1\<rparr>)"
    using assms(2) by (auto simp: at_empty_line_def unread_def buf_def pos_def set_pos_def rc1_def rc2_def rc3_def)
  ultimately show ?thesis by blast
qed

text \<open>
  Reading a request in array form, from whatever point the earlier input led to: either the last byte has arrived and what
  follows stays unread, or the client waits for the rest.
\<close>

lemma read_request_progress:
  assumes L: "object_laws (lib S)" "number_laws (lib S)" and ok: "request_ok (proto_max_bulk_len srv) todo"
    and par: "parsing (lib S) bs (heap srv) todo rc (heap srv) P" and ne: "unread rc \<noteq> []"
    and t: "req_type rc = PROTO_REQ_MULTIBULK \<or> req_type rc = 0 \<and> idle rc" and bytes: "unread rc @ F = P @ R"
  shows "\<exists>rc' h' r. read_request S lf0 srv rc = Inr (srv\<lparr>heap := h'\<rparr>, rc', r) \<and>
    unparsed rc' = unparsed (rc\<lparr>req_type := PROTO_REQ_MULTIBULK\<rparr>) \<and>
    ((r = 0 \<and> midway (lib S) bs (heap srv) h' rc' todo 0 \<and> bulk_len rc' = -1 \<and> unread rc' @ F = R \<and> length (buf rc') \<le> length (buf rc)) \<or>
     (r = -1 \<and> length (unread rc) < length P \<and> (\<exists>P'. parsing (lib S) bs (heap srv) todo rc' h' P' \<and> unread rc' @ F = P' @ R)))"
proof -
  let ?rc = "rc\<lparr>req_type := PROTO_REQ_MULTIBULK\<rparr>"
  have same: "buf ?rc = buf rc" "pos ?rc = pos rc" by (simp_all add: buf_def pos_def)
  have star: "byte_at (buf rc) (pos rc) = CHR ''*''" if "req_type rc = 0"
  proof -
    have "idle rc" using t that by (simp add: PROTO_REQ_MULTIBULK_def)
    then have "P = request todo" using par by (auto simp: parsing_def midway_def idle_def)
    then have "hd (unread rc) = CHR ''*''" using bytes ne by (metis append_Cons append_is_Nil_conv hd_append2 list.sel(1) request_eq)
    moreover have "pos rc < length (buf rc)" using ne by (simp add: unread_def)
    ultimately show ?thesis by (simp add: unread_def byte_at_def hd_drop_conv_nth)
  qed
  have "parsing (lib S) bs (heap srv) todo ?rc (heap srv) P" using par same by (simp add: parsing_def idle_def midway_def length_known_def)
  moreover have "unread ?rc @ F = P @ R" using bytes same by (simp add: unread_def)
  ultimately obtain rc' h' r where p: "process_multibulk_buffer (lib S) (proto_max_bulk_len srv) ?rc (heap srv) = Inr (rc', h', r)"
    "unparsed rc' = unparsed ?rc"
    "(r = 0 \<and> midway (lib S) bs (heap srv) h' rc' todo 0 \<and> bulk_len rc' = -1 \<and> unread rc' @ F = R) \<or>
     (r = -1 \<and> length (unread ?rc) < length P \<and> (\<exists>P'. parsing (lib S) bs (heap srv) todo rc' h' P' \<and> unread rc' @ F = P' @ R))"
    using process_multibulk_progress [OF L ok] by blast
  have "(if req_type rc = 0 then rc\<lparr>req_type := if byte_at (buf rc) (pos rc) = CHR ''*'' then PROTO_REQ_MULTIBULK else PROTO_REQ_INLINE\<rparr> else rc) = ?rc"
    using t star by auto
  then have "read_request S lf0 srv rc = Inr (srv\<lparr>heap := h'\<rparr>, rc', r)"
    using p(1) unfolding read_request_def Let_def by (simp add: PROTO_REQ_INLINE_def PROTO_REQ_MULTIBULK_def)
  moreover have "unread ?rc = unread rc" using same by (simp add: unread_def)
  moreover have "length (buf rc') \<le> length (buf rc)" if "r = 0"
  proof -
    have "-1 \<le> bulk_len ?rc" using par by (auto simp: parsing_def idle_def length_known_def)
    then show ?thesis using process_multibulk_len [OF p(1) [unfolded that]] same by (simp add: has_read_def)
  qed
  ultimately show ?thesis using p(2,3) by auto
qed

text \<open>A line of words of which some bytes have arrived. The line end is found when the stack holds a 1 where the parser counts line feeds.\<close>

lemma read_line_progress:
  assumes L: "object_laws (lib S)" "sds_laws (lib S)" and ws: "ws \<noteq> []" "list_all plain_word ws" "length (unwords ws) < PROTO_INLINE_MAX_SIZE"
    and i: "idle rc" "req_type rc = 0 \<or> req_type rc = PROTO_REQ_INLINE" "flag rc AND CLIENT_MASTER = 0" "length (buf rc) < 2 ^ 62"
    and ne: "unread rc \<noteq> []" and bytes: "unread rc @ F = unwords ws @ crlf @ R"
  shows "(\<exists>rc' h' as. read_request S 1 srv rc = Inr (srv\<lparr>heap := h'\<rparr>, rc', 0) \<and> unparsed rc' = unparsed (rc\<lparr>req_type := PROTO_REQ_INLINE\<rparr>) \<and>
      args_of rc' as \<and> fresh_copies (lib S) (heap srv) h' as ws \<and> unread rc' @ F = R \<and> pos rc' \<le> length (buf rc') \<and> buf rc' = buf rc) \<or>
    (length R < length F \<and> read_request S 1 srv rc = Inr (srv, rc\<lparr>req_type := PROTO_REQ_INLINE\<rparr>, -1))"
proof -
  let ?rc = "rc\<lparr>req_type := PROTO_REQ_INLINE\<rparr>" and ?w = "unwords ws"
  have same: "buf ?rc = buf rc" "pos ?rc = pos rc" "unread ?rc = unread rc" by (simp_all add: buf_def pos_def unread_def)
  have chars: "c \<in> set ?w \<Longrightarrow> c \<noteq> LF \<and> c \<noteq> CHR ''*''" for c using set_unwords [OF ws(2)] by (fastforce simp: plain_char_def)
  have "?w \<noteq> []" by (rule unwords_nonempty [OF ws(1,2)])
  then have "hd (unread rc) \<in> set ?w" using bytes ne by (metis hd_append2 list.set_sel(1))
  then have "byte_at (buf rc) (pos rc) \<noteq> CHR ''*''" using chars ne by (auto simp: unread_def byte_at_def hd_drop_conv_nth)
  then have rc0: "(if req_type rc = 0 then rc\<lparr>req_type := if byte_at (buf rc) (pos rc) = CHR ''*'' then PROTO_REQ_MULTIBULK else PROTO_REQ_INLINE\<rparr> else rc) = ?rc"
    using i(2) by auto
  then have read: "read_request S 1 srv rc = res_bind (process_inline_buffer (lib S) 1 (unixtime srv) ?rc (heap srv)) (\<lambda>(rc, h, r). Inr (srv\<lparr>heap := h\<rparr>, rc, r))"
    unfolding read_request_def Let_def rc0 by simp
  have p: "pos ?rc \<le> length (buf ?rc)" "length (buf ?rc) < 2 ^ 62" "flag ?rc AND CLIENT_MASTER = 0" "argv ?rc \<noteq> Argv_garbage" using i same by (simp_all add: idle_def)
  show ?thesis
  proof (cases "length F \<le> length R")
    case True
    have len: "length (unread rc) + length F = length ?w + 2 + length R" using arg_cong [OF bytes, of length] by simp
    define rest where "rest = drop (length ?w + 2) (unread rc)"
    have "take (length ?w + 2) (unread rc @ F) = ?w @ crlf" unfolding bytes by simp
    then have "take (length ?w + 2) (unread rc) = ?w @ crlf" using len True by simp
    then have u: "unread rc = ?w @ crlf @ rest" unfolding rest_def by (metis append.assoc append_take_drop_id)
    then have u': "unread ?rc = ?w @ crlf @ rest" using same by simp
    from inline_words [OF L ws(1,2) p(1,2) u' p(3), of 1 "unixtime srv" "heap srv"] p(4) obtain rc' h' as where
      r: "process_inline_buffer (lib S) 1 (unixtime srv) ?rc (heap srv) = Inr (rc', h', 0)" "args_of rc' as" "fresh_copies (lib S) (heap srv) h' as ws"
      "buf rc' = buf ?rc" "pos rc' = pos ?rc + length ?w + nat 1 + 1" "unparsed rc' = unparsed ?rc" by auto
    have pos: "pos rc' = pos rc + (length ?w + 2)" using r(5) same by simp
    have "unread rc' = drop (length ?w + 2) (unread rc)" unfolding unread_def pos r(4) same by (simp add: add.commute)
    then have "unread rc' @ F = R" using bytes unfolding u by simp
    moreover have "pos rc' \<le> length (buf rc')" using arg_cong [OF u, of length] p(1) same unfolding pos r(4) by (simp add: unread_def)
    ultimately show ?thesis using r same read by auto
  next
    case False
    then have len: "length (unread rc) < length ?w + 2" using arg_cong [OF bytes, of length] by simp
    have pre: "unread rc = take (length (unread rc)) (?w @ crlf @ R)" using bytes by (metis append_eq_conv_conj)
    have "set (unread rc) \<subseteq> set (?w @ [CR])"
    proof -
      have "unread rc = take (length (unread rc)) (?w @ [CR])" using pre len by (simp add: take_Cons' split: if_splits)
      then show ?thesis by (metis set_take_subset)
    qed
    then have "LF \<notin> set (unread ?rc)" using chars same by auto
    moreover have "length (unread ?rc) \<le> PROTO_INLINE_MAX_SIZE" using len ws(3) same by simp
    ultimately show ?thesis using inline_waits [of ?rc] read False by simp
  qed
qed

text \<open>A complete request of a client at rest: the arguments are new objects.\<close>

lemma read_request_complete:
  assumes L: "object_laws (lib S)" "number_laws (lib S)" and ok: "request_ok (proto_max_bulk_len srv) ws" and i: "idle rc"
    and t: "req_type rc = 0 \<or> req_type rc = PROTO_REQ_MULTIBULK" and bytes: "unread rc = request ws @ rest"
  shows "\<exists>rc' h' as. read_request S lf0 srv rc = Inr (srv\<lparr>heap := h'\<rparr>, rc', 0) \<and> args_of rc' as \<and> fresh_copies (lib S) (heap srv) h' as ws \<and>
    multi_bulk_len rc' = 0 \<and> bulk_len rc' = -1 \<and> unread rc' = rest \<and> pos rc' \<le> length (buf rc') \<and> req_type rc' = PROTO_REQ_MULTIBULK \<and>
    unparsed rc' = unparsed (rc\<lparr>req_type := PROTO_REQ_MULTIBULK\<rparr>)"
proof -
  have par: "parsing (lib S) [] (heap srv) ws rc (heap srv) (request ws)" using i by (simp add: parsing_def)
  have ne: "unread rc \<noteq> []" and b: "unread rc @ [] = request ws @ rest" using bytes by (simp_all add: request_eq)
  obtain rc' h' where r: "read_request S lf0 srv rc = Inr (srv\<lparr>heap := h'\<rparr>, rc', 0)" "unparsed rc' = unparsed (rc\<lparr>req_type := PROTO_REQ_MULTIBULK\<rparr>)"
    "midway (lib S) [] (heap srv) h' rc' ws 0" "bulk_len rc' = -1" "unread rc' = rest"
    using read_request_progress [OF L ok par ne _ b, of lf0] t i bytes by auto
  then obtain as where "args_of rc' ([] @ as)" "fresh_copies (lib S) (heap srv) h' as ws" using midway_args by blast
  then show ?thesis using r unparsed_fields(2) [OF r(2)] by (auto simp: midway_def)
qed

subsection \<open>Any bytes at all\<close>

text \<open>
  A client between two calls of the loop while a request is being read: at rest or waiting for the end of a line, or within an array. An array whose header is not
  complete still begins with its asterisk.
\<close>

definition reading :: "latte_c \<Rightarrow> obj_heap \<Rightarrow> redis_client \<Rightarrow> obj_heap \<Rightarrow> bool" where
  "reading L h0 rc h \<longleftrightarrow>
     (if req_type rc = PROTO_REQ_MULTIBULK then parser_ok L h0 rc h \<and> (multi_bulk_len rc = 0 \<longrightarrow> take 1 (unread rc) = ''*'')
      else (req_type rc = 0 \<or> req_type rc = PROTO_REQ_INLINE) \<and> idle rc \<and> h = h0)"

lemma reading_pos: "reading L h0 rc h \<Longrightarrow> pos rc \<le> length (buf rc)"
  by (auto simp: reading_def parser_ok_def idle_def midway_def split: if_splits)

lemma reading_receive:
  assumes "reading L h0 rc h"
  shows "reading L h0 (set_buf (buf rc @ c) rc) h"
proof -
  let ?rc = "set_buf (buf rc @ c) rc"
  have u: "unread ?rc = unread rc @ c" using reading_pos [OF assms] by (simp add: unread_def)
  have t: "req_type ?rc = req_type rc" "multi_bulk_len ?rc = multi_bulk_len rc" by (simp_all add: set_buf_def)
  have star: "take 1 (unread rc) = ''*'' \<Longrightarrow> take 1 (unread ?rc) = ''*''" unfolding u by (cases "unread rc") auto
  have i: "idle rc \<Longrightarrow> idle ?rc" and m: "midway L [] h0 h rc ts n \<Longrightarrow> midway L [] h0 h ?rc ts n" for ts n
    by (auto simp: idle_def midway_def)
  have p: "parser_ok L h0 rc h \<Longrightarrow> parser_ok L h0 ?rc h" unfolding parser_ok_def using i m by simp blast
  show ?thesis using assms star i p unfolding reading_def t by argo
qed

lemma first_byte: "pos rc < length (buf rc) \<Longrightarrow> take 1 (unread rc) = [byte_at (buf rc) (pos rc)]"
  by (simp add: unread_def byte_at_def take_Suc_conv_app_nth take_Suc hd_drop_conv_nth)

lemma read_request_safe:
  assumes L: "object_laws (lib S)" "reply_laws (lib S)" "sds_laws (lib S)" and rc: "reading (lib S) h0 rc (heap srv)" "pos rc < length (buf rc)"
  shows "\<exists>rc' h' r. read_request S lf0 srv rc = Inr (srv\<lparr>heap := h'\<rparr>, rc', r) \<and>
    (r = -1 \<and> reading (lib S) h0 rc' h' \<or> r = 0 \<and> (\<exists>as ts. args_of rc' as \<and> fresh_copies (lib S) h0 h' as ts))"
proof -
  define rc0 where "rc0 = (if req_type rc = 0
    then rc\<lparr>req_type := if byte_at (buf rc) (pos rc) = CHR ''*'' then PROTO_REQ_MULTIBULK else PROTO_REQ_INLINE\<rparr> else rc)"
  have same: "buf rc0 = buf rc" "pos rc0 = pos rc" "argc rc0 = argc rc" "argv rc0 = argv rc" "multi_bulk_len rc0 = multi_bulk_len rc" "bulk_len rc0 = bulk_len rc"
    by (simp_all add: rc0_def buf_def pos_def)
  have idle0: "idle rc0 = idle rc" by (simp add: idle_def same)
  have one: "take 1 (unread rc) = [byte_at (buf rc) (pos rc)]" by (rule first_byte [OF rc(2)])
  note run = read_request_def [of S lf0 srv rc, unfolded Let_def rc0_def [symmetric]]
  show ?thesis
  proof (cases "req_type rc0 = PROTO_REQ_MULTIBULK")
    case True
    have "parser_ok (lib S) h0 rc0 (heap srv) \<and> (multi_bulk_len rc0 = 0 \<longrightarrow> byte_at (buf rc0) (pos rc0) = CHR ''*'')"
    proof (cases "req_type rc = 0")
      case zero: True
      then have "idle rc" "heap srv = h0" "byte_at (buf rc) (pos rc) = CHR ''*''"
        using rc(1) True by (auto simp: reading_def rc0_def PROTO_REQ_MULTIBULK_def PROTO_REQ_INLINE_def split: if_splits)
      then show ?thesis using same idle0 by (simp add: parser_ok_def idle_def)
    next
      case False
      then show ?thesis using rc(1) True one by (auto simp: reading_def rc0_def)
    qed
    then obtain rc' h' r where p: "process_multibulk_buffer (lib S) (proto_max_bulk_len srv) rc0 (heap srv) = Inr (rc', h', r)" "same_session rc0 rc'"
      "r = -1 \<and> parser_ok (lib S) h0 rc' h' \<and> (multi_bulk_len rc' = 0 \<longrightarrow> multi_bulk_len rc0 = 0 \<and> unread rc' = unread rc0) \<or>
       r = 0 \<and> (idle rc' \<and> h' = h0 \<or> (\<exists>ts. midway (lib S) [] h0 h' rc' ts 0))"
      and star: "multi_bulk_len rc0 = 0 \<longrightarrow> byte_at (buf rc0) (pos rc0) = CHR ''*''"
      using process_multibulk_safe [OF L, of h0 rc0 "heap srv" "proto_max_bulk_len srv"] by blast
    have "read_request S lf0 srv rc = Inr (srv\<lparr>heap := h'\<rparr>, rc', r)" using True p(1) unfolding run by (simp add: PROTO_REQ_MULTIBULK_def PROTO_REQ_INLINE_def)
    moreover have "req_type rc' = PROTO_REQ_MULTIBULK" using p(2) True by (simp add: same_session_def)
    moreover have "reading (lib S) h0 rc' h'" if "r = -1"
      using p(3) that \<open>req_type rc' = _\<close> star one same by (auto simp: reading_def unread_def)
    moreover have "\<exists>as ts. args_of rc' as \<and> fresh_copies (lib S) h0 h' as ts" if r0: "r = 0"
    proof (cases "idle rc' \<and> h' = h0")
      case True
      then show ?thesis by (intro exI [of _ "[]"]) (simp add: idle_def args_of_def)
    next
      case False
      then obtain ts where "midway (lib S) [] h0 h' rc' ts 0" using p(3) r0 by auto
      then obtain as where "args_of rc' ([] @ as)" "fresh_copies (lib S) h0 h' as ts" by (rule midway_args)
      then show ?thesis by auto
    qed
    ultimately show ?thesis using p(3) by blast
  next
    case False
    then have t: "req_type rc0 = PROTO_REQ_INLINE" "idle rc0" "heap srv = h0"
      using rc(1) idle0 by (auto simp: reading_def rc0_def PROTO_REQ_MULTIBULK_def PROTO_REQ_INLINE_def split: if_splits)
    obtain rc' h' r where p: "process_inline_buffer (lib S) lf0 (unixtime srv) rc0 h0 = Inr (rc', h', r)" "same_session rc0 rc'"
      "r = -1 \<and> idle rc' \<and> h' = h0 \<or> r = 0 \<and> (\<exists>as ts. args_of rc' as \<and> fresh_copies (lib S) h0 h' as ts)"
      using inline_safe [OF L(1,2) t(2), of lf0 "unixtime srv" h0] by blast
    have "read_request S lf0 srv rc = Inr (srv\<lparr>heap := h'\<rparr>, rc', r)" using t p(1) unfolding run by simp
    moreover have "idle rc' \<and> h' = h0 \<Longrightarrow> reading (lib S) h0 rc' h'"
      using p(2) t(1) by (simp add: reading_def same_session_def PROTO_REQ_MULTIBULK_def PROTO_REQ_INLINE_def)
    ultimately show ?thesis using p(3) by blast
  qed
qed

text \<open>Bytes arrive in pieces, and after each piece the loop reads on, until a request is complete; the last component is the pieces that are left then.\<close>

fun read_chunks :: "sys \<Rightarrow> (nat \<Rightarrow> int) \<Rightarrow> nat \<Rightarrow> string list \<Rightarrow> redis_server \<Rightarrow> redis_client \<Rightarrow> (redis_server \<times> redis_client \<times> int \<times> string list) res" where
  "read_chunks S lf i [] srv rc = Inr (srv, rc, -1, [])"
| "read_chunks S lf i (c # cs) srv rc =
     (let rc = set_buf (buf rc @ c) rc in
      if length (buf rc) \<le> pos rc then read_chunks S lf (Suc i) cs srv rc
      else res_bind (read_request S (lf i) srv rc) (\<lambda>(srv, rc, r).
        if r = 0 then Inr (srv, rc, 0, cs) else read_chunks S lf (Suc i) cs srv rc))"

lemma read_chunks_safe:
  assumes L: "object_laws (lib S)" "reply_laws (lib S)" "sds_laws (lib S)"
  shows "reading (lib S) h0 rc (heap srv) \<Longrightarrow> \<exists>srv' rc' r left. read_chunks S lf i cs srv rc = Inr (srv', rc', r, left) \<and>
    (r = -1 \<and> reading (lib S) h0 rc' (heap srv') \<or> r = 0 \<and> (\<exists>as ts. args_of rc' as \<and> fresh_copies (lib S) h0 (heap srv') as ts))"
proof (induction cs arbitrary: i srv rc)
  case (Cons c cs)
  let ?rc = "set_buf (buf rc @ c) rc"
  note r = reading_receive [OF Cons.prems, of c]
  show ?case
  proof (cases "length (buf ?rc) \<le> pos ?rc")
    case True
    then show ?thesis using Cons.IH [OF r, of "Suc i"] by simp
  next
    case False
    then have "pos ?rc < length (buf ?rc)" by simp
    from read_request_safe [OF L r this, of "lf i"] obtain rc' h' ret where p: "read_request S (lf i) srv ?rc = Inr (srv\<lparr>heap := h'\<rparr>, rc', ret)"
      "ret = -1 \<and> reading (lib S) h0 rc' h' \<or> ret = 0 \<and> (\<exists>as ts. args_of rc' as \<and> fresh_copies (lib S) h0 h' as ts)"
      by blast
    from p(2) show ?thesis
    proof (elim disjE conjE)
      assume ret: "ret = -1" "reading (lib S) h0 rc' h'"
      then show ?thesis using Cons.IH [of rc' "srv\<lparr>heap := h'\<rparr>" "Suc i"] p(1) False by (simp add: Let_def)
    qed (use p(1) False in \<open>simp add: Let_def\<close>)
  qed
qed (auto intro: exI [of _ "[]"])

lemma unknown_command_stays:
  assumes L: "object_laws (lib S)" and args: "args_of rc as" and copies: "fresh_copies (lib S) h0 (heap srv) as ws" "ws \<noteq> []"
    and none: "command_manager_lookup (command_dict S) (cmd_manager srv) (hd ws) = None"
  shows "process_command_and_reset_client S now self srv rc = Inr (srv, rc\<lparr>cmd := None, lastcmd := None\<rparr>, 0)"
proof -
  have l: "as \<noteq> []" "length as = length ws" using copies by (auto simp: fresh_copies_def)
  then obtain obj where "cells (heap srv) (as ! 0) = Some obj" "string_obj (lib S) obj (ws ! 0)"
    using copies unfolding fresh_copies_def by (metis length_greater_0_conv)
  then have "arg_bytes (lib S) (heap srv) rc 0 = Inr (hd ws)"
    using arg_bytes_spec [OF L args, of 0] l(1) copies(2) by (simp add: hd_conv_nth)
  then show ?thesis using none
    by (simp add: process_command_and_reset_client_def process_command_def arg_bytes_def)
qed

section \<open>Properties\<close>

text \<open>
  C5. Whatever bytes a client sends and however they are cut, reading a request neither fails an assertion nor touches the argument vector outside its cells: from
  a client at rest the loop's choice of a parser and the two parsers either wait for more in a state from which reading can go on, or they return 0 with an argument
  vector that is complete, one new object per argument. The assertion that an array begins with an asterisk holds because the choice of the parser is kept until the header has been read.
\<close>

theorem reading_never_aborts:
  assumes "object_laws (lib S)" "reply_laws (lib S)" "sds_laws (lib S)" "idle rc" "req_type rc = 0"
  shows "\<exists>srv' rc' r left. read_chunks S lf i chunks srv rc = Inr (srv', rc', r, left) \<and>
    (r = -1 \<and> reading (lib S) (heap srv) rc' (heap srv') \<or>
     r = 0 \<and> (\<exists>as ts. args_of rc' as \<and> fresh_copies (lib S) (heap srv) (heap srv') as ts))"
  by (rule read_chunks_safe [OF assms(1-3)]) (use assms(4,5) in \<open>simp add: reading_def PROTO_REQ_MULTIBULK_def\<close>)

text \<open>
  C7. Serving the query buffer ends: when the bytes that the inline parser finds in \<open>linefeed_chars\<close> are positive, every
  turn of the loop that goes on to another has read at least one byte, whatever the command does. So
  fuel above the number of unread bytes gives a result, and always the same one.
\<close>

theorem input_loop_terminates:
  assumes "reply_laws (lib S)" "\<forall>i. 1 \<le> lf i \<and> lf i < 2 ^ 31" "length (buf rc) < 2 ^ 62" "-1 \<le> bulk_len rc"
  shows "\<exists>r. \<forall>fuel > length (unread rc). redis_process_input_buffer S clock lf self fuel i srv rc = Some r"
proof -
  obtain n where n: "length (unread rc) < n" by blast
  obtain r where "redis_process_input_buffer S clock lf self n i srv rc = Some r"
    using input_loop_returns [OF assms n n] by blast
  then show ?thesis using input_loop_returns [OF assms n] by metis
qed

text \<open>
  C34. With a zero in the uninitialised \<open>linefeed_chars\<close>, an empty line makes the server loop for ever:
  the turn reads nothing, and no amount of fuel gives a result.
\<close>

theorem empty_line_hangs:
  assumes "sds_split_args (lib S) [] = Some []" "at_empty_line (lib S) rc"
  shows "redis_process_input_buffer S clock (\<lambda>_. 0) self fuel i srv rc = None"
  using assms(2)
proof (induction fuel arbitrary: i rc)
  case (Suc fuel)
  obtain rc' where "input_turn S (clock i) 0 self srv rc = Inr (srv, rc', Next)" "at_empty_line (lib S) rc'"
    using empty_line_turn [OF assms(1) Suc.prems] by blast
  moreover have "\<not> length (buf rc) \<le> pos rc" using Suc.prems by (auto simp: at_empty_line_def unread_def)
  ultimately show ?case using Suc.IH by simp
qed simp


section \<open>Witnesses\<close>

definition visitor :: "string \<Rightarrow> redis_client" where
  "visitor b = (reader_ex b)\<lparr>req_type := 0\<rparr>"

lemma visitor_simps [simp]:
  "buf (visitor b) = b" "pos (visitor b) = 0" "unread (visitor b) = b" "idle (visitor b)" "flag (visitor b) = 0" "req_type (visitor b) = 0"
  "cl_flags (client (visitor b)) = 0" "multi_bulk_len (visitor b) = 0" "bulk_len (visitor b) = -1" "dbid (visitor b) = 0"
  by (simp_all add: visitor_def reader_ex_def unread_def idle_def client_ex_def pos_def buf_def set_buf_def)

theorem reading_never_aborts_witness:
  "\<exists>srv' rc' r left. read_chunks sys_ref (\<lambda>_. 5) 0 [''*7'' @ [CR], LF # ''$-5'' @ crlf, ''x''] (server_w ''k'') (visitor []) = Inr (srv', rc', r, left)"
  using reading_never_aborts [OF _ _ _ visitor_simps(4,6), of sys_ref "\<lambda>_. 5" 0 "[''*7'' @ [CR], LF # ''$-5'' @ crlf, ''x'']" "server_w ''k''" "[]"]
    object_laws_ref reply_laws_ref sds_laws_ref by auto

theorem input_loop_terminates_witness:
  "\<exists>r. \<forall>fuel > 6. redis_process_input_buffer sys_ref (\<lambda>_. 0) (\<lambda>_. 1) 0 fuel 0 (server_w ''k'') (visitor (''PING'' @ crlf)) = Some r"
proof -
  have l: "length (unread (visitor (''PING'' @ crlf))) = 6" by simp
  show ?thesis by (rule input_loop_terminates [of sys_ref "\<lambda>_. 1" "visitor (''PING'' @ crlf)", unfolded l]) (simp_all add: reply_laws_ref)
qed

theorem empty_line_hangs_witness:
  "redis_process_input_buffer sys_ref (\<lambda>_. 0) (\<lambda>_. 0) 0 1000 0 (server_w ''k'') (visitor [LF]) = None"
  by (rule empty_line_hangs) (simp_all add: at_empty_line_def latte_c_ref_def)


end
