(* ===== verification/Service.thy ===== *)
theory Service
  imports Input_Loop
begin

text \<open>
  What the server promises for one request: the commands as operations on a finite map from keys to a value and a deadline, and the proof that
  a command, once its arguments are objects of the client, does what the specification says and leaves the objects of everybody else alone.
\<close>

section \<open>The specification\<close>

type_synonym keyspace = "string \<rightharpoonup> string \<times> int option"

text \<open>A key that is looked up after its deadline is removed first.\<close>

definition purge :: "int \<Rightarrow> string \<Rightarrow> keyspace \<Rightarrow> keyspace" where
  "purge now k m = (case m k of Some (_, Some t) \<Rightarrow> if t \<le> now then m(k := None) else m | _ \<Rightarrow> m)"

text \<open>SET keeps the deadline of a live key.\<close>

definition spec_set :: "int \<Rightarrow> string \<Rightarrow> string \<Rightarrow> keyspace \<Rightarrow> keyspace \<times> string" where
  "spec_set now k v m = ((purge now k m)(k \<mapsto> (v, Option.bind (purge now k m k) snd)), resp_encode (Simple ''OK''))"

definition spec_get :: "int \<Rightarrow> string \<Rightarrow> keyspace \<Rightarrow> keyspace \<times> string" where
  "spec_get now k m = (purge now k m, case purge now k m k of None \<Rightarrow> ''*-1'' @ crlf | Some (v, _) \<Rightarrow> resp_encode (Bulk v))"

text \<open>EXPIRE sets a deadline once, and does not look whether one has passed.\<close>

definition spec_expire :: "latte_c \<Rightarrow> int \<Rightarrow> string \<Rightarrow> string \<Rightarrow> keyspace \<Rightarrow> keyspace \<times> string" where
  "spec_expire L now k s m =
     (case string2ll L s of
        None \<Rightarrow> (m, resp_encode (Err ''ERR ERR value is not an integer or out of range''))
      | Some n \<Rightarrow>
          if n < 0 then (m, resp_encode (Err ''ERR ERR value is not an integer or out of range''))
          else case m k of
            None \<Rightarrow> (m, resp_encode (Integer 0))
          | Some (v, None) \<Rightarrow> (m(k \<mapsto> (v, Some (wrap64 (now + wrap64 (n * 1000))))), resp_encode (Integer 1))
          | Some (v, Some t) \<Rightarrow> (m, resp_encode (Err ''ERR ERR could not set expire'')))"

text \<open>The texts for a wrong number of arguments. The module sends its text as a status.\<close>

definition arity_error :: "string \<Rightarrow> string" where
  "arity_error name = resp_encode (Err (''ERR wrong number of arguments for '' @ [CHR 0x27] @ name @ [CHR 0x27] @ '' command''))"

definition arity_status :: "string \<Rightarrow> string" where
  "arity_status name = resp_encode (Simple (''ERR wrong number of arguments for '' @ [CHR 0x27] @ name @ [CHR 0x27] @ '' command''))"

text \<open>
  A command by its name in lower case. There is no promise for a key with a NUL byte, for MODULE HELP and MODULE LOAD, for MODULE alone and for
  names that are not in the table. MODULE with any other sub-command is silent.
\<close>

definition spec_command :: "latte_c \<Rightarrow> int \<Rightarrow> string \<Rightarrow> string list \<Rightarrow> keyspace \<Rightarrow> (keyspace \<times> string) option" where
  "spec_command L now name args m =
     (if name = ''ping'' then
        Some (m, case args of [] \<Rightarrow> resp_encode (Simple ''PONG'') | [x] \<Rightarrow> resp_encode (Bulk x) | _ \<Rightarrow> arity_error name)
      else if name = ''get'' then (case args of [k] \<Rightarrow> Some (spec_get now k m) | _ \<Rightarrow> Some (m, arity_status name))
      else if name = ''set'' then
        (case args of [k, v] \<Rightarrow> if NUL \<in> set k then None else Some (spec_set now k v m) | _ \<Rightarrow> Some (m, arity_status name))
      else if name = ''expire'' then (case args of [k, s] \<Rightarrow> Some (spec_expire L now k s m) | _ \<Rightarrow> Some (m, arity_error name))
      else if name = ''info'' then Some (m, ''Not implemented'' @ [NUL])
      else if name = ''quit'' then Some (m, resp_encode (Simple ''OK''))
      else if name = ''module'' then
        (case args of
           [] \<Rightarrow> None
         | x # xs \<Rightarrow> if xs = [] \<and> strcase_eq x ''help'' \<or> xs \<noteq> [] \<and> strcase_eq x ''load'' then None else Some (m, []))
      else None)"

definition spec_request :: "latte_c \<Rightarrow> int \<Rightarrow> string list \<Rightarrow> keyspace \<Rightarrow> (keyspace \<times> string) option" where
  "spec_request L now ws m = (case ws of [] \<Rightarrow> None | w # args \<Rightarrow> spec_command L now (map to_lower w) args m)"

text \<open>QUIT is the last request of a client: what follows it is not read.\<close>

definition quits :: "string list \<Rightarrow> bool" where
  "quits ws \<longleftrightarrow> ws \<noteq> [] \<and> map to_lower (hd ws) = ''quit''"

fun spec_session :: "latte_c \<Rightarrow> (nat \<Rightarrow> int) \<Rightarrow> nat \<Rightarrow> string list list \<Rightarrow> keyspace \<Rightarrow> (keyspace \<times> string) option" where
  "spec_session L clock i [] m = Some (m, [])"
| "spec_session L clock i (ws # wss) m =
     (case spec_request L (clock i) ws m of
        None \<Rightarrow> None
      | Some (m, r) \<Rightarrow>
          if quits ws then Some (m, r) else map_option (\<lambda>(m, rs). (m, r @ rs)) (spec_session L clock (Suc i) wss m))"

text \<open>The last request of a stream that is served.\<close>

fun last_served :: "string list list \<Rightarrow> string list" where
  "last_served [] = []"
| "last_served (ws # wss) = (if quits ws \<or> wss = [] then ws else last_served wss)"

section \<open>The keyspace of a server\<close>

definition contents :: "redis_server \<Rightarrow> nat \<Rightarrow> keyspace" where
  "contents srv i k =
     Option.bind (db_vals (dbs srv ! i) k) (\<lambda>a. map_option (\<lambda>s. (s, db_ttl (dbs srv ! i) k)) (text_at (heap srv) a))"

lemma contents_live:
  "store srv i now k = map_option fst (purge now k (contents srv i) k)"
proof (cases "db_vals (dbs srv ! i) k")
  case (Some a)
  then show ?thesis by (cases "text_at (heap srv) a"; cases "db_ttl (dbs srv ! i) k") (simp_all add: store_def live_def purge_def contents_def)
qed (simp add: store_def live_def purge_def contents_def split: option.split)

lemma contents_dom: "srv_inv S srv i \<Longrightarrow> contents srv i k = None \<longleftrightarrow> db_vals (dbs srv ! i) k = None"
  using srv_invD(9) [of S srv i] unfolding strings_only_def contents_def
  by (cases "db_vals (dbs srv ! i) k") (fastforce simp: text_at_def string_obj_def)+

text \<open>Only the objects the database refers to matter.\<close>

lemma srv_inv_heap:
  assumes inv: "srv_inv S srv i" and wf: "heap_wf h'" and same: "\<forall>a\<in>ran (db_vals (dbs srv ! i)). cells h' a = cells (heap srv) a"
  shows "srv_inv S (srv\<lparr>heap := h'\<rparr>) i" "contents (srv\<lparr>heap := h'\<rparr>) i = contents srv i"
proof -
  note D = srv_invD [OF inv]
  have same': "db_vals (dbs srv ! i) k = Some a \<Longrightarrow> cells h' a = cells (heap srv) a" for k a using same by (auto simp: ran_def)
  then have "db_owns (dbs srv ! i) h'" "strings_only (lib S) (dbs srv ! i) h'"
    using D(8,9) unfolding db_owns_def strings_only_def by simp_all
  then show "srv_inv S (srv\<lparr>heap := h'\<rparr>) i" using inv wf by (simp add: srv_inv_def keyspace_inv_def)
  show "contents (srv\<lparr>heap := h'\<rparr>) i = contents srv i"
  proof
    fix k show "contents (srv\<lparr>heap := h'\<rparr>) i k = contents srv i k"
      using same' [of k] by (cases "db_vals (dbs srv ! i) k") (simp_all add: contents_def text_at_def)
  qed
qed

text \<open>The arguments of a request, each an object that only the client refers to.\<close>

definition request_args :: "latte_c \<Rightarrow> redis_db \<Rightarrow> obj_heap \<Rightarrow> nat list \<Rightarrow> string list \<Rightarrow> bool" where
  "request_args L db h as ws \<longleftrightarrow> distinct as \<and> list_all2 (arg_at L db h) as ws"

lemma fresh_request:
  assumes inv: "srv_inv S srv i" and f: "fresh_copies (lib S) (heap srv) h1 as ws" and len: "list_all (\<lambda>w. int (length w) \<le> llong_max) ws"
  shows "srv_inv S (srv\<lparr>heap := h1\<rparr>) i" "contents (srv\<lparr>heap := h1\<rparr>) i = contents srv i"
    "request_args (lib S) (dbs srv ! i) h1 as ws"
proof -
  note D = srv_invD [OF inv] and F = fresh_copiesD [OF f]
  have old: "a \<notin> set as" if "a \<in> ran (db_vals (dbs srv ! i))" for a
  proof -
    have "cells (heap srv) a \<noteq> None" using that D(8) unfolding db_owns_def ran_def by fastforce
    then have "a < next_addr (heap srv)" using D(7) by (auto simp: heap_wf_def)
    then show ?thesis using F(4) by (meson not_less)
  qed
  have wf: "heap_wf h1" using f D(7) unfolding heap_wf_def fresh_copies_def
    by (metis atLeastLessThan_iff set_upt trans_less_add1)
  show "srv_inv S (srv\<lparr>heap := h1\<rparr>) i" "contents (srv\<lparr>heap := h1\<rparr>) i = contents srv i"
    using srv_inv_heap [OF inv wf] F(5) old by simp_all
  have "arg_at (lib S) (dbs srv ! i) h1 (as ! j) (ws ! j)" if "j < length ws" for j
    using that f len old [of "as ! j"] F(2) unfolding arg_at_def fresh_copies_def list_all_length by (metis nth_mem)
  then show "request_args (lib S) (dbs srv ! i) h1 as ws"
    using F(1,2) by (simp add: request_args_def list_all2_conv_all_nth)
qed

lemma heap_wf_drop_refs: "heap_wf h \<Longrightarrow> heap_wf (fold drop_ref as h)"
  by (induction as arbitrary: h) (auto simp: drop_ref_def heap_wf_put split: option.split)

lemma drop_request:
  assumes inv: "srv_inv S srv i" and args: "request_args (lib S) (dbs srv ! i) (heap srv) as ws"
  shows "counted (lib S) (heap srv) as" "srv_inv S (srv\<lparr>heap := fold drop_ref as (heap srv)\<rparr>) i"
    "contents (srv\<lparr>heap := fold drop_ref as (heap srv)\<rparr>) i = contents srv i"
proof -
  note D = srv_invD [OF inv]
  have each: "a \<notin> ran (db_vals (dbs srv ! i)) \<and> (\<exists>obj. cells (heap srv) a = Some obj \<and> refcount obj = 1)" if "a \<in> set as" for a
    using args that unfolding request_args_def list_all2_conv_all_nth arg_at_def by (metis in_set_conv_nth)
  have "1 < OBJ_STATIC_REFCOUNT (lib S)" using sys_lawsD(2) [OF D(1)] by (simp add: object_laws_def)
  then show "counted (lib S) (heap srv) as" using each args unfolding counted_def request_args_def by fastforce
  have "\<forall>a\<in>ran (db_vals (dbs srv ! i)). cells (fold drop_ref as (heap srv)) a = cells (heap srv) a"
    using each by (auto intro!: cells_drop_refs_other)
  from srv_inv_heap [OF inv heap_wf_drop_refs [OF D(7)] this]
  show "srv_inv S (srv\<lparr>heap := fold drop_ref as (heap srv)\<rparr>) i"
    "contents (srv\<lparr>heap := fold drop_ref as (heap srv)\<rparr>) i = contents srv i" by blast+
qed

section \<open>One command\<close>

text \<open>Objects that neither the client nor the database refers to are left alone.\<close>

definition keeps_rest :: "nat list \<Rightarrow> redis_db \<Rightarrow> obj_heap \<Rightarrow> redis_db \<Rightarrow> obj_heap \<Rightarrow> bool" where
  "keeps_rest as db h db' h' \<longleftrightarrow> (\<forall>a. a \<notin> set as \<longrightarrow> a \<notin> ran (db_vals db) \<longrightarrow> cells h' a = cells h a \<and> a \<notin> ran (db_vals db'))"

lemma keeps_rest_self [simp]: "db_vals db' = db_vals db \<Longrightarrow> keeps_rest as db h db' h"
  by (simp add: keeps_rest_def)

lemma keeps_rest_drop: "keeps_rest as db h db' h' \<Longrightarrow> keeps_rest as db h db' (fold drop_ref as h')"
  by (simp add: keeps_rest_def cells_drop_refs_other)

lemma keeps_rest_expired: "ks.expired_by now k db h db' h' \<Longrightarrow> keeps_rest as db h db' h'"
  by (auto simp: keeps_rest_def ks.expired_by_def heap_free_other ran_def split: if_splits)

text \<open>Of the arguments and the old values only those survive that the database refers to.\<close>

definition settles :: "nat list \<Rightarrow> redis_db \<Rightarrow> redis_db \<Rightarrow> obj_heap \<Rightarrow> bool" where
  "settles as db db' h' \<longleftrightarrow> (\<forall>a \<in> set as \<union> ran (db_vals db). cells h' a \<noteq> None \<longrightarrow> a \<in> ran (db_vals db'))"

lemma settles_self [simp]: "db_vals db' = db_vals db \<Longrightarrow> settles [] db db' h"
  by (simp add: settles_def)

lemma freed_cell: "cells (heap_free h v) a \<noteq> None \<Longrightarrow> v \<noteq> Some a"
  by (auto simp: heap_free_def)

lemma ran_other: "a \<in> ran f \<Longrightarrow> f k \<noteq> Some a \<Longrightarrow> a \<in> ran (f(k := x))"
proof -
  assume "a \<in> ran f" "f k \<noteq> Some a"
  then obtain k' where "f k' = Some a" "k' \<noteq> k" unfolding ran_def by auto
  then have "(f(k := x)) k' = Some a" by simp
  then show ?thesis by (rule ranI)
qed

lemma settles_expired: "ks.expired_by now k db h db' h' \<Longrightarrow> settles [] db db' h'"
proof -
  assume e: "ks.expired_by now k db h db' h'"
  have "a \<in> ran (db_vals db')" if a: "a \<in> ran (db_vals db)" "cells h' a \<noteq> None" for a
  proof (cases "\<exists>t. db_ttl db k = Some t \<and> t \<le> now")
    case True
    then have "db_vals db' = (db_vals db)(k := None)" "h' = heap_free h (db_vals db k)" using e unfolding ks.expired_by_def by simp_all
    then show ?thesis using ran_other [OF a(1)] freed_cell [of h "db_vals db k" a] a(2) by simp
  next
    case False
    then have "db' = db" using e unfolding ks.expired_by_def by argo
    then show ?thesis using a(1) by simp
  qed
  then show ?thesis unfolding settles_def by simp
qed

lemma settles_drop:
  assumes "settles [] db db' h" "request_args L db0 h as ws"
  shows "settles as db db' (fold drop_ref as h)"
proof -
  have gone: "cells (fold drop_ref as h) a = None" if "a \<in> set as" for a
  proof -
    obtain j where "j < length as" "a = as ! j" using \<open>a \<in> set as\<close> by (auto simp: in_set_conv_nth)
    then have "arg_at L db0 h a (ws ! j)" using assms(2) list_all2_nthD unfolding request_args_def by blast
    then obtain obj where "cells h a = Some obj" "refcount obj = 1" by (auto simp: arg_at_def)
    then show ?thesis using cells_drop_refs [of as a h obj] assms(2) that by (simp add: request_args_def)
  qed
  have "a \<in> ran (db_vals db')" if a: "a \<in> set as \<union> ran (db_vals db)" "cells (fold drop_ref as h) a \<noteq> None" for a
  proof -
    have "a \<notin> set as" using gone [of a] a(2) by blast
    moreover from this have "cells h a \<noteq> None" using a(2) by (simp add: cells_drop_refs_other)
    ultimately show ?thesis using a(1) assms(1) unfolding settles_def by blast
  qed
  then show ?thesis unfolding settles_def by blast
qed

text \<open>A client that took leave is marked, and nothing else happens to it.\<close>

definition leave :: "latte_c \<Rightarrow> bool \<Rightarrow> redis_client \<Rightarrow> redis_client" where
  "leave L q c = (if q then c\<lparr>client := (client c)\<lparr>cl_flags := cl_flags (client c) OR CLIENT_CLOSE_AFTER_REPLY L\<rparr>\<rparr> else c)"

lemma leave_False [simp]: "leave L False c = c"
  by (simp add: leave_def)

lemma leave_fields [simp]:
  "argc (leave L q c) = argc c" "argv (leave L q c) = argv c" "buf (leave L q c) = buf c" "pos (leave L q c) = pos c" "sent (leave L q c) = sent c"
  "dbid (leave L q c) = dbid c" "flag (leave L q c) = flag c" "lastcmd (leave L q c) = lastcmd c" "args_of (leave L q c) as = args_of c as"
  "cl_flags (client (leave L q c)) = (if q then cl_flags (client c) OR CLIENT_CLOSE_AFTER_REPLY L else cl_flags (client c))"
  by (simp_all add: leave_def buf_def pos_def sent_def client_output_def args_of_def)

text \<open>A command answers \<open>out\<close>, and once its arguments are dropped the database holds \<open>m\<close>; \<open>q\<close> tells whether the client takes leave.\<close>

definition served :: "sys \<Rightarrow> int \<Rightarrow> nat list \<Rightarrow> bool \<Rightarrow> redis_server \<Rightarrow> redis_client \<Rightarrow> keyspace \<times> string \<Rightarrow> bool" where
  "served S now as q srv rc mo \<longleftrightarrow>
     (\<exists>db1 h1 rc1. call S now srv rc = Inr ((db_put srv (dbid rc) db1)\<lparr>heap := h1\<rparr>, leave (lib S) q rc1) \<and> emits rc (snd mo) rc1 \<and> counted (lib S) h1 as \<and>
        srv_inv S ((db_put srv (dbid rc) db1)\<lparr>heap := fold drop_ref as h1\<rparr>) (dbid rc) \<and>
        contents ((db_put srv (dbid rc) db1)\<lparr>heap := fold drop_ref as h1\<rparr>) (dbid rc) = fst mo \<and>
        keeps_rest as (dbs srv ! dbid rc) (heap srv) db1 (fold drop_ref as h1) \<and> settles as (dbs srv ! dbid rc) db1 (fold drop_ref as h1))"

lemma servedI:
  assumes call: "call S now srv rc = Inr (srv1, leave (lib S) q rc1)" "srv1 = (db_put srv (dbid rc) db1)\<lparr>heap := h1\<rparr>" and out: "emits rc out rc1"
    and inv: "srv_inv S srv1 (dbid rc)" "contents srv1 (dbid rc) = m" and i: "dbid rc < length (dbs srv)"
    and args: "request_args (lib S) db1 h1 as ws" and rest: "keeps_rest as (dbs srv ! dbid rc) (heap srv) db1 h1"
      "settles [] (dbs srv ! dbid rc) db1 h1"
  shows "served S now as q srv rc (m, out)"
proof -
  have args1: "request_args (lib S) (dbs srv1 ! dbid rc) (heap srv1) as ws" using args call(2) i by simp
  then show ?thesis using drop_request [OF inv(1) args1] call out inv(2) keeps_rest_drop [OF rest(1)] settles_drop [OF rest(2) args] unfolding served_def by (auto simp: call(2))
qed

lemma db_put_self [simp]: "db_put srv i (dbs srv ! i) = srv" "srv\<lparr>heap := heap srv\<rparr> = srv"
  by (simp_all add: db_put_def)

text \<open>Commands that only answer.\<close>

lemma answered_served:
  assumes inv: "srv_inv S srv (dbid rc)" and args: "request_args (lib S) (dbs srv ! dbid rc) (heap srv) as ws"
    and run: "call S now srv rc = Inr (srv, leave (lib S) q c')" "emits rc out c'"
  shows "served S now as q srv rc (contents srv (dbid rc), out)"
  by (rule servedI [where ?srv1.0 = srv and ?rc1.0 = c' and ?db1.0 = "dbs srv ! dbid rc" and ?h1.0 = "heap srv" and ws = ws])
    (use assms srv_invD(2) [OF inv] in simp_all)

lemma wrong_arity_text:
  assumes "sys_laws S" "cmd rc = Some cm" "cmd_name cm = name" "CR \<notin> set name" "LF \<notin> set name" "NUL \<notin> set name"
  shows "\<exists>c'. wrong_arity (lib S) rc = Inr c' \<and> emits rc (arity_error name) c'"
proof -
  have c: "c_string name = name" using assms(6) by (rule c_string_id)
  show ?thesis using add_reply_error_format_spec [OF sys_lawsD(3,4) [OF assms(1)], of rc "''wrong number of arguments for '' @ [CHR 0x27] @ name @ [CHR 0x27] @ '' command''"] assms(2-6)
    by (auto simp: wrong_arity_def arity_error_def err_text_def c)
qed

lemma ping_served:
  assumes inv: "srv_inv S srv (dbid rc)" and c: "cmd rc = Some cm" "cmd_proc cm = Ping_command" "cmd_name cm = ''ping''"
    and a: "args_of rc as" "request_args (lib S) (dbs srv ! dbid rc) (heap srv) as (w # xs)"
  shows "served S now as False srv rc
    (contents srv (dbid rc), case xs of [] \<Rightarrow> resp_encode (Simple ''PONG'') | [x] \<Rightarrow> resp_encode (Bulk x) | _ \<Rightarrow> arity_error ''ping'')"
proof -
  note S = srv_invD(1) [OF inv]
  note L = sys_lawsD [OF S]
  have len: "length as = Suc (length xs)" using a(2) by (auto simp: request_args_def dest: list_all2_lengthD)
  have run: "served S now as False srv rc (contents srv (dbid rc), out)" if "ping_command (lib S) (heap srv) rc = Inr c'" "emits rc out c'" for c' out
    by (rule answered_served [OF inv a(2)]) (use that c in \<open>simp_all add: call_def\<close>)
  consider "xs = []" | x where "xs = [x]" | x y zs where "xs = x # y # zs" by (metis list.exhaust)
  then show ?thesis
  proof cases
    case 1
    then obtain a0 where "as = [a0]" using len by (auto simp: length_Suc_conv)
    then show ?thesis using ping_command_spec(1) [OF L(1)] a(1) run 1 by fastforce
  next
    case (2 x)
    then obtain a0 a1 where as: "as = [a0, a1]" using len by (auto simp: length_Suc_conv)
    obtain obj where "cells (heap srv) a1 = Some obj" "string_obj (lib S) obj x" "int (length x) \<le> llong_max"
      using a(2) unfolding request_args_def as 2 arg_at_def by auto
    then obtain c' where "ping_command (lib S) (heap srv) rc = Inr c'" "emits rc (resp_encode (Bulk x)) c'"
      using ping_command_spec(2) [OF L(1), of rc a0 a1 "heap srv" obj x] a(1) as by blast
    from run [OF this] show ?thesis using 2 by simp
  next
    case (3 x y zs)
    obtain c' where "wrong_arity (lib S) rc = Inr c'" "emits rc (arity_error ''ping'') c'" using wrong_arity_text [OF S c(1,3)] by auto
    moreover have "2 < argc rc" using a(1) len 3 by (simp add: args_of_def)
    ultimately show ?thesis using run [of c'] 3 by (simp add: ping_command_def)
  qed
qed

lemma arity_served:
  assumes inv: "srv_inv S srv (dbid rc)" and a: "args_of rc as" "request_args (lib S) (dbs srv ! dbid rc) (heap srv) as (w # xs)"
  shows "cmd rc = Some cm \<Longrightarrow> cmd_proc cm = Expire_command \<Longrightarrow> cmd_name cm = ''expire'' \<Longrightarrow> length xs \<noteq> 2 \<Longrightarrow>
      served S now as False srv rc (contents srv (dbid rc), arity_error ''expire'')"
    "is_module_command (cmd rc) m Get_command \<Longrightarrow> length xs \<noteq> 1 \<Longrightarrow> served S now as False srv rc (contents srv (dbid rc), arity_status ''get'')"
    "is_module_command (cmd rc) m Set_command \<Longrightarrow> length xs \<noteq> 2 \<Longrightarrow> served S now as False srv rc (contents srv (dbid rc), arity_status ''set'')"
proof -
  note S = srv_invD(1) [OF inv]
  note answer = answered_served [OF inv a(2), where q = False]
  have ac: "argc rc = Suc (length xs)" using a by (auto simp: request_args_def args_of_def dest: list_all2_lengthD)
  show "served S now as False srv rc (contents srv (dbid rc), arity_error ''expire'')"
    if e: "cmd rc = Some cm" "cmd_proc cm = Expire_command" "cmd_name cm = ''expire''" "length xs \<noteq> 2"
  proof -
    obtain c' where "wrong_arity (lib S) rc = Inr c'" "emits rc (arity_error ''expire'') c'" using wrong_arity_text [OF S e(1,3)] by auto
    then show ?thesis using answer [of now c'] e ac by (simp add: call_def expire_command_def Let_def)
  qed
  note status = simple_string_spec [OF sys_lawsD(3) [OF S]]
  show "served S now as False srv rc (contents srv (dbid rc), arity_status ''get'')" if "is_module_command (cmd rc) m Get_command" "length xs \<noteq> 1"
    unfolding arity_status_def using that ac
    by (intro answer [OF _ status]) (auto simp: is_module_command_def call_def redis_module_command_dispatcher_def call_module_func_def get_command_def)
  show "served S now as False srv rc (contents srv (dbid rc), arity_status ''set'')" if "is_module_command (cmd rc) m Set_command" "length xs \<noteq> 2"
    unfolding arity_status_def using that ac
    by (intro answer [OF _ status]) (auto simp: is_module_command_def call_def redis_module_command_dispatcher_def call_module_func_def set_command_def)
qed

lemma info_served:
  assumes inv: "srv_inv S srv (dbid rc)" and c: "cmd rc = Some cm" "cmd_proc cm = Info_command"
    and a: "request_args (lib S) (dbs srv ! dbid rc) (heap srv) as ws"
  shows "served S now as False srv rc (contents srv (dbid rc), ''Not implemented'' @ [NUL])"
  by (rule answered_served [OF inv a, where c' = "info_command (lib S) rc"])
    (use c out.emitted_put [OF sys_lawsD(3) [OF srv_invD(1) [OF inv]]] in \<open>simp_all add: call_def info_command_def\<close>)

lemma quit_served:
  assumes inv: "srv_inv S srv (dbid rc)" and c: "cmd rc = Some cm" "cmd_proc cm = Quit_command"
    and a: "request_args (lib S) (dbs srv ! dbid rc) (heap srv) as ws"
  shows "served S now as True srv rc (contents srv (dbid rc), resp_encode (Simple ''OK''))"
proof -
  obtain c1 where "quit_command (lib S) rc = Inr (leave (lib S) True c1)" "emits rc (resp_encode (Simple ''OK'')) c1"
    using quit_command_spec [OF sys_lawsD(1) [OF srv_invD(1) [OF inv]], of rc] by (auto simp: leave_def)
  then show ?thesis using answered_served [OF inv a] c by (simp add: call_def)
qed

lemma module_silent:
  assumes inv: "srv_inv S srv (dbid rc)" and c: "cmd rc = Some cm" "cmd_proc cm = Module_command"
    and a: "args_of rc as" "request_args (lib S) (dbs srv ! dbid rc) (heap srv) as (w # x # xs)"
    and sub: "\<not> (xs = [] \<and> strcase_eq x ''help'')" "\<not> (xs \<noteq> [] \<and> strcase_eq x ''load'')"
  shows "served S now as False srv rc (contents srv (dbid rc), [])"
proof -
  note L = sys_lawsD [OF srv_invD(1) [OF inv]]
  obtain a0 a1 as' where as: "as = a0 # a1 # as'" "arg_at (lib S) (dbs srv ! dbid rc) (heap srv) a1 x" "length as' = length xs"
    using a(2) unfolding request_args_def by (auto simp: list_all2_Cons2 dest: list_all2_lengthD)
  obtain obj where obj: "cells (heap srv) a1 = Some obj" "string_obj (lib S) obj x" using as(2) by (auto simp: arg_at_def)
  have ac: "argc rc = Suc (Suc (length xs))" using a(1) as by (simp add: args_of_def)
  have "argv_get rc 1 = Inr a1" using argv_get_args [OF a(1), of 1] as(1) by simp
  then have "module_command S srv rc = Inr (srv, rc)" using sub ac obj(1) string_objD [OF L(2) obj(2)]
    by (auto simp: module_command_def module_unload_command_def module_list_command_def)
  then show ?thesis using answered_served [OF inv a(2), where c' = rc and q = False and out = "[]"] c out.emitted_nil by (simp add: call_def)
qed

lemma expired_contents:
  assumes inv: "srv_inv S srv i" and e: "ks.expired_by now k (dbs srv ! i) (heap srv) db' h'"
  shows "contents ((db_put srv i db')\<lparr>heap := h'\<rparr>) i = purge now k (contents srv i)"
proof -
  note D = srv_invD [OF inv]
  let ?db = "dbs srv ! i"
  show ?thesis
  proof (cases "\<exists>t. db_ttl ?db k = Some t \<and> t \<le> now")
    case False
    then have "purge now k (contents srv i) = contents srv i"
      by (auto simp: purge_def contents_def bind_eq_Some_conv split: option.split)
    then show ?thesis using False e by (simp add: ks.expired_by_def)
  next
    case True
    then have h: "h' = heap_free (heap srv) (db_vals ?db k)" "db_vals db' = (db_vals ?db)(k := None)" "db_ttl db' = (db_ttl ?db)(k := None)"
      using e unfolding ks.expired_by_def by auto
    have other: "db_vals ?db k' = Some a \<Longrightarrow> k' \<noteq> k \<Longrightarrow> text_at h' a = text_at (heap srv) a" for k' a
      using D(8) unfolding db_owns_def h(1) text_at_def by (metis heap_free_other)
    have "contents ((db_put srv i db')\<lparr>heap := h'\<rparr>) i k' = ((contents srv i)(k := None)) k'" for k'
      using other [of k'] D(2) h(2,3) by (cases "db_vals ?db k'") (auto simp: contents_def)
    moreover have "purge now k (contents srv i) = (contents srv i)(k := None)"
      using True by (auto simp: purge_def contents_def bind_eq_Some_conv fun_eq_iff split: option.split)
    ultimately show ?thesis by (simp add: fun_eq_iff)
  qed
qed

lemma expired_args:
  assumes e: "ks.expired_by now k db h db' h'" and args: "request_args L db h as ws"
  shows "request_args L db' h' as ws"
proof -
  have "arg_at L db h a s \<Longrightarrow> arg_at L db' h' a s" for a s
  proof -
    assume "arg_at L db h a s"
    then obtain obj where o: "cells h a = Some obj" "string_obj L obj s" "refcount obj = 1" "a \<notin> ran (db_vals db)" "int (length s) \<le> llong_max"
      by (rule arg_atD)
    have "cells h' a = cells h a" "ran (db_vals db') \<subseteq> ran (db_vals db)"
      using e o(4) unfolding ks.expired_by_def by (auto simp: heap_free_other ran_def split: if_splits)
    then show ?thesis using o unfolding arg_at_def by auto
  qed
  then show ?thesis using args unfolding request_args_def by (auto elim: list_all2_mono)
qed

lemma get_served:
  assumes inv: "srv_inv S srv (dbid rc)" and c: "is_module_command (cmd rc) m Get_command"
    and a: "args_of rc as" "request_args (lib S) (dbs srv ! dbid rc) (heap srv) as [w, k]"
  shows "served S now as False srv rc (spec_get now k (contents srv (dbid rc)))"
proof -
  note D = srv_invD [OF inv]
  obtain a0 ka where as: "as = [a0, ka]" "arg_at (lib S) (dbs srv ! dbid rc) (heap srv) ka k"
    using a(2) unfolding request_args_def by (auto simp: list_all2_Cons2)
  obtain db' h' rc1 where g: "get_command S now srv rc = Inr ((db_put srv (dbid rc) db')\<lparr>heap := h'\<rparr>, rc1, 0)"
    "emits rc (case store srv (dbid rc) now k of None \<Rightarrow> ''*-1'' @ crlf | Some v \<Rightarrow> resp_encode (Bulk v)) rc1"
    "keyspace_inv (lib S) (key_dict S) (expire_dict S) db' h'" "ks.expired_by now k (dbs srv ! dbid rc) (heap srv) db' h'"
    using get_command_spec [OF inv a(1) [unfolded as(1)] as(2)] by blast
  have call: "call S now srv rc = Inr ((db_put srv (dbid rc) db')\<lparr>heap := h'\<rparr>, rc1)"
    using c g(1) by (auto simp: is_module_command_def call_def redis_module_command_dispatcher_def call_module_func_def)
  have out: "(case store srv (dbid rc) now k of None \<Rightarrow> ''*-1'' @ crlf | Some v \<Rightarrow> resp_encode (Bulk v)) = snd (spec_get now k (contents srv (dbid rc)))"
    by (auto simp: contents_live spec_get_def split: option.split)
  have "served S now as False srv rc (purge now k (contents srv (dbid rc)), snd (spec_get now k (contents srv (dbid rc))))"
    by (rule servedI [where q = False, simplified leave_False, OF call refl g(2) [unfolded out] expired_srv_inv(1) [OF inv g(4,3)] expired_contents [OF inv g(4)] D(2) expired_args [OF g(4) a(2)] keeps_rest_expired [OF g(4)] settles_expired [OF g(4)]])
  then show ?thesis by (simp add: spec_get_def)
qed

lemma expire_contents:
  assumes inv: "srv_inv S srv i" and db': "db_vals db' = db_vals (dbs srv ! i)" "db_ttl db' = expire_ttl (lib S) (dbs srv ! i) now k s"
  shows "contents (db_put srv i db') i = fst (spec_expire (lib S) now k s (contents srv i))"
    "resp_encode (expire_reply (lib S) (dbs srv ! i) k s) = snd (spec_expire (lib S) now k s (contents srv i))"
proof -
  note D = srv_invD [OF inv]
  let ?db = "dbs srv ! i"
  have c: "contents (db_put srv i db') i k' = map_option (\<lambda>(v, _). (v, db_ttl db' k')) (contents srv i k')" for k'
    using D(2) db'(1) by (cases "db_vals ?db k'") (auto simp: contents_def option.map_comp o_def)
  have mk: "(case contents srv i k of None \<Rightarrow> db_vals ?db k = None | Some (v, t) \<Rightarrow> db_vals ?db k \<noteq> None \<and> t = db_ttl ?db k)"
    using contents_dom [OF inv, of k] by (auto simp: contents_def bind_eq_Some_conv split: option.split)
  have same: "map_option (\<lambda>(v, _). (v, db_ttl ?db k')) (contents srv i k') = contents srv i k'" for k'
    by (cases "db_vals ?db k'") (auto simp: contents_def option.map_comp o_def)
  show "contents (db_put srv i db') i = fst (spec_expire (lib S) now k s (contents srv i))"
    using mk unfolding fun_eq_iff c
    by (auto simp: db'(2) expire_ttl_def spec_expire_def same split: option.split option.split_asm)
  show "resp_encode (expire_reply (lib S) (dbs srv ! i) k s) = snd (spec_expire (lib S) now k s (contents srv i))"
    using mk by (auto simp: expire_reply_def spec_expire_def split: option.split option.split_asm)
qed

lemma expire_served:
  assumes inv: "srv_inv S srv (dbid rc)" and c: "cmd rc = Some cm" "cmd_proc cm = Expire_command"
    and a: "args_of rc as" "request_args (lib S) (dbs srv ! dbid rc) (heap srv) as [w, k, s]"
  shows "served S now as False srv rc (spec_expire (lib S) now k s (contents srv (dbid rc)))"
proof -
  note D = srv_invD [OF inv]
  obtain a0 ka sa where as: "as = [a0, ka, sa]" "arg_at (lib S) (dbs srv ! dbid rc) (heap srv) ka k"
    "arg_at (lib S) (dbs srv ! dbid rc) (heap srv) sa s"
    using a(2) unfolding request_args_def by (auto simp: list_all2_Cons2)
  obtain kobj sobj where o: "cells (heap srv) ka = Some kobj" "string_obj (lib S) kobj k" "cells (heap srv) sa = Some sobj" "string_obj (lib S) sobj s"
    using as(2,3) by (auto simp: arg_at_def)
  obtain db' c' where e: "expire_command S now srv rc = Inr (db_put srv (dbid rc) db', c')"
    "emits rc (resp_encode (expire_reply (lib S) (dbs srv ! dbid rc) k s)) c'"
    "keyspace_inv (lib S) (key_dict S) (expire_dict S) db' (heap srv)" "db_vals db' = db_vals (dbs srv ! dbid rc)"
    "db_ttl db' = expire_ttl (lib S) (dbs srv ! dbid rc) now k s"
    using expire_command_spec [OF inv a(1) [unfolded as(1)] o, of now] unfolding expire_ran_def by blast
  have call: "call S now srv rc = Inr (db_put srv (dbid rc) db', c')" using c e(1) by (simp add: call_def)
  have eq: "db_put srv (dbid rc) db' = (db_put srv (dbid rc) db')\<lparr>heap := heap srv\<rparr>" by (simp add: db_put_def)
  have inv': "srv_inv S (db_put srv (dbid rc) db') (dbid rc)"
    using D e(3,4) by (simp add: srv_inv_def strings_only_def db_put_def)
  have args: "request_args (lib S) db' (heap srv) as [w, k, s]"
  proof -
    have "arg_at (lib S) db' (heap srv) = arg_at (lib S) (dbs srv ! dbid rc) (heap srv)" by (intro ext) (simp add: arg_at_def e(4))
    then show ?thesis using a(2) by (simp add: request_args_def)
  qed
  note x = expire_contents [OF inv e(4,5)]
  show ?thesis using servedI [where q = False, simplified leave_False, OF call eq e(2) inv' x(1) D(2) args keeps_rest_self [OF e(4)] settles_self [OF e(4)]] unfolding x(2) by simp
qed

lemma set_served:
  assumes inv: "srv_inv S srv (dbid rc)" and c: "is_module_command (cmd rc) m Set_command"
    and a: "args_of rc as" "request_args (lib S) (dbs srv ! dbid rc) (heap srv) as [w, k, v]" and nul: "NUL \<notin> set k"
  shows "served S now as False srv rc (spec_set now k v (contents srv (dbid rc)))"
proof -
  note D = srv_invD [OF inv]
  let ?db = "dbs srv ! dbid rc"
  obtain a0 ka va where as: "as = [a0, ka, va]" "distinct [a0, ka, va]" "arg_at (lib S) ?db (heap srv) a0 w"
    "arg_at (lib S) ?db (heap srv) ka k" "arg_at (lib S) ?db (heap srv) va v"
    using a(2) unfolding request_args_def by (auto simp: list_all2_Cons2)
  obtain db' h' vobj where set: "set_command S now srv rc =
      Inr ((db_put srv (dbid rc) db')\<lparr>heap := h'\<rparr>, redis_module_use_reply_with_simple_string (lib S) rc ''OK'', 0)"
    and h': "counted (lib S) h' [a0, ka, va]" "heap_wf (fold drop_ref [a0, ka, va] h')"
      "cells (fold drop_ref [a0, ka, va] h') = (cells (heap_free (heap srv) (db_vals ?db k)))(a0 := None, ka := None, va \<mapsto> vobj)"
    and vo: "refcount vobj = 1" "string_obj (lib S) vobj v"
    and db': "db_inv (key_dict S) (expire_dict S) db'" "db_vals db' = (db_vals ?db)(k \<mapsto> va)"
      "\<forall>k'. db_ttl db' k' = (if k' = k \<and> live (db_vals ?db) (db_ttl ?db) now k = None then None else db_ttl ?db k')"
    by (rule set_then_drop [OF inv a(1) [unfolded as(1)] as(2-4) nul as(5), of now])
  define h2 where "h2 = fold drop_ref as h'"
  have c2: "cells h2 = (cells (heap_free (heap srv) (db_vals ?db k)))(a0 := None, ka := None, va \<mapsto> vobj)" and wf: "heap_wf h2"
    using h'(2,3) by (simp_all add: h2_def as(1))
  have ran: "a0 \<notin> ran (db_vals ?db)" "ka \<notin> ran (db_vals ?db)" "va \<notin> ran (db_vals ?db)" "int (length v) \<le> llong_max"
    using as(3-5) by (auto simp: arg_at_def)
  have same: "\<forall>k' b. k' \<noteq> k \<longrightarrow> db_vals ?db k' = Some b \<longrightarrow> cells h2 b = cells (heap srv) b"
    by (rule set_keeps_others [OF D(8) ran(1-3) c2])
  have va2: "cells h2 va = Some vobj" by (simp add: c2)
  have dt: "dom (db_ttl db') \<subseteq> dom (db_ttl ?db)" using db'(3) by (auto simp: dom_def split: if_splits)
  have inv2: "srv_inv S ((db_put srv (dbid rc) db')\<lparr>heap := h2\<rparr>) (dbid rc)"
    by (rule srv_inv_store(1) [OF inv db'(1,2) dt va2 vo ran(4,3) same wf])
  have ttl: "Option.bind (purge now k (contents srv (dbid rc)) k) snd = db_ttl db' k"
    using db'(3) contents_dom [OF inv, of k] D(10)
    by (auto simp: purge_def contents_def live_def dom_def bind_eq_Some_conv bind_eq_None_conv split: option.split option.split_asm)
  have "contents ((db_put srv (dbid rc) db')\<lparr>heap := h2\<rparr>) (dbid rc) k' = ((purge now k (contents srv (dbid rc)))(k \<mapsto> (v, db_ttl db' k))) k'" for k'
  proof (cases "k' = k")
    case True
    then show ?thesis using va2 vo(2) D(2) db'(2) by (simp add: contents_def text_at_def string_obj_def)
  next
    case False
    have "purge now k (contents srv (dbid rc)) k' = contents srv (dbid rc) k'" using False by (simp add: purge_def split: option.split)
    moreover have "contents ((db_put srv (dbid rc) db')\<lparr>heap := h2\<rparr>) (dbid rc) k' = contents srv (dbid rc) k'"
      using False D(2) db'(2,3) same [rule_format, OF False] by (cases "db_vals ?db k'") (simp_all add: contents_def text_at_def)
    ultimately show ?thesis using False by simp
  qed
  then have "contents ((db_put srv (dbid rc) db')\<lparr>heap := h2\<rparr>) (dbid rc) = fst (spec_set now k v (contents srv (dbid rc)))"
    unfolding spec_set_def fst_conv ttl by blast
  moreover have "emits rc (snd (spec_set now k v (contents srv (dbid rc)))) (redis_module_use_reply_with_simple_string (lib S) rc ''OK'')"
    unfolding spec_set_def snd_conv by (rule simple_string_spec [OF sys_lawsD(3) [OF D(1)]]) simp
  moreover have "call S now srv rc = Inr ((db_put srv (dbid rc) db')\<lparr>heap := h'\<rparr>, redis_module_use_reply_with_simple_string (lib S) rc ''OK'')"
    using c set by (auto simp: is_module_command_def call_def redis_module_command_dispatcher_def call_module_func_def)
  moreover have "keeps_rest as ?db (heap srv) db' h2"
    using as(1) by (auto simp: keeps_rest_def c2 db'(2) heap_free_other ran_def split: if_splits)
  moreover have "a \<in> ran ((db_vals ?db)(k \<mapsto> va))" if "a \<in> set as \<union> ran (db_vals ?db)" "cells h2 a \<noteq> None" for a
    using that as(1) ran_other [of a "db_vals ?db" k "Some va"] freed_cell [of "heap srv" "db_vals ?db k" a] ranI [of "(db_vals ?db)(k \<mapsto> va)" k va]
    by (auto simp: c2 split: if_split_asm)
  then have "settles as ?db db' h2" by (simp add: settles_def db'(2))
  ultimately show ?thesis using inv2 h'(1) unfolding served_def h2_def as(1) leave_False by blast
qed

section \<open>One request\<close>

text \<open>The commands of the specification are in the table, under any spelling of their names.\<close>

definition table_ready :: "sys \<Rightarrow> redis_server \<Rightarrow> bool" where
  "table_ready S srv \<longleftrightarrow> (\<forall>n.
     (\<forall>(name, p) \<in> set [(''ping'', Ping_command), (''expire'', Expire_command), (''info'', Info_command), (''quit'', Quit_command), (''module'', Module_command)].
        map to_lower n = name \<longrightarrow> (\<exists>c. command_manager_lookup (command_dict S) (cmd_manager srv) n = Some c \<and> cmd_proc c = p \<and> cmd_name c = name)) \<and>
     (map to_lower n = ''set'' \<longrightarrow> (\<exists>m. is_module_command (command_manager_lookup (command_dict S) (cmd_manager srv) n) m Set_command)) \<and>
     (map to_lower n = ''get'' \<longrightarrow> (\<exists>m. is_module_command (command_manager_lookup (command_dict S) (cmd_manager srv) n) m Get_command)))"

lemma table_readyD:
  assumes "table_ready S srv" "c = command_manager_lookup (command_dict S) (cmd_manager srv) n"
  shows "map to_lower n = ''ping'' \<Longrightarrow> \<exists>cm. c = Some cm \<and> cmd_proc cm = Ping_command \<and> cmd_name cm = ''ping''"
    "map to_lower n = ''expire'' \<Longrightarrow> \<exists>cm. c = Some cm \<and> cmd_proc cm = Expire_command \<and> cmd_name cm = ''expire''"
    "map to_lower n = ''info'' \<Longrightarrow> \<exists>cm. c = Some cm \<and> cmd_proc cm = Info_command"
    "map to_lower n = ''quit'' \<Longrightarrow> \<exists>cm. c = Some cm \<and> cmd_proc cm = Quit_command"
    "map to_lower n = ''module'' \<Longrightarrow> \<exists>cm. c = Some cm \<and> cmd_proc cm = Module_command"
    "map to_lower n = ''get'' \<Longrightarrow> \<exists>m. is_module_command c m Get_command"
    "map to_lower n = ''set'' \<Longrightarrow> \<exists>m. is_module_command c m Set_command"
  using assms(1) [unfolded table_ready_def, rule_format, of n] by (simp_all add: assms(2)) blast+

text \<open>The requests for which there is a promise.\<close>

lemma spec_request_cases:
  assumes "spec_request L now ws m = Some mo"
  obtains (ping) w xs where "ws = w # xs" "map to_lower w = ''ping''"
      "mo = (m, case xs of [] \<Rightarrow> resp_encode (Simple ''PONG'') | [x] \<Rightarrow> resp_encode (Bulk x) | _ \<Rightarrow> arity_error ''ping'')"
    | (get) w k where "ws = [w, k]" "map to_lower w = ''get''" "mo = spec_get now k m"
    | (set) w k v where "ws = [w, k, v]" "map to_lower w = ''set''" "NUL \<notin> set k" "mo = spec_set now k v m"
    | (expire) w k s where "ws = [w, k, s]" "map to_lower w = ''expire''" "mo = spec_expire L now k s m"
    | (get_arity) w xs where "ws = w # xs" "map to_lower w = ''get''" "length xs \<noteq> 1" "mo = (m, arity_status ''get'')"
    | (set_arity) w xs where "ws = w # xs" "map to_lower w = ''set''" "length xs \<noteq> 2" "mo = (m, arity_status ''set'')"
    | (expire_arity) w xs where "ws = w # xs" "map to_lower w = ''expire''" "length xs \<noteq> 2" "mo = (m, arity_error ''expire'')"
    | (info) w xs where "ws = w # xs" "map to_lower w = ''info''" "mo = (m, ''Not implemented'' @ [NUL])"
    | (quit) w xs where "ws = w # xs" "map to_lower w = ''quit''" "mo = (m, resp_encode (Simple ''OK''))"
    | (module) w x xs where "ws = w # x # xs" "map to_lower w = ''module''" "\<not> (xs = [] \<and> strcase_eq x ''help'')"
        "\<not> (xs \<noteq> [] \<and> strcase_eq x ''load'')" "mo = (m, [])"
proof -
  obtain w xs where ws: "ws = w # xs" and c: "spec_command L now (map to_lower w) xs m = Some mo"
    using assms by (auto simp: spec_request_def split: list.split_asm)
  have two: "(\<exists>k. xs = [k]) \<or> length xs \<noteq> 1" "(\<exists>k v. xs = [k, v]) \<or> length xs \<noteq> 2"
    by (auto simp: length_Suc_conv numeral_2_eq_2)
  consider "map to_lower w = ''ping''" | "map to_lower w = ''get''" | "map to_lower w = ''set''" | "map to_lower w = ''expire''"
    | "map to_lower w = ''info''" | "map to_lower w = ''quit''" | "map to_lower w = ''module''"
    using c by (auto simp: spec_command_def split: if_split_asm)
  then show thesis
  proof cases
    case 1
    then show ?thesis using ping [OF ws] c by (simp add: spec_command_def)
  next
    case 2
    then show ?thesis using c two(1) ws get get_arity by (auto simp: spec_command_def split: list.split_asm)
  next
    case 3
    then show ?thesis using c two(2) ws set set_arity by (auto simp: spec_command_def split: list.split_asm if_split_asm)
  next
    case 4
    then show ?thesis using c two(2) ws expire expire_arity by (auto simp: spec_command_def split: list.split_asm)
  next
    case 5
    then show ?thesis using info [OF ws] c by (simp add: spec_command_def)
  next
    case 6
    then show ?thesis using quit [OF ws] c by (simp add: spec_command_def)
  next
    case 7
    then show ?thesis using c ws module by (auto simp: spec_command_def split: list.split_asm if_split_asm)
  qed
qed

lemma request_served:
  assumes inv: "srv_inv S srv (dbid rc)" and table: "table_ready S srv" and args: "args_of rc as" "request_args (lib S) (dbs srv ! dbid rc) (heap srv) as ws"
    and spec: "spec_request (lib S) now ws (contents srv (dbid rc)) = Some mo"
    and found: "cmd rc = command_manager_lookup (command_dict S) (cmd_manager srv) (hd ws)"
  shows "cmd rc \<noteq> None \<and> served S now as (quits ws) srv rc mo"
proof -
  note t = table_readyD [OF table found]
  have mod: "is_module_command (cmd rc) m f \<Longrightarrow> cmd rc \<noteq> None" for m f by (auto simp: is_module_command_def)
  from spec show ?thesis
  proof (cases rule: spec_request_cases)
    case (ping w xs)
    then show ?thesis using t(1) ping_served [OF inv _ _ _ args(1), of _ w xs now] args(2) by (auto simp: quits_def)
  next
    case (get w k)
    then show ?thesis using t(6) mod get_served [OF inv _ args(1), of _ w k now] args(2) by (auto simp: quits_def)
  next
    case (set w k v)
    then show ?thesis using t(7) mod set_served [OF inv _ args(1), of _ w k v now] args(2) by (auto simp: quits_def)
  next
    case (expire w k s)
    then show ?thesis using t(2) expire_served [OF inv _ _ args(1), of _ w k s now] args(2) by (auto simp: quits_def)
  next
    case (get_arity w xs)
    then show ?thesis using t(6) mod arity_served(2) [OF inv args(1), of w xs] args(2) by (auto simp: quits_def)
  next
    case (set_arity w xs)
    then show ?thesis using t(7) mod arity_served(3) [OF inv args(1), of w xs] args(2) by (auto simp: quits_def)
  next
    case (expire_arity w xs)
    then show ?thesis using t(2) arity_served(1) [OF inv args(1), of w xs] args(2) by (auto simp: quits_def)
  next
    case (info w xs)
    then show ?thesis using t(3) info_served [OF inv _ _ args(2)] by (auto simp: quits_def)
  next
    case (quit w xs)
    then show ?thesis using t(4) quit_served [OF inv _ _ args(2)] by (auto simp: quits_def)
  next
    case (module w x xs)
    then show ?thesis using t(5) module_silent [OF inv _ _ args(1), of _ w x xs now] args(2) by (auto simp: quits_def)
  qed
qed

lemma current_client_irrelevant [simp]:
  "srv_inv S (srv\<lparr>current_client := x\<rparr>) i = srv_inv S srv i" "contents (srv\<lparr>current_client := x\<rparr>) i = contents srv i"
  "table_ready S (srv\<lparr>current_client := x\<rparr>) = table_ready S srv"
  by (simp_all add: srv_inv_def contents_def table_ready_def fun_eq_iff)

lemma table_ready_heap [simp]: "table_ready S ((db_put srv i db)\<lparr>heap := h\<rparr>) = table_ready S srv" "table_ready S (srv\<lparr>heap := h\<rparr>) = table_ready S srv"
  "table_ready S (db_put srv i db) = table_ready S srv"
  by (simp_all add: table_ready_def db_put_def)

lemma request_processed:
  assumes inv: "srv_inv S srv (dbid rc)" and table: "table_ready S srv" and args: "args_of rc as" "request_args (lib S) (dbs srv ! dbid rc) (heap srv) as ws"
    and spec: "spec_request (lib S) now ws (contents srv (dbid rc)) = Some (m', out)"
  shows "\<exists>db h srv2 rc1 c. process_command_and_reset_client S now self srv rc =
      Inr (srv2, (leave (lib S) (quits ws) rc1)\<lparr>argc := 0, cmd := None, argv_len_sum := 0, req_type := 0, multi_bulk_len := 0, bulk_len := -1\<rparr>, 0) \<and>
    emits (rc\<lparr>cmd := c, lastcmd := c\<rparr>) out rc1 \<and> srv_inv S srv2 (dbid rc) \<and> contents srv2 (dbid rc) = m' \<and>
    srv2 = (db_put srv (dbid rc) db)\<lparr>heap := h\<rparr> \<and> keeps_rest as (dbs srv ! dbid rc) (heap srv) db h \<and>
    settles as (dbs srv ! dbid rc) db h \<and> c \<noteq> None \<and> c = command_manager_lookup (command_dict S) (cmd_manager srv) (hd ws)"
proof -
  note L = sys_lawsD [OF srv_invD(1) [OF inv]]
  define srv0 where "srv0 = srv\<lparr>current_client := Some self\<rparr>"
  define c where "c = command_manager_lookup (command_dict S) (cmd_manager srv0) (hd ws)"
  define rc0 where "rc0 = rc\<lparr>cmd := c, lastcmd := c\<rparr>"
  have eq: "dbid rc0 = dbid rc" "heap srv0 = heap srv" "dbs srv0 = dbs srv"
    by (simp_all add: rc0_def srv0_def)
  have ne: "ws \<noteq> []" using spec by (auto simp: spec_request_def)
  have "list_all2 (arg_at (lib S) (dbs srv ! dbid rc) (heap srv)) as ws" using args(2) by (simp add: request_args_def)
  then have "arg_at (lib S) (dbs srv ! dbid rc) (heap srv) (as ! 0) (hd ws)" "0 < length as"
    using ne by (auto simp: list_all2_conv_all_nth hd_conv_nth)
  then have name: "arg_bytes (lib S) (heap srv0) rc 0 = Inr (hd ws)"
    using arg_bytes_spec [OF L(2) args(1), of 0] eq(2) by (auto simp: arg_at_def)
  have args0: "args_of rc0 as" using args(1) by (simp add: rc0_def args_of_def)
  have "srv_inv S srv0 (dbid rc0)" "table_ready S srv0" "request_args (lib S) (dbs srv0 ! dbid rc0) (heap srv0) as ws"
    "spec_request (lib S) now ws (contents srv0 (dbid rc0)) = Some (m', out)" "cmd rc0 = command_manager_lookup (command_dict S) (cmd_manager srv0) (hd ws)"
    using inv table args(2) spec by (simp_all add: eq) (simp_all add: srv0_def rc0_def c_def)
  from request_served [OF this(1,2) args0 this(3-5)] have found: "c \<noteq> None" and "served S now as (quits ws) srv0 rc0 (m', out)" by (simp_all add: rc0_def)
  then obtain db1 h1 rc1 where s: "call S now srv0 rc0 = Inr ((db_put srv0 (dbid rc) db1)\<lparr>heap := h1\<rparr>, leave (lib S) (quits ws) rc1)" "emits rc0 out rc1"
    "counted (lib S) h1 as" "srv_inv S ((db_put srv0 (dbid rc) db1)\<lparr>heap := fold drop_ref as h1\<rparr>) (dbid rc)"
    "contents ((db_put srv0 (dbid rc) db1)\<lparr>heap := fold drop_ref as h1\<rparr>) (dbid rc) = m'"
    "keeps_rest as (dbs srv ! dbid rc) (heap srv) db1 (fold drop_ref as h1)" "settles as (dbs srv ! dbid rc) db1 (fold drop_ref as h1)"
    unfolding served_def eq by auto
  have args1: "args_of (leave (lib S) (quits ws) rc1) as" using s(2) args0 unfolding emits_def leave_fields by (metis args_of_frame)
  let ?srv2 = "((db_put srv0 (dbid rc) db1)\<lparr>heap := fold drop_ref as h1\<rparr>)\<lparr>current_client := current_client srv\<rparr>"
  have "process_command S now srv0 rc = Inr ((db_put srv0 (dbid rc) db1)\<lparr>heap := h1\<rparr>, leave (lib S) (quits ws) rc1, 0)"
    using name found s(1) unfolding process_command_def by (auto simp: c_def [symmetric] rc0_def Let_def)
  then have "process_command_and_reset_client S now self srv rc =
      Inr (?srv2, (leave (lib S) (quits ws) rc1)\<lparr>argc := 0, cmd := None, argv_len_sum := 0, req_type := 0, multi_bulk_len := 0, bulk_len := -1\<rparr>, 0)"
    using reset_redis_client_spec [OF L(2) args1 s(3)]
    by (simp add: process_command_and_reset_client_def srv0_def command_processed_def db_put_def)
  moreover have "?srv2 = (db_put srv (dbid rc) db1)\<lparr>heap := fold drop_ref as h1\<rparr>" by (simp add: srv0_def db_put_def)
  moreover have "c = command_manager_lookup (command_dict S) (cmd_manager srv) (hd ws)" by (simp add: c_def srv0_def)
  ultimately show ?thesis using s(2,4-7) found unfolding rc0_def by (metis current_client_irrelevant(1,2))
qed

end
