(* ===== verification/Session.thy ===== *)
theory Session
  imports Service
begin

text \<open>
  The server as a client sees it: a stream of requests, arrays of strings and lines of words mixed, through parser, argument objects,
  command table, keyspace, replies and reset, is served as the specification says, one request after the other, up to the one that takes leave.
\<close>

section \<open>A client, at rest or within a request\<close>

text \<open>The arguments a client holds.\<close>

definition pend :: "redis_client \<Rightarrow> nat list" where
  "pend rc = (case argv rc of Argv v \<Rightarrow> map the (take (argc rc) v) | _ \<Rightarrow> [])"

lemma pend_args: "args_of rc as \<Longrightarrow> pend rc = as"
  by (cases "as = []") (auto simp: args_of_def pend_def split: argv_ptr.split)

lemma pend_none [simp]: "argc rc = 0 \<Longrightarrow> pend rc = []"
  by (simp add: pend_def split: argv_ptr.split)

text \<open>A request on the wire: an array of strings, or a line of words.\<close>

datatype framed = Multi "string list" | Line "string list"

fun frame_words :: "framed \<Rightarrow> string list" where
  "frame_words (Multi ws) = ws"
| "frame_words (Line ws) = ws"

fun frame_bytes :: "framed \<Rightarrow> string" where
  "frame_bytes (Multi ws) = request ws"
| "frame_bytes (Line ws) = unwords ws @ crlf"

text \<open>Lines end where they should when \<open>one\<close> holds: the stack has a 1 where the parser counts line feeds.\<close>

fun frame_ok :: "bool \<Rightarrow> int \<Rightarrow> framed \<Rightarrow> bool" where
  "frame_ok one bulk_max (Multi ws) = request_ok bulk_max ws"
| "frame_ok one bulk_max (Line ws) \<longleftrightarrow> one \<and> ws \<noteq> [] \<and> list_all plain_word ws \<and> length (unwords ws) < PROTO_INLINE_MAX_SIZE"

definition stream :: "framed list \<Rightarrow> string" where
  "stream frs = concat (map frame_bytes frs)"

lemma stream_simps [simp]: "stream [] = []" "stream (fr # frs) = frame_bytes fr @ stream frs"
  by (simp_all add: stream_def)

lemma stream_Multi [simp]: "stream (map Multi wss) = concat (map request wss)" "map frame_words (map Multi wss) = wss"
  "list_all (frame_ok one bulk_max) (map Multi wss) = list_all (request_ok bulk_max) wss"
  by (induction wss) simp_all

text \<open>Of a stream of requests of which \<open>f\<close> bytes are still to come, those that have arrived completely.\<close>

fun due :: "nat \<Rightarrow> framed list \<Rightarrow> framed list" where
  "due f [] = []"
| "due f (fr # frs) = (if f \<le> length (stream frs) then fr # due f frs else [])"

lemma due_all: "due 0 frs = frs"
  by (induction frs) simp_all

text \<open>
  The requests \<open>frs\<close> have not been served yet, \<open>F\<close> is what is still to come of their bytes. Of the first request, if it is an array, the
  arguments \<open>ts\<close> may have been read into objects of the client.
\<close>

definition client_mid :: "sys \<Rightarrow> redis_server \<Rightarrow> redis_client \<Rightarrow> framed list \<Rightarrow> string \<Rightarrow> bool" where
  "client_mid S srv rc frs F \<longleftrightarrow>
     cl_flags (client rc) AND (CLIENT_CLOSE_AFTER_REPLY (lib S) OR CLIENT_CLOSE_ASAP (lib S)) = 0 \<and> flag rc AND CLIENT_MASTER = 0 \<and>
     (case frs of
        [] \<Rightarrow> idle rc \<and> req_type rc = 0 \<and> unread rc @ F = []
      | Line ws # frs' \<Rightarrow> idle rc \<and> (req_type rc = 0 \<or> req_type rc = PROTO_REQ_INLINE) \<and> unread rc @ F = unwords ws @ crlf @ stream frs'
      | Multi ws # frs' \<Rightarrow> (req_type rc = PROTO_REQ_MULTIBULK \<or> req_type rc = 0 \<and> idle rc) \<and>
          (\<exists>ts todo P. ws = ts @ todo \<and> todo \<noteq> [] \<and> parsing (lib S) (pend rc) (heap srv) todo rc (heap srv) P \<and>
             request_args (lib S) (dbs srv ! dbid rc) (heap srv) (pend rc) ts \<and> unread rc @ F = P @ stream frs'))"

lemma client_mid_ConsI:
  assumes "parsing (lib S) (pend rc) (heap srv) todo rc (heap srv) P" "todo \<noteq> []" "ws = ts @ todo"
    "cl_flags (client rc) AND (CLIENT_CLOSE_AFTER_REPLY (lib S) OR CLIENT_CLOSE_ASAP (lib S)) = 0" "flag rc AND CLIENT_MASTER = 0"
    "req_type rc = PROTO_REQ_MULTIBULK \<or> req_type rc = 0 \<and> idle rc"
    "request_args (lib S) (dbs srv ! dbid rc) (heap srv) (pend rc) ts" "unread rc @ F = P @ stream frs"
  shows "client_mid S srv rc (Multi ws # frs) F"
  using assms unfolding client_mid_def by auto

definition client_ok :: "sys \<Rightarrow> redis_server \<Rightarrow> redis_client \<Rightarrow> framed list \<Rightarrow> string \<Rightarrow> bool" where
  "client_ok S srv rc wss F \<longleftrightarrow> client_mid S srv rc wss F \<and> due (length F) wss = []"

text \<open>
  The objects of everybody else, which neither the database nor the client refers to. A turn of the client leaves them alone, and it adds none: whatever it
  allocates is an argument of the client, a value of the database, or freed.
\<close>

definition others :: "redis_server \<Rightarrow> nat \<Rightarrow> redis_client \<Rightarrow> nat set" where
  "others srv i rc = {a. cells (heap srv) a \<noteq> None \<and> a \<notin> ran (db_vals (dbs srv ! i)) \<and> a \<notin> set (pend rc)}"

definition spares :: "redis_server \<Rightarrow> redis_client \<Rightarrow> redis_server \<Rightarrow> redis_client \<Rightarrow> bool" where
  "spares srv rc srv' rc' \<longleftrightarrow> others srv' (dbid rc) rc' = others srv (dbid rc) rc \<and> (\<forall>a \<in> others srv (dbid rc) rc. cells (heap srv') a = cells (heap srv) a)"

lemma spares_refl [simp]: "spares srv rc srv rc"
  by (simp add: spares_def)

lemma spares_trans: "spares srv rc srv1 rc1 \<Longrightarrow> spares srv1 rc1 srv2 rc2 \<Longrightarrow> dbid rc1 = dbid rc \<Longrightarrow> spares srv rc srv2 rc2"
  by (simp add: spares_def)

lemma spares_same: "heap srv' = heap srv \<Longrightarrow> dbs srv' = dbs srv \<Longrightarrow> pend rc' = pend rc \<Longrightarrow> spares srv rc srv' rc'"
  by (simp add: spares_def others_def)

lemma spares_read:
  assumes "\<forall>a. a \<notin> set as \<longrightarrow> cells h1 a = cells (heap srv) a" "\<forall>a. cells (heap srv) a \<noteq> None \<longrightarrow> a \<notin> set as" "pend rc1 = pend rc @ as"
  shows "spares srv rc (srv\<lparr>heap := h1\<rparr>) rc1"
proof -
  have "others (srv\<lparr>heap := h1\<rparr>) (dbid rc) rc1 = others srv (dbid rc) rc" using assms by (auto simp: others_def)
  moreover have "\<forall>a \<in> others srv (dbid rc) rc. cells h1 a = cells (heap srv) a" using assms(1,2) by (simp add: others_def)
  ultimately show ?thesis by (simp add: spares_def)
qed

lemma spares_served:
  assumes new: "\<forall>a. a \<notin> set as \<longrightarrow> cells h1 a = cells (heap srv) a" "\<forall>a. cells (heap srv) a \<noteq> None \<longrightarrow> a \<notin> set as"
    and run: "keeps_rest (pend rc @ as) (dbs srv ! dbid rc) h1 db h" "settles (pend rc @ as) (dbs srv ! dbid rc) db h"
    and i: "dbid rc < length (dbs srv)" and rc': "pend rc' = []"
  shows "spares srv rc ((db_put srv (dbid rc) db)\<lparr>heap := h\<rparr>) rc'"
proof -
  let ?srv = "(db_put srv (dbid rc) db)\<lparr>heap := h\<rparr>"
  have old: "cells h a = cells (heap srv) a \<and> a \<notin> ran (db_vals db)" if "a \<in> others srv (dbid rc) rc" for a
  proof -
    have "a \<notin> set (pend rc @ as)" "a \<notin> ran (db_vals (dbs srv ! dbid rc))" "cells h1 a = cells (heap srv) a" using that new by (auto simp: others_def)
    then show ?thesis using run(1) unfolding keeps_rest_def by metis
  qed
  have kept: "a \<in> others srv (dbid rc) rc" if "cells h a \<noteq> None" "a \<notin> ran (db_vals db)" for a
  proof -
    have a: "a \<notin> set (pend rc @ as)" "a \<notin> ran (db_vals (dbs srv ! dbid rc))" using run(2) that unfolding settles_def by blast+
    then have "cells h1 a \<noteq> None" using run(1) that(1) unfolding keeps_rest_def by metis
    then show ?thesis using a new(1) by (simp add: others_def)
  qed
  have "others ?srv (dbid rc) rc' = {a. cells h a \<noteq> None \<and> a \<notin> ran (db_vals db)}" using i rc' by (simp add: others_def)
  moreover have "cells h a \<noteq> None \<and> a \<notin> ran (db_vals db)" if "a \<in> others srv (dbid rc) rc" for a using that old [OF that] by (simp add: others_def)
  then have "others srv (dbid rc) rc \<subseteq> {a. cells h a \<noteq> None \<and> a \<notin> ran (db_vals db)}" by blast
  moreover have "{a. cells h a \<noteq> None \<and> a \<notin> ran (db_vals db)} \<subseteq> others srv (dbid rc) rc" using kept by blast
  ultimately have "others ?srv (dbid rc) rc' = others srv (dbid rc) rc" by simp
  then show ?thesis using old by (simp add: spares_def)
qed

lemma fresh_more:
  assumes inv: "srv_inv S srv i" and f: "fresh_copies (lib S) (heap srv) h1 as us" and len: "list_all (\<lambda>w. int (length w) \<le> llong_max) us"
    and old: "request_args (lib S) (dbs srv ! i) (heap srv) bs ts"
  shows "request_args (lib S) (dbs srv ! i) h1 (bs @ as) (ts @ us)" "\<forall>a. a \<notin> set as \<longrightarrow> cells h1 a = cells (heap srv) a"
    "\<forall>a. cells (heap srv) a \<noteq> None \<longrightarrow> a \<notin> set as"
proof -
  note F = fresh_copiesD [OF f] and new = fresh_request(3) [OF inv f len]
  have below: "a \<notin> set as" if "cells (heap srv) a \<noteq> None" for a
    using that F(4) srv_invD(7) [OF inv] unfolding heap_wf_def by (metis not_less)
  show "\<forall>a. a \<notin> set as \<longrightarrow> cells h1 a = cells (heap srv) a" "\<forall>a. cells (heap srv) a \<noteq> None \<longrightarrow> a \<notin> set as" using below F(5) by simp_all
  have each: "arg_at (lib S) (dbs srv ! i) h1 b t \<and> b \<notin> set as" if "arg_at (lib S) (dbs srv ! i) (heap srv) b t" for b t
    using that below [of b] F(5) by (auto simp: arg_at_def)
  have "list_all2 (arg_at (lib S) (dbs srv ! i) h1) bs ts" using old each by (auto simp: request_args_def elim: list_all2_mono)
  moreover have "set bs \<inter> set as = {}" using old each unfolding request_args_def list_all2_conv_all_nth by (metis disjoint_iff in_set_conv_nth)
  ultimately show "request_args (lib S) (dbs srv ! i) h1 (bs @ as) (ts @ us)"
    using new old by (auto simp: request_args_def intro: list_all2_appendI)
qed

text \<open>A request that is complete: it is served, and the client is at rest.\<close>

lemma turn_serves:
  assumes inv: "srv_inv S srv (dbid rc)" and table: "table_ready S srv"
    and fl: "cl_flags (client rc) AND (CLIENT_CLOSE_AFTER_REPLY (lib S) OR CLIENT_CLOSE_ASAP (lib S)) = 0"
    and r: "read_request S lf0 srv rc = Inr (srv\<lparr>heap := h1\<rparr>, rc1, 0)" "unparsed rc1 = unparsed (rc\<lparr>req_type := rt\<rparr>)" "pos rc1 \<le> length (buf rc1)"
    and as: "args_of rc1 (pend rc @ as)" "fresh_copies (lib S) (heap srv) h1 as todo"
    and old: "request_args (lib S) (dbs srv ! dbid rc) (heap srv) (pend rc) ts"
    and ws: "ts @ todo \<noteq> []" "list_all (\<lambda>w. int (length w) \<le> llong_max) todo"
    and spec: "spec_request (lib S) now (ts @ todo) (contents srv (dbid rc)) = Some (m', out)"
  shows "\<exists>srv' rc' db h. input_turn S now lf0 self srv rc = Inr (srv', rc', Next) \<and> srv_inv S srv' (dbid rc) \<and> contents srv' (dbid rc) = m' \<and>
    srv' = (db_put srv (dbid rc) db)\<lparr>heap := h\<rparr> \<and> idle rc' \<and> req_type rc' = 0 \<and> dbid rc' = dbid rc \<and> unread rc' = unread rc1 \<and>
    cl_flags (client rc') = (if quits (ts @ todo) then cl_flags (client rc) OR CLIENT_CLOSE_AFTER_REPLY (lib S) else cl_flags (client rc)) \<and>
    sent rc' = sent rc @ out \<and> spares srv rc srv' rc' \<and> lastcmd rc' \<noteq> None \<and> flag rc' = flag rc \<and> buf rc' = buf rc1 \<and>
    lastcmd rc' = command_manager_lookup (command_dict S) (cmd_manager srv) (hd (ts @ todo))"
proof -
  define q where "q = quits (ts @ todo)"
  note u = unparsed_fields [OF r(2)]
  note f = fresh_request(1,2) [OF inv as(2) ws(2)] and g = fresh_more [OF inv as(2) ws(2) old]
  have len: "length (pend rc @ as) = length (ts @ todo)" using g(1) by (auto simp: request_args_def dest: list_all2_lengthD)
  then have ne: "argc rc1 \<noteq> 0" using as(1) ws(1) by (auto simp: args_of_def)
  have i: "dbid rc1 = dbid rc" using u(3) by simp
  have "srv_inv S (srv\<lparr>heap := h1\<rparr>) (dbid rc1)" "table_ready S (srv\<lparr>heap := h1\<rparr>)"
    "request_args (lib S) (dbs (srv\<lparr>heap := h1\<rparr>) ! dbid rc1) (heap (srv\<lparr>heap := h1\<rparr>)) (pend rc @ as) (ts @ todo)"
    "spec_request (lib S) now (ts @ todo) (contents (srv\<lparr>heap := h1\<rparr>) (dbid rc1)) = Some (m', out)"
    using f g(1) table spec i by simp_all
  from request_processed [OF this(1,2) as(1) this(3,4), of self] obtain db h srv2 rc2 c where p:
    "process_command_and_reset_client S now self (srv\<lparr>heap := h1\<rparr>) rc1 =
      Inr (srv2, (leave (lib S) q rc2)\<lparr>argc := 0, cmd := None, argv_len_sum := 0, req_type := 0, multi_bulk_len := 0, bulk_len := -1\<rparr>, 0)"
    "emits (rc1\<lparr>cmd := c, lastcmd := c\<rparr>) out rc2" "srv_inv S srv2 (dbid rc1)" "contents srv2 (dbid rc1) = m'"
    "srv2 = (db_put (srv\<lparr>heap := h1\<rparr>) (dbid rc1) db)\<lparr>heap := h\<rparr>" "keeps_rest (pend rc @ as) (dbs (srv\<lparr>heap := h1\<rparr>) ! dbid rc1) (heap (srv\<lparr>heap := h1\<rparr>)) db h"
    "settles (pend rc @ as) (dbs (srv\<lparr>heap := h1\<rparr>) ! dbid rc1) db h" "c \<noteq> None"
    "c = command_manager_lookup (command_dict S) (cmd_manager (srv\<lparr>heap := h1\<rparr>)) (hd (ts @ todo))"
    unfolding q_def by blast
  let ?rc = "(leave (lib S) q rc2)\<lparr>argc := 0, cmd := None, argv_len_sum := 0, req_type := 0, multi_bulk_len := 0, bulk_len := -1\<rparr>"
  have fr: "reply_frame (rc1\<lparr>cmd := c, lastcmd := c\<rparr>) rc2" "sent rc2 = sent rc1 @ out" using p(2) by (simp_all add: emits_def sent_def)
  have b: "buf ?rc = buf rc1" "pos ?rc = pos rc1" "dbid rc2 = dbid rc1" "cl_flags (client rc2) = cl_flags (client rc1)" "lastcmd rc2 = c" "flag rc2 = flag rc1"
    using reply_frame_fields [OF fr(1)] by (simp_all add: buf_def pos_def leave_def)
  have srv2: "srv2 = (db_put srv (dbid rc) db)\<lparr>heap := h\<rparr>" using p(5) i by (simp add: db_put_def)
  have "input_turn S now lf0 self srv rc = Inr (srv2, ?rc, Next)" using r(1) ne p(1) fl by (simp add: input_turn_def)
  moreover have "argv ?rc = argv rc1" using reply_frame_fields [OF fr(1)] by (simp add: leave_fields)
  then have "idle ?rc" using b r(3) as(1) ne by (auto simp: idle_def args_of_def)
  moreover have "sent ?rc = sent rc @ out" using fr(2) u(7,8) by (simp add: sent_def client_output_def leave_def)
  moreover have "spares srv rc srv2 ?rc"
    unfolding srv2 by (rule spares_served [OF g(2,3)]) (use p(6,7) srv_invD(2) [OF inv] i in simp_all)
  ultimately show ?thesis using b i u(1,6) p(3,4,8,9) srv2
    by (intro exI [of _ srv2] exI [of _ ?rc] exI [of _ db] exI [of _ h]) (simp add: unread_def q_def)
qed

text \<open>A request of which bytes are missing: what has arrived is read, and the client waits.\<close>

lemma turn_waits:
  assumes inv: "srv_inv S srv (dbid rc)"
    and fl: "cl_flags (client rc) AND (CLIENT_CLOSE_AFTER_REPLY (lib S) OR CLIENT_CLOSE_ASAP (lib S)) = 0" "flag rc AND CLIENT_MASTER = 0"
    and r: "read_request S lf0 srv rc = Inr (srv\<lparr>heap := h1\<rparr>, rc1, -1)" "unparsed rc1 = unparsed (rc\<lparr>req_type := PROTO_REQ_MULTIBULK\<rparr>)"
      "parsing (lib S) (pend rc) (heap srv) todo rc1 h1 P" "unread rc1 @ F = P @ stream frs"
    and old: "request_args (lib S) (dbs srv ! dbid rc) (heap srv) (pend rc) ts"
    and ws: "todo \<noteq> []" "list_all (\<lambda>w. int (length w) \<le> llong_max) todo"
  shows "input_turn S now lf0 self srv rc = Inr (srv\<lparr>heap := h1\<rparr>, rc1, Break) \<and> srv_inv S (srv\<lparr>heap := h1\<rparr>) (dbid rc) \<and>
    contents (srv\<lparr>heap := h1\<rparr>) (dbid rc) = contents srv (dbid rc) \<and> client_mid S (srv\<lparr>heap := h1\<rparr>) rc1 (Multi (ts @ todo) # frs) F \<and>
    dbid rc1 = dbid rc \<and> sent rc1 = sent rc \<and> lastcmd rc1 = lastcmd rc \<and> spares srv rc (srv\<lparr>heap := h1\<rparr>) rc1"
proof -
  note u = unparsed_fields [OF r(2)]
  have turn: "input_turn S now lf0 self srv rc = Inr (srv\<lparr>heap := h1\<rparr>, rc1, Break)" using r(1) fl by (simp add: input_turn_def)
  have s: "dbid rc1 = dbid rc" "sent rc1 = sent rc" "lastcmd rc1 = lastcmd rc" using u by (simp_all add: sent_def client_output_def)
  have mb: "req_type rc1 = PROTO_REQ_MULTIBULK" "cl_flags (client rc1) = cl_flags (client rc)" "flag rc1 = flag rc" using u(1,2,6) by simp_all
  from r(3) [unfolded parsing_def] show ?thesis
  proof (elim disjE exE conjE)
    assume i: "pend rc = []" "idle rc1" "h1 = heap srv" "P = request todo"
    have p1: "pend rc1 = []" using i(2) by (simp add: idle_def)
    have "client_mid S (srv\<lparr>heap := h1\<rparr>) rc1 (Multi (ts @ todo) # frs) F"
      by (rule client_mid_ConsI [where ts = ts and todo = todo and P = P]) (use i p1 mb fl ws(1) r(4) old s(1) in \<open>simp_all add: parsing_def\<close>)
    moreover have "srv\<lparr>heap := h1\<rparr> = srv" using i(3) by simp
    ultimately show ?thesis using turn inv s i(1) p1 by (simp add: spares_same)
  next
    fix ds ts' assume t: "ts' \<noteq> []" "todo = ds @ ts'" "midway (lib S) (pend rc) (heap srv) h1 rc1 ds (length ts')" "length_known rc1 ts'" "P = expected (bulk_len rc1) ts'"
    obtain as where as: "args_of rc1 (pend rc @ as)" "fresh_copies (lib S) (heap srv) h1 as ds" using t(3) by (rule midway_args)
    have ds: "list_all (\<lambda>w. int (length w) \<le> llong_max) ds" using ws(2) t(2) by simp
    note f = fresh_request(1,2) [OF inv as(2) ds] and g = fresh_more [OF inv as(2) ds old]
    have p1: "pend rc1 = pend rc @ as" by (rule pend_args [OF as(1)])
    have "argv rc1 = Argv (map Some (pend rc @ as) @ replicate (length ts') None)"
      using t(3) pend_args [OF as(1)] p1 unfolding midway_def by (metis args_of_def pend_args)
    then have "midway (lib S) (pend rc1) h1 h1 rc1 [] (length ts')" using t(3) as(1) p1 unfolding midway_def args_of_def by simp
    then have par1: "parsing (lib S) (pend rc1) h1 ts' rc1 h1 P" using t(1,4,5) unfolding parsing_def by force
    have "client_mid S (srv\<lparr>heap := h1\<rparr>) rc1 (Multi (ts @ todo) # frs) F"
      by (rule client_mid_ConsI [where ts = "ts @ ds" and todo = ts']) (use par1 mb fl r(4) t(1,2) g(1) s(1) p1 in simp_all)
    then show ?thesis using turn f s spares_read [OF g(2,3) p1] by simp
  qed
qed

text \<open>One read of a client with something unread: the request is complete, or the client waits.\<close>

definition read_complete ::
  "sys \<Rightarrow> int \<Rightarrow> redis_server \<Rightarrow> redis_client \<Rightarrow> framed \<Rightarrow> framed list \<Rightarrow> string \<Rightarrow> bool" where
  "read_complete S lf0 srv rc fr frs F \<longleftrightarrow>
     (\<exists>rc1 h1 rt as ts todo. read_request S lf0 srv rc = Inr (srv\<lparr>heap := h1\<rparr>, rc1, 0) \<and> unparsed rc1 = unparsed (rc\<lparr>req_type := rt\<rparr>) \<and>
        pos rc1 \<le> length (buf rc1) \<and> length (buf rc1) \<le> length (buf rc) \<and> args_of rc1 (pend rc @ as) \<and> fresh_copies (lib S) (heap srv) h1 as todo \<and>
        frame_words fr = ts @ todo \<and> todo \<noteq> [] \<and> list_all (\<lambda>w. int (length w) \<le> llong_max) todo \<and>
        request_args (lib S) (dbs srv ! dbid rc) (heap srv) (pend rc) ts \<and> unread rc1 @ F = stream frs)"

definition turn_wait ::
  "sys \<Rightarrow> int \<Rightarrow> int \<Rightarrow> nat \<Rightarrow> redis_server \<Rightarrow> redis_client \<Rightarrow> framed list \<Rightarrow> string \<Rightarrow> bool" where
  "turn_wait S now lf0 self srv rc frs F \<longleftrightarrow> due (length F) frs = [] \<and>
     (\<exists>rc1 h1. input_turn S now lf0 self srv rc = Inr (srv\<lparr>heap := h1\<rparr>, rc1, Break) \<and> srv_inv S (srv\<lparr>heap := h1\<rparr>) (dbid rc) \<and>
        contents (srv\<lparr>heap := h1\<rparr>) (dbid rc) = contents srv (dbid rc) \<and> client_mid S (srv\<lparr>heap := h1\<rparr>) rc1 frs F \<and>
        dbid rc1 = dbid rc \<and> sent rc1 = sent rc \<and> lastcmd rc1 = lastcmd rc \<and> spares srv rc (srv\<lparr>heap := h1\<rparr>) rc1)"

lemma multi_read:
  assumes inv: "srv_inv S srv (dbid rc)" and mid: "client_mid S srv rc (Multi ws # frs) F" and ok: "request_ok (proto_max_bulk_len srv) ws" and ne: "unread rc \<noteq> []"
  shows "read_complete S lf0 srv rc (Multi ws) frs F \<or> turn_wait S now lf0 self srv rc (Multi ws # frs) F"
proof -
  note L = sys_lawsD [OF srv_invD(1) [OF inv]]
  have fl: "cl_flags (client rc) AND (CLIENT_CLOSE_AFTER_REPLY (lib S) OR CLIENT_CLOSE_ASAP (lib S)) = 0" "flag rc AND CLIENT_MASTER = 0"
    and t: "req_type rc = PROTO_REQ_MULTIBULK \<or> req_type rc = 0 \<and> idle rc" using mid by (simp_all add: client_mid_def)
  obtain ts todo P where ws: "ws = ts @ todo" "todo \<noteq> []" and par: "parsing (lib S) (pend rc) (heap srv) todo rc (heap srv) P"
    and old: "request_args (lib S) (dbs srv ! dbid rc) (heap srv) (pend rc) ts" and bytes: "unread rc @ F = P @ stream frs"
    using mid unfolding client_mid_def by auto
  have ok': "request_ok (proto_max_bulk_len srv) todo" using ok ws by (simp add: request_ok_def)
  then have len: "list_all (\<lambda>w. int (length w) \<le> llong_max) todo" by (auto simp: request_ok_def list_all_iff intro: order_trans)
  have count: "length (unread rc) + length F = length P + length (stream frs)" using arg_cong [OF bytes, of length] by simp
  from read_request_progress [OF L(2,5) ok' par ne t bytes, of lf0] show ?thesis
  proof (elim exE conjE disjE)
    fix rc1 h1 r P' assume r: "read_request S lf0 srv rc = Inr (srv\<lparr>heap := h1\<rparr>, rc1, r)" "unparsed rc1 = unparsed (rc\<lparr>req_type := PROTO_REQ_MULTIBULK\<rparr>)"
      "r = -1" "length (unread rc) < length P" "parsing (lib S) (pend rc) (heap srv) todo rc1 h1 P'" "unread rc1 @ F = P' @ stream frs"
    have "due (length F) (Multi ws # frs) = []" using count r(4) by simp
    then have "turn_wait S now lf0 self srv rc (Multi ws # frs) F"
      using turn_waits [OF inv fl r(1) [unfolded r(3)] r(2,5,6) old ws(2) len, of now self] ws(1) unfolding turn_wait_def by blast
    then show ?thesis ..
  next
    fix rc1 h1 r assume r: "read_request S lf0 srv rc = Inr (srv\<lparr>heap := h1\<rparr>, rc1, r)" "unparsed rc1 = unparsed (rc\<lparr>req_type := PROTO_REQ_MULTIBULK\<rparr>)"
      "r = 0" "midway (lib S) (pend rc) (heap srv) h1 rc1 todo 0" "bulk_len rc1 = -1" "unread rc1 @ F = stream frs" "length (buf rc1) \<le> length (buf rc)"
    obtain as where as: "args_of rc1 (pend rc @ as)" "fresh_copies (lib S) (heap srv) h1 as todo" using r(4) by (rule midway_args)
    have "pos rc1 \<le> length (buf rc1)" using r(4) by (simp add: midway_def)
    then have "read_complete S lf0 srv rc (Multi ws) frs F"
      unfolding read_complete_def using r(1,2,3,6,7) as ws len old by auto
    then show ?thesis ..
  qed
qed

lemma line_read:
  assumes inv: "srv_inv S srv (dbid rc)" and mid: "client_mid S srv rc (Line ws # frs) F" and ok: "frame_ok (lf0 = 1) bulk_max (Line ws)"
    and ne: "unread rc \<noteq> []" and b: "length (buf rc) < 2 ^ 62"
  shows "read_complete S lf0 srv rc (Line ws) frs F \<or> turn_wait S now lf0 self srv rc (Line ws # frs) F"
proof -
  note L = sys_lawsD [OF srv_invD(1) [OF inv]]
  have fl: "cl_flags (client rc) AND (CLIENT_CLOSE_AFTER_REPLY (lib S) OR CLIENT_CLOSE_ASAP (lib S)) = 0" "flag rc AND CLIENT_MASTER = 0"
    and t: "idle rc" "req_type rc = 0 \<or> req_type rc = PROTO_REQ_INLINE" "unread rc @ F = unwords ws @ crlf @ stream frs" using mid by (simp_all add: client_mid_def)
  have ok: "lf0 = 1" "ws \<noteq> []" "list_all plain_word ws" "length (unwords ws) < PROTO_INLINE_MAX_SIZE" using ok by simp_all
  have none: "pend rc = []" using t(1) by (simp add: idle_def)
  from read_line_progress [OF L(2,4) ok(2-4) t(1,2) fl(2) b ne t(3), of srv] show ?thesis
  proof (elim disjE exE conjE)
    fix rc1 h1 as assume r: "read_request S 1 srv rc = Inr (srv\<lparr>heap := h1\<rparr>, rc1, 0)" "unparsed rc1 = unparsed (rc\<lparr>req_type := PROTO_REQ_INLINE\<rparr>)"
      "args_of rc1 as" "fresh_copies (lib S) (heap srv) h1 as ws" "unread rc1 @ F = stream frs" "pos rc1 \<le> length (buf rc1)" "buf rc1 = buf rc"
    have "length w \<le> length (unwords ws)" if "w \<in> set ws" for w using that by (induction ws rule: unwords.induct) auto
    then have "list_all (\<lambda>w. int (length w) \<le> llong_max) ws" using ok(4) by (fastforce simp: list_all_iff PROTO_INLINE_MAX_SIZE_def)
    then have "read_complete S lf0 srv rc (Line ws) frs F" unfolding read_complete_def
      using r ok(1,2) none by (intro exI [of _ rc1] exI [of _ h1] exI [of _ PROTO_REQ_INLINE] exI [of _ as] exI [of _ "[]"] exI [of _ ws]) (simp add: request_args_def)
    then show ?thesis ..
  next
    let ?rc = "rc\<lparr>req_type := PROTO_REQ_INLINE\<rparr>"
    assume w: "length (stream frs) < length F" "read_request S 1 srv rc = Inr (srv, ?rc, -1)"
    have i: "idle ?rc" "unread ?rc = unread rc" "sent ?rc = sent rc"
      using t(1) by (simp_all add: idle_def unread_def sent_def buf_def pos_def)
    moreover have "pend ?rc = pend rc" using none i(1) by (simp add: idle_def)
    moreover have "client_mid S srv ?rc (Line ws # frs) F" using i(1,2) fl t(3) by (simp add: client_mid_def)
    ultimately have "turn_wait S now lf0 self srv rc (Line ws # frs) F" unfolding turn_wait_def
      using w fl(1) inv ok(1) by (intro conjI exI [of _ ?rc] exI [of _ "heap srv"]) (simp_all add: input_turn_def spares_same)
    then show ?thesis ..
  qed
qed

lemma frame_read:
  assumes "srv_inv S srv (dbid rc)" "client_mid S srv rc (fr # frs) F" "frame_ok (lf0 = 1) (proto_max_bulk_len srv) fr" "unread rc \<noteq> []" "length (buf rc) < 2 ^ 62"
  shows "read_complete S lf0 srv rc fr frs F \<or> turn_wait S now lf0 self srv rc (fr # frs) F"
proof (cases fr)
  case (Multi ws)
  then show ?thesis using multi_read assms by simp
next
  case (Line ws)
  then show ?thesis using line_read assms by blast
qed

text \<open>The loop serves exactly the requests that have arrived.\<close>

definition leaving :: "sys \<Rightarrow> redis_client \<Rightarrow> bool" where
  "leaving S rc \<longleftrightarrow> cl_flags (client rc) AND (CLIENT_CLOSE_AFTER_REPLY (lib S) OR CLIENT_CLOSE_ASAP (lib S)) \<noteq> 0 \<and> argc rc = 0 \<and> pos rc \<le> length (buf rc)"

definition ran_stream ::
  "sys \<Rightarrow> redis_server \<Rightarrow> redis_client \<Rightarrow> string list list \<Rightarrow> framed list \<Rightarrow> string \<Rightarrow> keyspace \<Rightarrow> string \<Rightarrow> redis_server \<Rightarrow> redis_client \<Rightarrow> bool" where
  "ran_stream S srv rc wss frs F m out srv' rc' \<longleftrightarrow> srv_inv S srv' (dbid rc) \<and> contents srv' (dbid rc) = m \<and>
     (\<exists>db h. srv' = (db_put srv (dbid rc) db)\<lparr>heap := h\<rparr>) \<and> (if list_ex quits wss then leaving S rc' else client_ok S srv' rc' frs F) \<and> dbid rc' = dbid rc \<and>
     sent rc' = sent rc @ out \<and> spares srv rc srv' rc' \<and>
     (if wss = [] then lastcmd rc' = lastcmd rc
      else \<exists>c. lastcmd rc' = Some c \<and> command_manager_lookup (command_dict S) (cmd_manager srv) (hd (last_served wss)) = Some c)"

text \<open>A client that takes leave is not served again: the loop stops in front of whatever else is in the buffer.\<close>

lemma leave_marks: "a \<noteq> 0 \<Longrightarrow> (x OR a) AND (a OR b) \<noteq> (0 :: 'w::len word)"
proof
  assume "a \<noteq> 0" "(x OR a) AND (a OR b) = 0"
  moreover have "a = a AND ((x OR a) AND (a OR b))" by (rule bit_eqI) (auto simp: bit_and_iff bit_or_iff)
  ultimately show False by simp
qed

lemma leaving_ends:
  assumes "leaving S rc" "0 < fuel"
  shows "redis_process_input_buffer S clock lf self fuel i srv rc = Some (Inr (srv, rc, if pos rc \<noteq> 0 then 1 else 0))"
  using assms by (cases fuel) (simp_all add: leaving_def input_turn_def)

lemma client_mid_rest:
  assumes "idle rc" "req_type rc = 0" "cl_flags (client rc) AND (CLIENT_CLOSE_AFTER_REPLY (lib S) OR CLIENT_CLOSE_ASAP (lib S)) = 0"
    "flag rc AND CLIENT_MASTER = 0" "unread rc @ F = stream frs" "list_all (frame_ok one pm) frs"
  shows "client_mid S srv rc frs F"
proof (cases frs)
  case (Cons fr frs')
  have "pend rc = []" using assms(1) by (simp add: idle_def)
  then show ?thesis using assms Cons unfolding client_mid_def
    by (cases fr) (auto simp: parsing_def request_args_def request_ok_def intro!: exI [of _ "[]"])
qed (use assms in \<open>simp add: client_mid_def\<close>)

lemma expected_nonempty: "todo \<noteq> [] \<Longrightarrow> expected bl todo \<noteq> []"
  by (cases todo) (simp_all add: expected_def)

lemma parsing_nonempty: "parsing L bs h0 todo rc h P \<Longrightarrow> P \<noteq> []"
  unfolding parsing_def using expected_nonempty by (metis append_is_Nil_conv list.distinct(1) request_eq)

text \<open>Nothing is unread: the first request has not arrived.\<close>

lemma nothing_due: "client_mid S srv rc frs F \<Longrightarrow> unread rc = [] \<Longrightarrow> due (length F) frs = []"
proof (cases frs)
  case (Cons fr frs')
  assume mid: "client_mid S srv rc frs F" "unread rc = []"
  have "\<exists>P. P \<noteq> [] \<and> F = P @ stream frs'"
  proof (cases fr)
    case (Multi ws)
    then show ?thesis using mid Cons unfolding client_mid_def by (auto dest: parsing_nonempty)
  next
    case (Line ws)
    then show ?thesis using mid Cons unfolding client_mid_def by (intro exI [of _ "unwords ws @ crlf"]) simp
  qed
  then show ?thesis using Cons by auto
qed simp

lemma frame_ok_mono: "list_all (frame_ok one pm) frs \<Longrightarrow> (one \<Longrightarrow> one') \<Longrightarrow> list_all (frame_ok one' pm) frs"
proof (induction frs)
  case (Cons fr frs)
  then show ?case by (cases fr) auto
qed simp

lemma serve_stream:
  assumes "srv_inv S srv (dbid rc)" "table_ready S srv" "client_mid S srv rc frs F" "list_all (frame_ok (\<forall>i. lf i = 1) (proto_max_bulk_len srv)) frs"
    "length (buf rc) < 2 ^ 62" "spec_session (lib S) clock i (map frame_words (due (length F) frs)) (contents srv (dbid rc)) = Some (m, out)"
    "length (due (length F) frs) < fuel"
  shows "\<exists>srv' rc'. redis_process_input_buffer S clock lf self fuel i srv rc = Some (Inr (srv', rc', if pos rc' \<noteq> 0 then 1 else 0)) \<and>
    ran_stream S srv rc (map frame_words (due (length F) frs)) (drop (length (due (length F) frs)) frs) F m out srv' rc'"
  using assms
proof (induction frs arbitrary: fuel i srv rc out)
  case Nil
  then have "length (buf rc) \<le> pos rc" by (simp add: client_mid_def unread_def)
  then show ?case using Nil by (cases fuel) (auto simp: ran_stream_def client_ok_def intro!: exI [of _ "dbs srv ! dbid rc"] exI [of _ "heap srv"])
next
  case (Cons fr frs)
  note inv = Cons.prems(1)
  obtain fuel' where fuel: "fuel = Suc fuel'" using Cons.prems(7) by (cases fuel) auto
  have fl: "cl_flags (client rc) AND (CLIENT_CLOSE_AFTER_REPLY (lib S) OR CLIENT_CLOSE_ASAP (lib S)) = 0" "flag rc AND CLIENT_MASTER = 0"
    using Cons.prems(3) by (simp_all add: client_mid_def)
  have ok: "frame_ok (lf i = 1) (proto_max_bulk_len srv) fr" using frame_ok_mono [OF Cons.prems(4)] by simp
  have idle_run: ?case if "due (length F) (fr # frs) = []"
    "redis_process_input_buffer S clock lf self fuel i srv rc = Some (Inr (srv\<lparr>heap := h1\<rparr>, rc1, if pos rc1 \<noteq> 0 then 1 else 0))"
    "srv_inv S (srv\<lparr>heap := h1\<rparr>) (dbid rc)" "contents (srv\<lparr>heap := h1\<rparr>) (dbid rc) = contents srv (dbid rc)"
    "client_mid S (srv\<lparr>heap := h1\<rparr>) rc1 (fr # frs) F" "dbid rc1 = dbid rc" "sent rc1 = sent rc" "lastcmd rc1 = lastcmd rc" "spares srv rc (srv\<lparr>heap := h1\<rparr>) rc1" for h1 rc1
    unfolding that(1) using that(2-9) that(1) Cons.prems(6)
    by (auto simp: that(1) ran_stream_def client_ok_def simp del: due.simps intro!: exI [of _ "dbs srv ! dbid rc"] exI [of _ h1])
  show ?case
  proof (cases "unread rc = []")
    case True
    then have "redis_process_input_buffer S clock lf self fuel i srv rc = Some (Inr (srv, rc, if pos rc \<noteq> 0 then 1 else 0))"
      using fuel by (simp add: unread_def)
    then show ?thesis using idle_run [of "heap srv" rc] nothing_due [OF Cons.prems(3) True] Cons.prems(1,3) by simp
  next
    case False
    then have loop: "\<not> length (buf rc) \<le> pos rc" by (simp add: unread_def)
    from frame_read [OF inv Cons.prems(3) ok False Cons.prems(5), of "clock i" self] show ?thesis
    proof
      assume "turn_wait S (clock i) (lf i) self srv rc (fr # frs) F"
      then obtain rc1 h1 where w: "due (length F) (fr # frs) = []" "input_turn S (clock i) (lf i) self srv rc = Inr (srv\<lparr>heap := h1\<rparr>, rc1, Break)"
        "srv_inv S (srv\<lparr>heap := h1\<rparr>) (dbid rc)" "contents (srv\<lparr>heap := h1\<rparr>) (dbid rc) = contents srv (dbid rc)"
        "client_mid S (srv\<lparr>heap := h1\<rparr>) rc1 (fr # frs) F" "dbid rc1 = dbid rc" "sent rc1 = sent rc" "lastcmd rc1 = lastcmd rc" "spares srv rc (srv\<lparr>heap := h1\<rparr>) rc1"
        unfolding turn_wait_def by blast
      show ?thesis by (rule idle_run [OF w(1) _ w(3-9)]) (use loop fuel w(2) in simp)
    next
      assume "read_complete S (lf i) srv rc fr frs F"
      then obtain rc1 h1 rt as ts todo where r: "read_request S (lf i) srv rc = Inr (srv\<lparr>heap := h1\<rparr>, rc1, 0)" "unparsed rc1 = unparsed (rc\<lparr>req_type := rt\<rparr>)"
        "pos rc1 \<le> length (buf rc1)" "length (buf rc1) \<le> length (buf rc)" "args_of rc1 (pend rc @ as)" "fresh_copies (lib S) (heap srv) h1 as todo"
        "frame_words fr = ts @ todo" "todo \<noteq> []" "list_all (\<lambda>w. int (length w) \<le> llong_max) todo"
        "request_args (lib S) (dbs srv ! dbid rc) (heap srv) (pend rc) ts" "unread rc1 @ F = stream frs"
        unfolding read_complete_def by blast
      have d: "due (length F) (fr # frs) = fr # due (length F) frs" using arg_cong [OF r(11), of length] by simp
      obtain m1 o1 where s: "spec_request (lib S) (clock i) (frame_words fr) (contents srv (dbid rc)) = Some (m1, o1)"
        using Cons.prems(6) unfolding d by (auto split: option.split_asm)
      have ne: "ts @ todo \<noteq> []" using r(8) by simp
      obtain srv1 rc2 db h where n: "input_turn S (clock i) (lf i) self srv rc = Inr (srv1, rc2, Next)" "srv_inv S srv1 (dbid rc)"
        "contents srv1 (dbid rc) = m1" "srv1 = (db_put srv (dbid rc) db)\<lparr>heap := h\<rparr>" "idle rc2" "req_type rc2 = 0" "dbid rc2 = dbid rc"
        "unread rc2 = unread rc1" "cl_flags (client rc2) = (if quits (frame_words fr) then cl_flags (client rc) OR CLIENT_CLOSE_AFTER_REPLY (lib S) else cl_flags (client rc))"
        "sent rc2 = sent rc @ o1" "spares srv rc srv1 rc2" "lastcmd rc2 \<noteq> None" "flag rc2 = flag rc" "buf rc2 = buf rc1"
        "lastcmd rc2 = command_manager_lookup (command_dict S) (cmd_manager srv) (hd (frame_words fr))"
        using turn_serves [OF inv Cons.prems(2) fl(1) r(1-3,5,6,10) ne r(9) s [unfolded r(7)], of self, folded r(7)] by blast
      have turn: "redis_process_input_buffer S clock lf self fuel i srv rc = redis_process_input_buffer S clock lf self fuel' (Suc i) srv1 rc2"
        using loop fuel n(1) by simp
      show ?thesis
      proof (cases "quits (frame_words fr)")
        case True
        have "leaving S rc2" using n(5,9) True leave_marks [of "CLIENT_CLOSE_AFTER_REPLY (lib S)"] sys_lawsD(6) [OF srv_invD(1) [OF inv]] by (simp add: leaving_def idle_def flag_laws_def)
        moreover have "m1 = m" "o1 = out" using Cons.prems(6) s True unfolding d by simp_all
        ultimately show ?thesis unfolding d turn using leaving_ends [of S rc2 fuel'] True n Cons.prems(7) fuel d
          by (intro exI [of _ srv1] exI [of _ rc2]) (auto simp: ran_stream_def)
      next
        case False
        then obtain o2 where s2: "spec_session (lib S) clock (Suc i) (map frame_words (due (length F) frs)) m1 = Some (m, o2)" "out = o1 @ o2"
          using Cons.prems(6) s unfolding d by auto
        have srv1: "table_ready S srv1" "proto_max_bulk_len srv1 = proto_max_bulk_len srv" using Cons.prems(2) by (simp_all add: n(4) db_put_def table_ready_def)
        have mid: "client_mid S srv1 rc2 frs F"
          by (rule client_mid_rest [OF n(5,6), where one = "\<forall>i. lf i = 1" and pm = "proto_max_bulk_len srv"]) (use n(8,9,13) fl r(11) Cons.prems(4) False in simp_all)
        have "length (buf rc2) < 2 ^ 62" using n(14) r(4) Cons.prems(5) by simp
        from Cons.IH [OF _ srv1(1) mid _ this, of "Suc i" o2 fuel'] obtain srv' rc' where
          l: "redis_process_input_buffer S clock lf self fuel' (Suc i) srv1 rc2 = Some (Inr (srv', rc', if pos rc' \<noteq> 0 then 1 else 0))"
          "ran_stream S srv1 rc2 (map frame_words (due (length F) frs)) (drop (length (due (length F) frs)) frs) F m o2 srv' rc'"
          using n(2,3,7) srv1(2) s2(1) Cons.prems(4,7) fuel d by auto
        have "ran_stream S srv rc (frame_words fr # map frame_words (due (length F) frs)) (drop (length (due (length F) frs)) frs) F m out srv' rc'"
          using l(2) n(7,10,12,15) s2(2) spares_trans [OF n(11)] False unfolding ran_stream_def by (auto simp: n(4) db_put_def)
        then show ?thesis unfolding d turn using l(1) False by auto
      qed
    qed
  qed
qed

section \<open>A session\<close>

text \<open>A client that waits for a request on a server that is ready for it.\<close>

definition in_session :: "sys \<Rightarrow> redis_server \<Rightarrow> redis_client \<Rightarrow> bool" where
  "in_session S srv rc \<longleftrightarrow> srv_inv S srv (dbid rc) \<and> table_ready S srv \<and> idle rc \<and> req_type rc = 0 \<and>
     cl_flags (client rc) AND (CLIENT_CLOSE_AFTER_REPLY (lib S) OR CLIENT_CLOSE_ASAP (lib S)) = 0 \<and> flag rc AND CLIENT_MASTER = 0"

lemma session_stream:
  assumes ses: "in_session S srv rc" and ok: "list_all (frame_ok (\<forall>i. lf i = 1) (proto_max_bulk_len srv)) frs" "unread rc = stream frs" "length (buf rc) < 2 ^ 62"
    and spec: "spec_session (lib S) clock i (map frame_words frs) (contents srv (dbid rc)) = Some (m', out)" "length frs < fuel"
  obtains srv' rc' where "redis_process_input_buffer S clock lf self fuel i srv rc = Some (Inr (srv', rc', if pos rc' \<noteq> 0 then 1 else 0))"
    "ran_stream S srv rc (map frame_words frs) [] [] m' out srv' rc'"
    "\<not> list_ex quits (map frame_words frs) \<Longrightarrow> in_session S srv' rc' \<and> unread rc' = []"
proof -
  have t: "srv_inv S srv (dbid rc)" "table_ready S srv" using ses by (simp_all add: in_session_def)
  have "client_mid S srv rc frs []"
    by (rule client_mid_rest [where one = "\<forall>i. lf i = 1" and pm = "proto_max_bulk_len srv"]) (use ses ok in \<open>simp_all add: in_session_def\<close>)
  from serve_stream [OF t this ok(1,3), of clock i m' out fuel self] spec obtain srv' rc' where
    l: "redis_process_input_buffer S clock lf self fuel i srv rc = Some (Inr (srv', rc', if pos rc' \<noteq> 0 then 1 else 0))"
    "ran_stream S srv rc (map frame_words frs) [] [] m' out srv' rc'" by (auto simp: due_all)
  have "in_session S srv' rc' \<and> unread rc' = []" if "\<not> list_ex quits (map frame_words frs)"
    using l(2) t(2) that by (auto simp: ran_stream_def client_ok_def client_mid_def in_session_def)
  then show thesis using that [OF l] by blast
qed

lemma table_ready_loaded:
  assumes "sys_laws S" "cm_wf (cmd_manager srv)" "is_module_command (cm_map (cmd_manager srv) ''set'') m Set_command"
    "is_module_command (cm_map (cmd_manager srv) ''get'') m Get_command"
    "\<forall>n. n \<noteq> ''set'' \<longrightarrow> n \<noteq> ''get'' \<longrightarrow> cm_map (cmd_manager srv) n = map_of (map (\<lambda>c. (cmd_name c, c)) registered_builtins) n"
  shows "table_ready S srv"
proof -
  have look: "command_manager_lookup (command_dict S) (cmd_manager srv) n = cm_map (cmd_manager srv) (map to_lower n)" for n
    by (rule command_manager_lookup_spec [OF sys_lawsD(8) [OF assms(1)] assms(2)])
  have "cm_map (cmd_manager srv) ''ping'' = Some (registered_builtins ! 2)" "cm_map (cmd_manager srv) ''expire'' = Some (registered_builtins ! 4)"
    "cm_map (cmd_manager srv) ''info'' = Some (registered_builtins ! 3)" "cm_map (cmd_manager srv) ''quit'' = Some (registered_builtins ! 0)"
    "cm_map (cmd_manager srv) ''module'' = Some (registered_builtins ! 1)"
    using assms(5) by (simp_all add: registered_builtins_def builtin_def)
  then show ?thesis unfolding table_ready_def look using assms(3,4) by (auto simp: registered_builtins_def builtin_def)
qed

lemma init_then_load:
  assumes "sys_laws S" "module_file_at S path = File_onload Onload_latte"
  obtains srv0 srv1 where "init_redis_server S rs = Inr srv0" "module_load S srv0 path = Inr (srv1, True)" "table_ready S srv1"
    "proto_max_bulk_len srv1 = 1048576" "dbs srv1 = dbs rs" "heap srv1 = heap rs" "hz srv1 = hz rs" "server_metric srv1 = metric_new (metric_dict S) 16"
proof -
  obtain srv0 where i: "init_redis_server S rs = Inr srv0" "api_ready S srv0" "cm_wf (cmd_manager srv0)"
    "cm_map (cmd_manager srv0) = map_of (map (\<lambda>c. (cmd_name c, c)) registered_builtins)" "modules srv0 = dict_new (module_dict S)"
    using init_redis_server_spec [OF assms(1)] by blast
  have none: "cm_map (cmd_manager srv0) ''set'' = None" "cm_map (cmd_manager srv0) ''get'' = None"
    unfolding i(4) by (simp_all add: registered_builtins_def builtin_def)
  obtain cm d m where l: "module_load S srv0 path = Inr (srv0\<lparr>cmd_manager := cm, modules := d\<rparr>, True)" "cm_wf cm"
    "is_module_command (cm_map cm ''set'') ''latte'' Set_command" "is_module_command (cm_map cm ''get'') ''latte'' Get_command"
    "\<forall>n. n \<noteq> ''set'' \<longrightarrow> n \<noteq> ''get'' \<longrightarrow> cm_map cm n = cm_map (cmd_manager srv0) n"
    by (rule load_latte_spec [OF assms(1) i(2,3) none i(5) assms(2)])
  have "table_ready S (srv0\<lparr>cmd_manager := cm, modules := d\<rparr>)"
    by (rule table_ready_loaded [OF assms(1), where m = "''latte''"]) (use l(2-5) i(4) in simp_all)
  moreover have "proto_max_bulk_len srv0 = 1048576" "dbs srv0 = dbs rs" "heap srv0 = heap rs" "hz srv0 = hz rs"
    "server_metric srv0 = metric_new (metric_dict S) 16" using i(1) by (auto simp: init_redis_server_def res_simps register_api_fields)
  ultimately show thesis using that [OF i(1) l(1)] by simp
qed

section \<open>Properties\<close>

text \<open>
  C3. The server implements its specification: a buffer of complete requests, arrays of strings and lines of words mixed, for PING, SET, GET, EXPIRE, INFO, QUIT and the silent
  sub-commands of MODULE, wrong numbers of arguments included, is served in order, the bytes sent are exactly the replies of the specification one after the other, and the database
  ends up with exactly the values and deadlines of the specification. Without a QUIT all is read to the last byte, and server and client are ready for the next request; after a
  QUIT the client is marked for closing and nothing behind it is served. One turn of the loop per request is enough. For lines the
  uninitialised counter of line feeds has to hold a 1.
\<close>

theorem session_refines:
  assumes "in_session S srv rc" "list_all (frame_ok (\<forall>i. lf i = 1) (proto_max_bulk_len srv)) frs" "unread rc = stream frs" "length (buf rc) < 2 ^ 62"
    "spec_session (lib S) clock i (map frame_words frs) (contents srv (dbid rc)) = Some (m', out)" "length frs < fuel"
  shows "\<exists>srv' rc'. redis_process_input_buffer S clock lf self fuel i srv rc = Some (Inr (srv', rc', if pos rc' \<noteq> 0 then 1 else 0)) \<and>
     (if list_ex quits (map frame_words frs) then leaving S rc' else in_session S srv' rc' \<and> unread rc' = []) \<and>
     dbid rc' = dbid rc \<and> sent rc' = sent rc @ out \<and> contents srv' (dbid rc) = m'"
proof -
  obtain srv' rc' where "redis_process_input_buffer S clock lf self fuel i srv rc = Some (Inr (srv', rc', if pos rc' \<noteq> 0 then 1 else 0))"
    "ran_stream S srv rc (map frame_words frs) [] [] m' out srv' rc'" "\<not> list_ex quits (map frame_words frs) \<Longrightarrow> in_session S srv' rc' \<and> unread rc' = []"
    by (rule session_stream [OF assms, of self]) blast
  then show ?thesis by (auto simp: ran_stream_def)
qed

section \<open>Witnesses\<close>

lemma contents_w: "dbs srv ! 0 = db_ex2 \<Longrightarrow> heap srv = heap_w ''k'' \<Longrightarrow> contents srv 0 = [''k'' \<mapsto> (''v'', Some 50)]"
  using db_ex2 heap_w_cells(1) [of "''k''"] by (auto simp: contents_def text_at_def mk_string_obj_def fun_eq_iff)

lemma server_ready_ex:
  obtains srv where "srv_inv sys_ref srv 0" "table_ready sys_ref srv" "proto_max_bulk_len srv = 1048576" "contents srv 0 = [''k'' \<mapsto> (''v'', Some 50)]"
proof -
  have onload: "module_file_at sys_ref ''latte.so'' = File_onload Onload_latte" by (simp add: sys_ref_def)
  obtain srv0 srv where s: "module_load sys_ref srv0 ''latte.so'' = Inr (srv, True)" "table_ready sys_ref srv"
    "proto_max_bulk_len srv = 1048576" "dbs srv = dbs (server_w ''k'')" "heap srv = heap (server_w ''k'')" "hz srv = hz (server_w ''k'')"
    by (rule init_then_load [OF sys_ref_laws onload, of "server_w ''k''"])
  have "srv_inv sys_ref srv 0" using srv_inv_w [of "''k''" "[]"] s(4-6) by (simp add: srv_inv_def)
  then show thesis using that s(2,3) contents_w s(4,5) by simp
qed

definition frames_ex :: "framed list" where
  "frames_ex = [Multi [''SET'', ''a'', ''1''], Line [''get'', ''a''], Multi [''GET'', ''k''], Line [''info''], Line [''quit''], Line [''ping'']]"

lemma frames_ex:
  "map frame_words frames_ex = [[''SET'', ''a'', ''1''], [''get'', ''a''], [''GET'', ''k''], [''info''], [''quit''], [''ping'']]" "length frames_ex = 6"
  "list_all (frame_ok True 1048576) frames_ex" "length (stream frames_ex) < 2 ^ 62"
proof -
  have d: "dec 1 = ''1''" "dec 2 = ''2''" "dec 3 = ''3''" by code_simp+
  show "length (stream frames_ex) < 2 ^ 62" by (simp add: frames_ex_def request_eq d)
qed (simp_all add: frames_ex_def request_ok_def plain_word_def plain_char_def PROTO_INLINE_MAX_SIZE_def)

theorem session_refines_witness:
  "\<exists>srv srv' rc'. redis_process_input_buffer sys_ref (\<lambda>i. 60 + int i) (\<lambda>_. 1) 7 7 0 srv (visitor (stream frames_ex)) =
     Some (Inr (srv', rc', if pos rc' \<noteq> 0 then 1 else 0)) \<and> contents srv 0 = [''k'' \<mapsto> (''v'', Some 50)] \<and> leaving sys_ref rc' \<and>
     sent rc' = sent (visitor (stream frames_ex)) @ ''+OK'' @ crlf @ ''$1'' @ crlf @ ''1'' @ crlf @ ''*-1'' @ crlf @ ''Not implemented'' @ NUL # ''+OK'' @ crlf \<and>
     contents srv' 0 = [''a'' \<mapsto> (''1'', None)]"
proof -
  let ?rc = "visitor (stream frames_ex)" and ?out = "''+OK'' @ crlf @ ''$1'' @ crlf @ ''1'' @ crlf @ ''*-1'' @ crlf @ ''Not implemented'' @ NUL # ''+OK'' @ crlf"
  obtain srv where s: "srv_inv sys_ref srv 0" "table_ready sys_ref srv" "proto_max_bulk_len srv = 1048576" "contents srv 0 = [''k'' \<mapsto> (''v'', Some 50)]"
    by (rule server_ready_ex)
  then have ses: "in_session sys_ref srv ?rc" and c: "contents srv 0 = [''k'' \<mapsto> (''v'', Some 50)]" by (simp_all add: in_session_def)
  have ok: "list_all (frame_ok (\<forall>i::nat. (1::int) = 1) (proto_max_bulk_len srv)) frames_ex" "length (buf ?rc) < 2 ^ 62"
    using s(3) frames_ex(3,4) by simp_all
  let ?m0 = "[''k'' \<mapsto> (''v'', Some 50)] :: keyspace" and ?m2 = "[''a'' \<mapsto> (''1'', None)] :: keyspace"
  let ?m1 = "?m0(''a'' \<mapsto> (''1'', None))"
  have low: "map to_lower ''SET'' = ''set''" "map to_lower ''get'' = ''get''" "map to_lower ''GET'' = ''get''" "map to_lower ''info'' = ''info''"
    "map to_lower ''quit'' = ''quit''" "dec 1 = ''1''" by code_simp+
  have gone: "?m1(''k'' := None) = ?m2" by (auto simp: fun_eq_iff)
  have q: "\<not> quits [''SET'', ''a'', ''1'']" "\<not> quits [''get'', ''a'']" "\<not> quits [''GET'', ''k'']" "\<not> quits [''info'']" "quits [''quit'']"
    unfolding quits_def list.sel low by simp_all
  have r: "spec_request latte_c_ref 60 [''SET'', ''a'', ''1''] ?m0 = Some (?m1, ''+OK'' @ crlf)"
    "spec_request latte_c_ref 61 [''get'', ''a''] ?m1 = Some (?m1, ''$1'' @ crlf @ ''1'' @ crlf)"
    "spec_request latte_c_ref 62 [''GET'', ''k''] ?m1 = Some (?m1(''k'' := None), ''*-1'' @ crlf)"
    "spec_request latte_c_ref 63 [''info''] ?m2 = Some (?m2, ''Not implemented'' @ [NUL])"
    "spec_request latte_c_ref 64 [''quit''] ?m2 = Some (?m2, ''+OK'' @ crlf)"
    unfolding spec_request_def list.case low by (simp_all add: spec_command_def spec_set_def spec_get_def purge_def low(6))
  have "spec_session latte_c_ref (\<lambda>i. 60 + int i) 0 [[''SET'', ''a'', ''1''], [''get'', ''a''], [''GET'', ''k''], [''info''], [''quit''], [''ping'']] ?m0 = Some (?m2, ?out)"
    using r q unfolding gone by simp
  then have spec: "spec_session (lib sys_ref) (\<lambda>i. 60 + int i) 0 (map frame_words frames_ex) (contents srv (dbid ?rc)) = Some (?m2, ?out)"
    using c by (simp add: frames_ex(1) del: spec_session.simps)
  have "list_ex quits (map frame_words frames_ex)" unfolding frames_ex(1) using q(5) by simp
  then show ?thesis using session_refines [OF ses ok(1) visitor_simps(3) ok(2) spec, of 7 7] c unfolding visitor_simps(10) frames_ex(2) by fastforce
qed

end
