(* ===== verification/Startup.thy ===== *)
theory Startup
  imports Session
begin

text \<open>
  How the process comes up: the mode and the arguments of \<open>src/main.c\<close>, the configuration of
  \<open>src/redis_config/config.c\<close>, the path handling and \<open>start_redis_server\<close> of \<open>src/redis/server.c\<close>, and the
  two periodic tasks of \<open>src/redis/crons.c\<close>. The configuration manager that parses files and arguments, the
  working directory and the clock are parameters.
\<close>

section \<open>Paths\<close>

text \<open>
  The inner loop of \<open>get_absolute_path\<close>: from position \<open>p\<close> back to the last slash, counting. It looks at no bound,
  so without a slash it leaves the string.
\<close>

fun scan_back :: "string \<Rightarrow> nat \<Rightarrow> nat \<Rightarrow> nat res" where
  "scan_back s 0 trimlen = (if s ! 0 = CHR ''/'' then Inr trimlen else Inl (Out_of_bounds ''abspath''))"
| "scan_back s (Suc p) trimlen = (if s ! Suc p = CHR ''/'' then Inr trimlen else scan_back s p (Suc trimlen))"

fun strip_parents :: "string \<Rightarrow> string \<Rightarrow> (string \<times> string) res" where
  "strip_parents (c1 # c2 # c3 # relpath) abspath =
     (if c1 = CHR ''.'' \<and> c2 = CHR ''.'' \<and> c3 = CHR ''/'' then
        res_bind (if 1 < length abspath
                  then res_bind (scan_back abspath (length abspath - 2) 1) (\<lambda>trimlen. Inr (take (length abspath - trimlen) abspath))
                  else Inr abspath) (\<lambda>abspath. strip_parents relpath abspath)
      else Inr (c1 # c2 # c3 # relpath, abspath))"
| "strip_parents relpath abspath = Inr (relpath, abspath)"

text \<open>Spaces, line ends and tabs are trimmed off; \<open>None\<close> is the NULL of a failing \<open>getcwd\<close>.\<close>

definition get_absolute_path :: "latte_c \<Rightarrow> string option \<Rightarrow> string \<Rightarrow> string option res" where
  "get_absolute_path L getcwd filename =
     (let relpath = sds_trim L (c_string filename) [CHR '' '', CR, LF, CHR 0x09] in
      if byte_at relpath 0 = CHR ''/'' then Inr (Some relpath)
      else case getcwd of
        None \<Rightarrow> Inr None
      | Some cwd \<Rightarrow>
          let abspath = c_string cwd;
              abspath = (if abspath \<noteq> [] \<and> last abspath \<noteq> CHR ''/'' then abspath @ ''/'' else abspath)
          in res_bind (strip_parents relpath abspath) (\<lambda>(relpath, abspath). Inr (Some (abspath @ relpath))))"

section \<open>Configuration\<close>

datatype log_level = LOG_TRACE | LOG_DEBUG | LOG_INFO | LOG_WARN | LOG_ERROR | LOG_FATAL

definition log_level_enum_list :: "(string \<times> log_level) list" where
  "log_level_enum_list =
     [(''trace'', LOG_TRACE), (''debug'', LOG_DEBUG), (''info'', LOG_INFO), (''warn'', LOG_WARN), (''error'', LOG_ERROR), (''fatal'', LOG_FATAL)]"

record module_entry =
  path :: string
  margs :: "string list"

record server_config =
  port :: int
  bind_addrs :: "string list option"
  tcp_backlog :: int
  logfile :: "string option"
  log_level :: log_level
  max_clients :: int
  use_async_io :: bool
  event_loop_size :: int
  config_hz :: int
  config_db_num :: int
  load_modules :: "module_entry list option"
  slowlog_log_slower_than :: int
  slowlog_max_len :: int

text \<open>A rule of the configuration manager: the kind of its value, its limits and its default.\<close>

datatype config_rule = Sds_array_rule string | Numeric_rule int int int | Sds_rule | Enum_rule "(string \<times> log_level) list" string | Load_module_rule

definition server_config_rules :: "(string \<times> config_rule) list" where
  "server_config_rules =
     [(''bind'', Sds_array_rule ''* -::*''),
      (''port'', Numeric_rule 0 65535 6379),
      (''tcp-backlog'', Numeric_rule 0 65535 512),
      (''log-file'', Sds_rule),
      (''log-level'', Enum_rule log_level_enum_list ''info''),
      (''max-clients'', Numeric_rule 0 65535 10000),
      (''use-async-io'', Numeric_rule 0 1 0),
      (''event-loop-size'', Numeric_rule 0 65535 1024),
      (''hz'', Numeric_rule 0 65535 10),
      (''db-num'', Numeric_rule 0 65535 16),
      (''load-module'', Load_module_rule),
      (''slowlog-log-slower-than'', Numeric_rule 0 llong_max 10000),
      (''slowlog-max-len'', Numeric_rule 0 llong_max 128)]"

text \<open>The configuration manager of the library: what it does with the rules it is given.\<close>

record config_lib =
  config_init_all_data :: "(string \<times> config_rule) list \<Rightarrow> server_config \<Rightarrow> server_config \<times> nat"
  config_load_file :: "(string \<times> config_rule) list \<Rightarrow> string option \<Rightarrow> server_config \<Rightarrow> server_config option"
  config_load_argv :: "(string \<times> config_rule) list \<Rightarrow> string list \<Rightarrow> server_config \<Rightarrow> server_config option"

definition initial_config :: server_config where
  "initial_config =
     \<lparr>port = 6379, bind_addrs = None, tcp_backlog = 512, logfile = None, log_level = LOG_INFO, max_clients = 10000, use_async_io = False,
      event_loop_size = 1024, config_hz = 10, config_db_num = 16, load_modules = None, slowlog_log_slower_than = 10000, slowlog_max_len = 128\<rparr>"

definition server_config_new :: "config_lib \<Rightarrow> server_config res" where
  "server_config_new C =
     (let (cfg, n) = config_init_all_data C server_config_rules initial_config
      in res_bind (latte_assert (n = 13) ''config_init_all_data failed'') (\<lambda>_. Inr cfg))"

subsection \<open>The load-module directive\<close>

definition module_entry_new :: "string \<Rightarrow> string list \<Rightarrow> module_entry" where
  "module_entry_new p args = \<lparr>path = p, margs = map c_string args\<rparr>"

text \<open>The loop takes from the end of \<open>new_modules\<close> while it compares its counter with the size that shrinks.\<close>

function move_modules :: "nat \<Rightarrow> 'a list \<Rightarrow> 'a list \<Rightarrow> 'a list" where
  "move_modules i new_modules old_modules =
     (if i < length new_modules then move_modules (Suc i) (butlast new_modules) (old_modules @ [last new_modules]) else old_modules)"
  by pat_completeness auto
termination by (relation "measure (\<lambda>(i, new_modules, _). length new_modules - i)") auto

definition config_load_modules_add :: "module_entry list option \<Rightarrow> module_entry list \<Rightarrow> module_entry list option" where
  "config_load_modules_add data_ctx new_modules =
     (case data_ctx of
        None \<Rightarrow> Some new_modules
      | Some old_modules \<Rightarrow> Some (move_modules 0 new_modules old_modules))"

definition config_load_modules_get :: "module_entry list option \<Rightarrow> module_entry list option" where
  "config_load_modules_get data_ctx = data_ctx"

definition config_load_modules_load :: "string list \<Rightarrow> module_entry list res" where
  "config_load_modules_load av =
     (case av of
        [] \<Rightarrow> Inl (Out_of_bounds ''argv[0]'')
      | a # as \<Rightarrow> Inr [module_entry_new (c_string a) as])"

definition config_load_modules_cmp :: "int res" where
  "config_load_modules_cmp = res_bind (latte_assert False ''config_load_modules_cmp not implemented'') (\<lambda>_. Inr 1)"

definition config_load_modules_is_valid :: "int res" where
  "config_load_modules_is_valid = res_bind (latte_assert False ''config_load_modules_is_valid not implemented'') (\<lambda>_. Inr 1)"

definition config_load_modules_to_sds :: "string option res" where
  "config_load_modules_to_sds = res_bind (latte_assert False ''config_load_modules_to_sds not implemented'') (\<lambda>_. Inr None)"

section \<open>Periodic tasks\<close>

datatype cron_proc = Update_cache_time_cron | Update_metric_cron

record cron =
  cron_fn :: cron_proc
  period :: int

definition update_cache_time :: "int \<Rightarrow> redis_server \<Rightarrow> redis_server" where
  "update_cache_time ustime rs = rs\<lparr>unixtime := ustime\<rparr>"

definition update_metric_cron :: "sys \<Rightarrow> int \<Rightarrow> redis_server \<Rightarrow> redis_server res" where
  "update_metric_cron S ustime rs =
     res_bind (metric_track_instantaneous (metric_dict S) (server_metric rs) ''command'' (metric_stat_numcommands rs) ustime 1000000)
       (\<lambda>m. Inr (rs\<lparr>server_metric := m\<rparr>))"

definition init_redis_server_crons :: "cron list" where
  "init_redis_server_crons = [\<lparr>cron_fn = Update_cache_time_cron, period = 1\<rparr>, \<lparr>cron_fn = Update_metric_cron, period = 100\<rparr>]"

text \<open>What the library's scheduler does when a task is due.\<close>

definition run_cron :: "sys \<Rightarrow> int \<Rightarrow> cron_proc \<Rightarrow> redis_server \<Rightarrow> redis_server res" where
  "run_cron S ustime c rs =
     (case c of
        Update_cache_time_cron \<Rightarrow> Inr (update_cache_time ustime rs)
      | Update_metric_cron \<Rightarrow> update_metric_cron S ustime rs)"

section \<open>Starting the server\<close>

text \<open>What \<open>start_redis_server\<close> hands to the network layer of the library.\<close>

record latte_server =
  net_maxclients :: int
  net_event_loop_size :: int
  net_tcp_backlog :: int
  net_port :: int
  net_bind :: "string list option"
  net_use_async_io :: bool

record daemon =
  redis :: redis_server
  server :: latte_server
  exec_argv :: "string list"
  executable :: "string option"
  configfile :: "string option"
  config :: server_config
  db_num :: int
  crons :: "cron list"

text \<open>
  The configuration a command line gives: the file named by the first argument that is not an option, then the
  options. \<open>None\<close> is the jump to \<open>fail\<close>.
\<close>

definition load_config ::
  "latte_c \<Rightarrow> config_lib \<Rightarrow> string option \<Rightarrow> server_config \<Rightarrow> string list \<Rightarrow> (server_config \<times> string option) option res" where
  "load_config L C getcwd cfg av =
     (if length av \<le> 1 then Inr (Some (cfg, None))
      else if byte_at (av ! 1) 0 \<noteq> CHR ''-'' then
        res_bind (get_absolute_path L getcwd (av ! 1)) (\<lambda>conf.
        case config_load_file C server_config_rules conf cfg of
          None \<Rightarrow> Inr None
        | Some cfg \<Rightarrow> Inr (map_option (\<lambda>cfg. (cfg, conf)) (config_load_argv C server_config_rules (drop 2 av) cfg)))
      else Inr (map_option (\<lambda>cfg. (cfg, None)) (config_load_argv C server_config_rules (drop 1 av) cfg)))"

text \<open>
  The steps in their order; \<open>rs\<close> is the static memory of the server, \<open>None\<close> the result 0. The last step, the event loop of
  the library, is not part of it. The two arguments of \<open>slowlog_manager_new\<close> are in the order of the source.
\<close>

definition start_redis_server ::
  "sys \<Rightarrow> config_lib \<Rightarrow> string option \<Rightarrow> int \<Rightarrow> redis_server \<Rightarrow> string list \<Rightarrow> daemon option res" where
  "start_redis_server S C getcwd ustime rs av =
     res_bind (init_redis_server S rs) (\<lambda>rs.
     res_bind (if av = [] then Inl (Null_deref ''argv[0]'') else get_absolute_path (lib S) getcwd (av ! 0)) (\<lambda>exe.
     res_bind (server_config_new C) (\<lambda>cfg.
     res_bind (load_config (lib S) C getcwd cfg av) (\<lambda>loaded.
     case loaded of
       None \<Rightarrow> Inr None
     | Some (cfg, conf) \<Rightarrow>
         res_bind (init_redis_modules S rs (map_option (map path) (load_modules cfg))) (\<lambda>rs.
         let net = \<lparr>net_maxclients = max_clients cfg, net_event_loop_size = event_loop_size cfg, net_tcp_backlog = tcp_backlog cfg,
                    net_port = port cfg, net_bind = bind_addrs cfg, net_use_async_io = use_async_io cfg\<rparr>;
             num = wrap32 (config_db_num cfg);
             rs = rs\<lparr>hz := wrap32 (config_hz cfg)\<rparr>
         in res_bind (init_redis_server_dbs (key_dict S) (expire_dict S) 0 (nat num)) (\<lambda>ds.
            let rs = (update_cache_time ustime (rs\<lparr>dbs := ds\<rparr>))\<lparr>slowlog :=
                  slowlog_manager_new (slowlog_log_slower_than cfg) (slowlog_max_len cfg)\<rparr>
            in Inr (Some \<lparr>redis = rs, server = net, exec_argv = av, executable = exe, configfile = conf,
                          config = cfg, db_num = num, crons = init_redis_server_crons\<rparr>)))))))"

section \<open>The program\<close>

definition parseArgv :: "string list \<Rightarrow> string list" where
  "parseArgv av = map c_string av"

datatype Mode = HELP | VERSION | TEST_MEMORY | CHECK_SYSTEM | ENV | SERVER

text \<open>Behind the arguments the array holds one NULL pointer.\<close>

definition getMode :: "string list \<Rightarrow> Mode res" where
  "getMode av =
     (case av of
        [] \<Rightarrow> Inl (Out_of_bounds ''argv[1]'')
      | [_] \<Rightarrow> Inr SERVER
      | _ # a # _ \<Rightarrow>
          if a = ''--help'' \<or> a = ''-h'' then Inr HELP
          else if a = ''-v'' \<or> a = ''--version'' then Inr VERSION
          else if a = ''--env'' then Inr ENV
          else if a = ''--test-memory'' then Inr TEST_MEMORY
          else if a = ''--check-system'' then Inr CHECK_SYSTEM
          else Inr SERVER)"

text \<open>What the modes that are not the server print; \<open>api\<close> is the name of the event library's interface.\<close>

definition help_text :: "string \<times> int" where
  "help_text = (concat
     [''Usage: ./latte-server [/path/to/latte.conf] [options] [-]'' @ [LF],
      ''       ./latte-server - (read config from stdin)'' @ [LF],
      ''       ./latte-server -v or --version'' @ [LF],
      ''       ./latte-server -h or --help'' @ [LF],
      ''       ./latte-server --test-memory <megabytes>'' @ [LF],
      ''       ./latte-server --check-system'' @ [LF],
      [LF],
      ''Examples:'' @ [LF],
      ''       ./latte-server (run the server with default conf)'' @ [LF],
      ''       echo '' @ [CHR 0x27] @ ''maxmemory 128mb'' @ [CHR 0x27] @ '' | ./latte-server -'' @ [LF],
      ''       ./latte-server /etc/latte/6379.conf'' @ [LF],
      ''       ./latte-server --port 7777'' @ [LF],
      ''       ./latte-server --port 7777 --replicaof 127.0.0.1 8888'' @ [LF],
      ''       ./latte-server /etc/mylatte.conf --loglevel verbose -'' @ [LF],
      ''       ./latte-server /etc/mylatte.conf --loglevel verbose'' @ [LF] @ [LF],
      ''Sentinel mode:'' @ [LF],
      ''       ./latte-server /etc/sentinel.conf --sentinel'' @ [LF]], 1)"

definition LATTE_VERSION :: string where "LATTE_VERSION = ''0.0.1''"

definition version :: "string \<times> int" where
  "version = (''Latte server v='' @ LATTE_VERSION @ '' bits='' @ dec 64 @ '' '' @ [LF], 1)"

definition env :: "string \<Rightarrow> string \<times> int" where
  "env api = (''latte_env: '' @ [LF] @ ''       '' @ api @ [LF], 1)"

definition stopRedisServer :: "string \<times> int" where
  "stopRedisServer = (''stop latte server !!!!!'' @ [LF], 1)"

text \<open>What \<open>main\<close> runs, and the exit code, which is always 1.\<close>

datatype action = Run_help | Run_env | Run_version | Run_server "daemon option" | Run_nothing

definition main :: "sys \<Rightarrow> config_lib \<Rightarrow> string option \<Rightarrow> int \<Rightarrow> redis_server \<Rightarrow> string list \<Rightarrow> (action \<times> int) res" where
  "main S C getcwd ustime rs av =
     (let args = parseArgv av in
      res_bind (getMode args) (\<lambda>mode.
      case mode of
        HELP \<Rightarrow> Inr (Run_help, 1)
      | ENV \<Rightarrow> Inr (Run_env, 1)
      | VERSION \<Rightarrow> Inr (Run_version, 1)
      | SERVER \<Rightarrow> res_bind (start_redis_server S C getcwd ustime rs args) (\<lambda>d. Inr (Run_server d, 1))
      | _ \<Rightarrow> Inr (Run_nothing, 1)))"

definition printed_by :: "string \<Rightarrow> action \<Rightarrow> string" where
  "printed_by api a = (case a of Run_help \<Rightarrow> fst help_text | Run_env \<Rightarrow> fst (env api) | Run_version \<Rightarrow> fst version | _ \<Rightarrow> [])"

text \<open>Asked for information the program prints it, whatever comes behind, and starts nothing.\<close>

lemma main_information:
  "main S C cwd t rs (exe # ''--help'' # av) = Inr (Run_help, 1)" "main S C cwd t rs (exe # ''-h'' # av) = Inr (Run_help, 1)"
  "main S C cwd t rs (exe # ''--version'' # av) = Inr (Run_version, 1)" "main S C cwd t rs (exe # ''-v'' # av) = Inr (Run_version, 1)"
  "main S C cwd t rs (exe # ''--env'' # av) = Inr (Run_env, 1)" "printed_by api Run_version = ''Latte server v=0.0.1 bits='' @ dec 64 @ '' '' @ [LF]"
  by (simp_all add: main_def parseArgv_def getMode_def Let_def printed_by_def version_def LATTE_VERSION_def)

section \<open>Behaviour of the path handling\<close>

text \<open>A directory, given by its elements from the root.\<close>

definition dir_string :: "string list \<Rightarrow> string" where
  "dir_string es = ''/'' @ concat (map (\<lambda>e. e @ ''/'') es)"

definition elements :: "string list \<Rightarrow> bool" where
  "elements es \<longleftrightarrow> list_all (\<lambda>e. e \<noteq> [] \<and> CHR ''/'' \<notin> set e \<and> NUL \<notin> set e) es"

lemma dir_string_snoc: "dir_string (es @ [e]) = dir_string es @ e @ ''/''"
  by (simp add: dir_string_def)

lemma dir_string_ends: "dir_string es \<noteq> []" "last (dir_string es) = CHR ''/''" "hd (dir_string es) = CHR ''/''"
  by (simp_all add: dir_string_def) (induction es rule: rev_induct; simp)

lemma scan_back_element:
  assumes "a \<noteq> []" "last a = CHR ''/''" "CHR ''/'' \<notin> set e" "k \<le> length e"
  shows "scan_back (a @ e @ b) (length a + k - 1) t = Inr (t + k)"
  using assms(4)
proof (induction k arbitrary: t)
  case 0
  have "(a @ e @ b) ! (length a - 1) = CHR ''/''" using assms(1,2) by (simp add: nth_append last_conv_nth)
  then show ?case by (cases "length a - 1") simp_all
next
  case (Suc k)
  obtain p where p: "length a + k = Suc p" using assms(1) by (cases "length a + k") auto
  have "(a @ e @ b) ! (length a + k) \<noteq> CHR ''/''" using Suc.prems assms(3) by (auto simp: nth_append) (metis Suc_le_lessD nth_mem)
  then have "scan_back (a @ e @ b) (length a + k) t = scan_back (a @ e @ b) (length a + k - 1) (Suc t)" by (simp add: p)
  then show ?case using Suc.IH [of "Suc t"] Suc.prems by simp
qed

text \<open>One step up: an element is taken off, and the root stays the root.\<close>

lemma strip_parents_up:
  assumes "elements es"
  shows "strip_parents (''../'' @ rel) (dir_string es) = strip_parents rel (dir_string (butlast es))"
proof (cases es rule: rev_cases)
  case Nil
  then show ?thesis by (simp add: dir_string_def)
next
  case (snoc es' e)
  have e: "e \<noteq> []" "CHR ''/'' \<notin> set e" using assms snoc by (simp_all add: elements_def)
  let ?a = "dir_string es'"
  have d: "dir_string es = ?a @ e @ ''/''" using snoc by (simp add: dir_string_snoc)
  have l: "length (dir_string es) - 2 = length ?a + length e - 1" "1 < length (dir_string es)" using e dir_string_ends(1) [of es'] by (auto simp: d)
  have "scan_back (dir_string es) (length (dir_string es) - 2) 1 = Inr (1 + length e)"
    unfolding l(1) d using scan_back_element [OF dir_string_ends(1,2) e(2), of "length e" es' "''/''" 1] by simp
  moreover have "take (length (dir_string es) - (1 + length e)) (dir_string es) = dir_string (butlast es)" unfolding d using snoc by simp
  ultimately show ?thesis using l(2) by simp
qed

lemma elements_butlast: "elements es \<Longrightarrow> elements (butlast es)"
  by (auto simp: elements_def list_all_iff dest: in_set_butlastD)

lemma strip_parents_resolve:
  assumes "elements es" "take 3 rest \<noteq> ''../''"
  shows "strip_parents (concat (replicate n ''../'') @ rest) (dir_string es) = Inr (rest, dir_string (take (length es - n) es))"
  using assms(1)
proof (induction n arbitrary: es)
  case 0
  then show ?case using assms(2) by (cases "(rest, dir_string es)" rule: strip_parents.cases) auto
next
  case (Suc n)
  have "strip_parents (concat (replicate (Suc n) ''../'') @ rest) (dir_string es) = strip_parents (concat (replicate n ''../'') @ rest) (dir_string (butlast es))"
    using strip_parents_up [OF Suc.prems] by simp
  then show ?case using Suc.IH [OF elements_butlast [OF Suc.prems]] by (simp add: take_butlast min_def butlast_conv_take)
qed

text \<open>Any path below any directory: the scan always meets a slash.\<close>

lemma scan_back_found: "hd s = CHR ''/'' \<Longrightarrow> s \<noteq> [] \<Longrightarrow> \<exists>t'. scan_back s p t = Inr t' \<and> t \<le> t' \<and> t' \<le> t + p"
proof (induction p arbitrary: t)
  case (Suc p)
  then show ?case using Suc.IH [of "Suc t"] by fastforce
qed (simp add: hd_conv_nth)

lemma strip_parents_total:
  assumes "hd a = CHR ''/''" "a \<noteq> []"
  shows "\<exists>rel' a'. strip_parents rel a = Inr (rel', a') \<and> a' \<noteq> [] \<and> hd a' = CHR ''/''"
  using assms
proof (induction rel a rule: strip_parents.induct)
  case (1 c1 c2 c3 rel a)
  show ?case
  proof (cases "c1 = CHR ''.'' \<and> c2 = CHR ''.'' \<and> c3 = CHR ''/''")
    case True
    obtain a1 where a1: "(if 1 < length a then res_bind (scan_back a (length a - 2) 1) (\<lambda>trimlen. Inr (take (length a - trimlen) a)) else Inr a) = Inr a1"
      "a1 \<noteq> []" "hd a1 = CHR ''/''"
    proof (cases "1 < length a")
      case len: True
      obtain t where t: "scan_back a (length a - 2) 1 = Inr t" "t \<le> 1 + (length a - 2)"
        using scan_back_found [OF 1(2,3), of "length a - 2" 1] by blast
      then show ?thesis using that [of "take (length a - t) a"] len 1(2,3) by (auto simp: hd_take)
    qed (use that 1(2,3) in simp)
    from 1(1) [OF True a1(1)] a1(2,3) show ?thesis using True a1(1) by simp
  qed (use 1 in auto)
qed simp_all

section \<open>Behaviour of the load-module directive\<close>

lemma move_modules_half: "move_modules i new old = old @ take ((length new - i + 1) div 2) (rev new)"
proof (induction i new old rule: move_modules.induct)
  case (1 i new old)
  show ?case
  proof (cases "i < length new")
    case True
    then obtain xs x where new: "new = xs @ [x]" by (cases new rule: rev_cases) auto
    obtain k where "length xs = i + k" using True new by (auto simp: less_Suc_eq_le le_iff_add)
    then have "(length new - i + 1) div 2 = Suc ((length xs - Suc i + 1) div 2)" using new by (cases k) simp_all
    then show ?thesis using 1 True new by (subst move_modules.simps) (simp del: move_modules.simps)
  qed simp
qed

section \<open>A server that is up\<close>

text \<open>
  What is used of the configuration manager: it gives every variable the default of its rule and counts the rules, and it
  passes a load-module option through the two handlers of its rule.
\<close>

definition config_laws :: "config_lib \<Rightarrow> bool" where
  "config_laws C \<longleftrightarrow>
     (\<exists>b. config_init_all_data C server_config_rules initial_config = (initial_config\<lparr>bind_addrs := b\<rparr>, length server_config_rules)) \<and>
     (\<forall>cfg a es. config_load_modules_load [a] = Inr es \<longrightarrow>
        config_load_argv C server_config_rules [''--load-module'', a] cfg =
          Some (cfg\<lparr>load_modules := config_load_modules_add (load_modules cfg) es\<rparr>))"

lemma absolute_total:
  assumes "cwd \<noteq> []" "hd cwd = CHR ''/''"
  shows "\<exists>p. get_absolute_path L (Some cwd) f = Inr (Some p) \<and> hd p = CHR ''/''"
proof (cases "byte_at (sds_trim L (c_string f) [CHR '' '', CR, LF, CHR 0x09]) 0 = CHR ''/''")
  case True
  then show ?thesis by (auto simp: get_absolute_path_def Let_def byte_at_def hd_conv_nth split: if_splits)
next
  case False
  define a where "a = (if c_string cwd \<noteq> [] \<and> last (c_string cwd) \<noteq> CHR ''/'' then c_string cwd @ ''/'' else c_string cwd)"
  have "a \<noteq> []" "hd a = CHR ''/''" using assms by (cases cwd; auto simp: a_def c_string_def)+
  then obtain rel' a' where "strip_parents (sds_trim L (c_string f) [CHR '' '', CR, LF, CHR 0x09]) a = Inr (rel', a')" "a' \<noteq> []" "hd a' = CHR ''/''"
    using strip_parents_total [of a "sds_trim L (c_string f) [CHR '' '', CR, LF, CHR 0x09]"] by blast
  then show ?thesis using False by (simp add: get_absolute_path_def Let_def a_def [symmetric])
qed

lemma server_config_default:
  assumes "config_laws C"
  obtains b where "server_config_new C = Inr (initial_config\<lparr>bind_addrs := b\<rparr>)"
  using assms by (auto simp: config_laws_def server_config_new_def server_config_rules_def latte_assert_def)

lemma start_with_latte:
  assumes S: "sys_laws S" "module_file_at S p = File_onload Onload_latte" "c_string p = p" and C: "config_laws C"
    and env: "cwd \<noteq> []" "hd cwd = CHR ''/''" "heap_wf (heap rs)"
  obtains d where "start_redis_server S C (Some cwd) t rs [exe, ''--load-module'', p] = Inr (Some d)" "table_ready S (redis d)"
    "srv_inv S (redis d) 0" "contents (redis d) 0 = Map.empty" "proto_max_bulk_len (redis d) = 1048576"
    "server_metric (redis d) = metric_new (metric_dict S) 16" "slowlog (redis d) = slowlog_manager_new 10000 128"
    "heap (redis d) = heap rs" "db_vals (dbs (redis d) ! 0) = Map.empty"
proof -
  obtain srv0 srv1 where l: "init_redis_server S rs = Inr srv0" "module_load S srv0 p = Inr (srv1, True)" "table_ready S srv1"
    "proto_max_bulk_len srv1 = 1048576" "heap srv1 = heap rs" "server_metric srv1 = metric_new (metric_dict S) 16"
    by (rule init_then_load [OF S(1,2)])
  obtain b where cfg: "server_config_new C = Inr (initial_config\<lparr>bind_addrs := b\<rparr>)" using C by (rule server_config_default)
  obtain x where x: "get_absolute_path (lib S) (Some cwd) exe = Inr (Some x)" using absolute_total [OF env(1,2)] by blast
  let ?cfg = "initial_config\<lparr>bind_addrs := b, load_modules := Some [module_entry_new p []]\<rparr>"
  have "load_config (lib S) C (Some cwd) (initial_config\<lparr>bind_addrs := b\<rparr>) [exe, ''--load-module'', p] = Inr (Some (?cfg, None))"
    using C S(3) by (simp add: load_config_def byte_at_def config_laws_def config_load_modules_load_def config_load_modules_add_def initial_config_def)
  moreover have "init_redis_modules S srv0 (map_option (map path) (load_modules ?cfg)) = Inr srv1"
    using l(2) by (simp add: module_entry_new_def latte_assert_def)
  moreover obtain ds where ds: "init_redis_server_dbs (key_dict S) (expire_dict S) 0 16 = Inr ds" "length ds = 16"
    "\<forall>j<16. db_inv (key_dict S) (expire_dict S) (ds ! j) \<and> db_vals (ds ! j) = Map.empty \<and> db_ttl (ds ! j) = Map.empty"
    using init_redis_server_dbs_spec [OF sys_lawsD(11,12) [OF S(1)], of 0 16] by auto
  ultimately have run: "\<exists>d. start_redis_server S C (Some cwd) t rs [exe, ''--load-module'', p] = Inr (Some d) \<and>
    redis d = (update_cache_time t (srv1\<lparr>hz := 10, dbs := ds\<rparr>))\<lparr>slowlog := slowlog_manager_new 10000 128\<rparr>"
    using l(1) x cfg by (simp add: start_redis_server_def Let_def initial_config_def wrap32_small)
  then obtain d where d: "start_redis_server S C (Some cwd) t rs [exe, ''--load-module'', p] = Inr (Some d)"
    "redis d = (update_cache_time t (srv1\<lparr>hz := 10, dbs := ds\<rparr>))\<lparr>slowlog := slowlog_manager_new 10000 128\<rparr>" by blast
  have "table_ready S (redis d)" "proto_max_bulk_len (redis d) = 1048576"
    "server_metric (redis d) = metric_new (metric_dict S) 16" "slowlog (redis d) = slowlog_manager_new 10000 128"
    using l(3,4,6) by (simp_all add: d(2) table_ready_def update_cache_time_def)
  moreover have "srv_inv S (redis d) 0" "contents (redis d) 0 = Map.empty"
    using S(1) ds(2,3) env(3) l(5) sys_lawsD(2) [OF S(1)]
    by (auto simp: d(2) srv_inv_def keyspace_inv_def db_owns_def strings_only_def update_cache_time_def contents_def fun_eq_iff)
  moreover have "heap (redis d) = heap rs" "db_vals (dbs (redis d) ! 0) = Map.empty" using ds(3) l(5) by (simp_all add: d(2) update_cache_time_def)
  ultimately show thesis using that d(1) by blast
qed

section \<open>Properties\<close>

text \<open>What \<open>getcwd\<close> returns: the elements with slashes before them, and the root as a slash.\<close>

definition cwd_string :: "string list \<Rightarrow> string" where
  "cwd_string es = (if es = [] then ''/'' else concat (map (\<lambda>e. CHR ''/'' # e) es))"

lemma cwd_dir_string: "es \<noteq> [] \<Longrightarrow> cwd_string es @ ''/'' = dir_string es"
proof -
  have "concat (map (\<lambda>e. CHR ''/'' # e) es) @ ''/'' = dir_string es" by (induction es) (simp_all add: dir_string_def)
  then show "es \<noteq> [] \<Longrightarrow> cwd_string es @ ''/'' = dir_string es" by (simp add: cwd_string_def)
qed

lemma cwd_string_last: "es \<noteq> [] \<Longrightarrow> elements es \<Longrightarrow> cwd_string es \<noteq> [] \<and> last (cwd_string es) \<noteq> CHR ''/''"
  by (cases es rule: rev_cases) (auto simp: cwd_string_def elements_def dest: last_in_set)

lemma cwd_string_plain: "elements es \<Longrightarrow> c_string (cwd_string es) = cwd_string es"
  by (intro c_string_id) (auto simp: cwd_string_def elements_def list_all_iff)

lemma cwd_absolute:
  assumes "elements es"
  shows "(if cwd_string es \<noteq> [] \<and> last (cwd_string es) \<noteq> CHR ''/'' then cwd_string es @ ''/'' else cwd_string es) = dir_string es"
proof (cases "es = []")
  case False
  then show ?thesis using cwd_string_last [OF False assms] cwd_dir_string [OF False] by simp
qed (simp add: cwd_string_def dir_string_def)

lemma dropWhile_hd: "f \<noteq> [] \<Longrightarrow> \<not> P (hd f) \<Longrightarrow> dropWhile P f = f"
  by (cases f) simp_all

lemma sds_trim_id:
  assumes "sds_laws L" "f \<noteq> []" "hd f \<notin> set cs" "last f \<notin> set cs"
  shows "sds_trim L f cs = f"
proof -
  have "dropWhile (\<lambda>c. c \<in> set cs) (rev f) = rev f" "dropWhile (\<lambda>c. c \<in> set cs) f = f"
    using assms(2-4) by (simp_all add: dropWhile_hd hd_rev)
  then show ?thesis using assms(1) by (simp add: sds_laws_def)
qed

text \<open>
  C16. The path arithmetic on characters computes what it should on path elements: a relative path that starts with
  \<open>n\<close> times two dots and a slash is joined to the working directory without its last \<open>n\<close> elements, and to the root when the
  directory is not that deep.
\<close>

theorem absolute_path_resolves:
  assumes "sds_laws L" "elements es" "take 3 rest \<noteq> ''../''" "0 < n \<or> hd rest \<noteq> CHR ''/''" "rest \<noteq> []" "NUL \<notin> set rest"
    "hd rest \<notin> {CHR '' '', CR, LF, CHR 0x09}" "last rest \<notin> {CHR '' '', CR, LF, CHR 0x09}"
  shows "get_absolute_path L (Some (cwd_string es)) (concat (replicate n ''../'') @ rest) =
    Inr (Some (dir_string (take (length es - n) es) @ rest))"
proof -
  let ?f = "concat (replicate n ''../'') @ rest" and ?B = "[CHR '' '', CR, LF, CHR 0x09]"
  have f: "NUL \<notin> set ?f" "?f \<noteq> []" "last ?f \<notin> set ?B" using assms(5,6,8) by (induction n) (auto simp: set_replicate_conv_if)
  have hd: "hd ?f \<notin> set ?B" "hd ?f \<noteq> CHR ''/''" using assms(4,5,7) by (cases n; auto)+
  have trim: "sds_trim L (c_string ?f) ?B = ?f" using sds_trim_id [OF assms(1) f(2) hd(1) f(3)] c_string_id [OF f(1)] by simp
  have "byte_at ?f 0 \<noteq> CHR ''/''" using hd(2) f(2) by (simp add: byte_at_def hd_conv_nth)
  then show ?thesis
    unfolding get_absolute_path_def Let_def trim option.case cwd_string_plain [OF assms(2)] cwd_absolute [OF assms(2)]
    using strip_parents_resolve [OF assms(2,3), of n] by simp
qed

text \<open>
  C23. With a working directory that starts with a slash the scan for a parent directory never leaves the string,
  whatever the file name, and the result is an absolute path.
\<close>

theorem absolute_path_safe:
  assumes "cwd \<noteq> []" "hd cwd = CHR ''/''"
  shows "\<exists>p. get_absolute_path L (Some cwd) f = Inr (Some p) \<and> hd p = CHR ''/''"
  using assms by (rule absolute_total)

text \<open>
  Adding modules to a list that is there moves only half of the new ones, the last one first, because the loop compares its
  counter with the size of the vector it pops from; the others are lost. Every directive of a file or a command line adds one module, and
  that one is kept, behind the earlier ones.
\<close>

lemma load_module_directives:
  "config_load_modules_add (Some old) new = Some (old @ take ((length new + 1) div 2) (rev new)) \<and>
   (\<exists>e. config_load_modules_load (a # as) = Inr [e] \<and> path e = c_string a \<and> config_load_modules_add (Some old) [e] = Some (old @ [e]))"
  by (simp add: config_load_modules_add_def config_load_modules_load_def module_entry_new_def move_modules_half del: move_modules.simps)

section \<open>Witnesses\<close>

theorem absolute_path_resolves_witness:
  "get_absolute_path latte_c_ref (Some ''/srv/latte'') ''../redis.conf'' = Inr (Some ''/srv/redis.conf'')"
proof -
  have "elements [''srv'', ''latte'']" by (simp add: elements_def)
  then show ?thesis using absolute_path_resolves [OF sds_laws_ref, of "[''srv'', ''latte'']" "''redis.conf''" 1]
    by (simp add: cwd_string_def dir_string_def)
qed

theorem absolute_path_safe_witness: "\<exists>p. get_absolute_path latte_c_ref (Some ''/'') ''../../x'' = Inr (Some p) \<and> hd p = CHR ''/''"
  using absolute_path_safe [of "''/''" latte_c_ref "''../../x''"] by simp

definition config_ref :: config_lib where
  "config_ref =
     \<lparr>config_init_all_data = (\<lambda>rules cfg. (cfg\<lparr>bind_addrs := Some [''*'', ''-::*'']\<rparr>, length rules)),
      config_load_file = (\<lambda>rules f cfg. Some cfg),
      config_load_argv = (\<lambda>rules av cfg. case av of
         [opt, a] \<Rightarrow> (case config_load_modules_load [a] of
             Inl _ \<Rightarrow> None | Inr es \<Rightarrow> Some (cfg\<lparr>load_modules := config_load_modules_add (load_modules cfg) es\<rparr>))
       | _ \<Rightarrow> None)\<rparr>"

lemma config_ref_laws: "config_laws config_ref"
  by (auto simp: config_laws_def config_ref_def)

end
