(* ===== verification/Clients.thy ===== *)
theory Clients
  imports Startup
begin

text \<open>
  Many clients on one server. The network layer of latte\_c calls what the server registered with it: \<open>create_redis_client\<close> for a
  connection, \<open>redis_client_handle\<close> when bytes have arrived, \<open>redis_client_command_end\<close> when replies have been written,
  \<open>redis_client_delete\<close> at the end, and the periodic tasks in between. A run of the server is a sequence of such calls, in any order
  and with the bytes of every connection cut anywhere. The theory states what the clients may expect of such a run and proves it.
\<close>

section \<open>The calls of the network layer\<close>

text \<open>
  What the network layer does itself is a parameter: it sets up its own part of a new client, with an empty query buffer and nothing to write and with the flags that are there; it appends what it has
  read to the query buffer, after it has perhaps dropped bytes that were served, so that what is in memory fits there; and it writes out as much of the queued output as the socket takes.
\<close>

record net_lib =
  net_init :: "redis_client \<Rightarrow> redis_client"
  net_recv :: "redis_client \<Rightarrow> string \<Rightarrow> redis_client"
  net_write :: "redis_client \<Rightarrow> string \<times> redis_client"

text \<open>It stamps the client with times of its own.\<close>

definition untimed :: "redis_client \<Rightarrow> redis_client" where
  "untimed rc = rc\<lparr>client := (client rc)\<lparr>start_time := 0, read_time := 0, exec_time := 0, exec_end_time := 0, write_time := 0, end_time := 0\<rparr>\<rparr>"

definition net_laws :: "net_lib \<Rightarrow> bool" where
  "net_laws N \<longleftrightarrow>
     (\<forall>rc. \<exists>cl. net_init N rc = rc\<lparr>client := cl\<rparr> \<and> querybuf cl = [] \<and> qb_pos cl = 0 \<and> obuf cl = [] \<and> reply cl = [] \<and> cl_flags cl = cl_flags (client rc)) \<and>
     (\<forall>rc s. pos rc \<le> length (buf rc) \<longrightarrow>
        (\<exists>b p. untimed (net_recv N rc s) = untimed (set_pos p (set_buf b rc)) \<and> p \<le> length b \<and> drop p b = unread rc @ s \<and>
           (length (unread rc @ s) < 2 ^ 62 \<longrightarrow> length b < 2 ^ 62))) \<and>
     (\<forall>rc. \<exists>rc'. reply_frame rc rc' \<and> untimed (snd (net_write N rc)) = untimed rc' \<and> sent rc = fst (net_write N rc) @ sent rc')"

text \<open>The server, the clients by their connection, and what has gone out on each connection.\<close>

record network =
  net_srv :: redis_server
  net_clients :: "nat \<rightharpoonup> redis_client"
  wire :: "nat \<Rightarrow> string"

datatype net_event =
    Connect nat redis_client
  | Receive nat string
  | Write nat
  | Answered nat int int int "string option" string
  | Disconnect nat
  | Tick int cron_proc

text \<open>\<open>Answered\<close> is the end of a command: its start and its end as the network layer has stamped them, the time at which the hook runs, and the name and address of the client.\<close>

definition stamp :: "int \<Rightarrow> int \<Rightarrow> redis_client \<Rightarrow> redis_client" where
  "stamp t0 t1 rc = rc\<lparr>client := (client rc)\<lparr>start_time := t0, end_time := t1\<rparr>\<rparr>"

text \<open>\<open>redis_client_delete\<close> frees the record and nothing it points to.\<close>

definition redis_client_delete :: "nat \<Rightarrow> (nat \<rightharpoonup> redis_client) \<Rightarrow> (nat \<rightharpoonup> redis_client)" where
  "redis_client_delete j cs = cs(j := None)"

definition on_client :: "network \<Rightarrow> nat \<Rightarrow> (redis_client \<Rightarrow> network res option) \<Rightarrow> network res option" where
  "on_client net j f = (case net_clients net j of None \<Rightarrow> Some (Inr net) | Some rc \<Rightarrow> f rc)"

definition net_step ::
  "sys \<Rightarrow> net_lib \<Rightarrow> (nat \<Rightarrow> int) \<Rightarrow> (nat \<Rightarrow> int) \<Rightarrow> nat \<Rightarrow> net_event \<Rightarrow> network \<Rightarrow> network res option" where
  "net_step S N clock lf fuel ev net =
     (case ev of
        Connect j mem \<Rightarrow> Some (Inr (net\<lparr>net_clients := (net_clients net)(j \<mapsto> net_init N (create_redis_client mem)), wire := (wire net)(j := [])\<rparr>))
      | Receive j s \<Rightarrow> on_client net j (\<lambda>rc.
          map_option (\<lambda>r. res_bind r (\<lambda>(srv, rc, more). Inr (net\<lparr>net_srv := srv, net_clients := (net_clients net)(j \<mapsto> rc)\<rparr>)))
            (redis_client_handle S clock lf j fuel (net_srv net) (net_recv N rc s) (int (length s))))
      | Write j \<Rightarrow> on_client net j (\<lambda>rc.
          Some (Inr (net\<lparr>net_clients := (net_clients net)(j \<mapsto> snd (net_write N rc)), wire := (wire net)(j := wire net j @ fst (net_write N rc))\<rparr>)))
      | Answered j t0 t1 t name peer \<Rightarrow> on_client net j (\<lambda>rc.
          let rc = stamp t0 t1 rc in
          Some (res_bind (redis_client_command_end S t name peer (net_srv net) rc) (\<lambda>srv.
            Inr (net\<lparr>net_srv := srv, net_clients := (net_clients net)(j \<mapsto> rc)\<rparr>))))
      | Disconnect j \<Rightarrow> Some (Inr (net\<lparr>net_clients := redis_client_delete j (net_clients net)\<rparr>))
      | Tick t c \<Rightarrow> Some (res_bind (run_cron S t c (net_srv net)) (\<lambda>srv. Inr (net\<lparr>net_srv := srv\<rparr>))))"

text \<open>A sequence of calls, numbered from \<open>i\<close>; every call reads its own clock and its own stack.\<close>

fun run_events :: "(nat \<Rightarrow> 'e \<Rightarrow> 'c \<Rightarrow> 'c res option) \<Rightarrow> nat \<Rightarrow> 'e list \<Rightarrow> 'c \<Rightarrow> 'c res option" where
  "run_events step i [] c = Some (Inr c)"
| "run_events step i (e # es) c =
     (case step i e c of Some (Inr c) \<Rightarrow> run_events step (Suc i) es c | r \<Rightarrow> r)"

definition net_run ::
  "sys \<Rightarrow> net_lib \<Rightarrow> (nat \<Rightarrow> nat \<Rightarrow> int) \<Rightarrow> (nat \<Rightarrow> nat \<Rightarrow> int) \<Rightarrow> nat \<Rightarrow> net_event list \<Rightarrow> network \<Rightarrow> network res option" where
  "net_run S N clock lf fuel = run_events (\<lambda>i. net_step S N (clock i) (lf i) fuel) 0"

section \<open>What the clients may expect\<close>

text \<open>
  A connection is the sequence of requests it has not got an answer to, the bytes of them that are still to come, the bytes it was answered, and whether it
  has taken leave.
\<close>

record spec_client =
  todo :: "framed list"
  to_come :: string
  answered :: string
  gone :: bool

text \<open>It is at rest when no byte of its next request has come.\<close>

definition at_rest :: "spec_client \<Rightarrow> bool" where
  "at_rest c \<longleftrightarrow> gone c \<or> to_come c = stream (todo c)"

text \<open>The keys, the connections, the number of commands that were slow, and whether all clients that left were at rest.\<close>

record spec_net =
  held_keys :: keyspace
  peers :: "nat \<rightharpoonup> spec_client"
  slow_count :: nat
  tidy :: bool

text \<open>
  The program relies on memory that reads as a client at rest where \<open>create_redis_client\<close> does not write: no arguments, no kind of request, a vector of arguments that is NULL or a block
  that is still allocated, no master. \<open>zmalloc\<close> promises nothing of the kind, so that it is a hypothesis of what follows; \<open>Client_Types\<close> shows what happens without it.
\<close>

definition cleared :: "redis_client \<Rightarrow> bool" where
  "cleared mem \<longleftrightarrow> argc mem = 0 \<and> req_type mem = 0 \<and> argv mem \<noteq> Argv_garbage \<and> flag mem AND CLIENT_MASTER = 0"

fun memory_cleared :: "net_event \<Rightarrow> bool" where
  "memory_cleared (Connect j mem) = cleared mem"
| "memory_cleared _ = True"

lemma memory_cleared_iff: "memory_cleared e \<longleftrightarrow> (\<forall>j mem. e = Connect j mem \<longrightarrow> cleared mem)"
  by (cases e) auto

text \<open>
  Requests are served when their last byte arrives, in the order in which those bytes arrive, whoever sent them; what a connection sends after a QUIT is ignored. The connection made by
  call \<open>i\<close> sends the requests \<open>plan i\<close>, lines among them only if \<open>one\<close> holds (\<open>frame_ok\<close>). The hook at the end of a command runs for clients that have been answered, also when the next
  request has been read in part; a command that took longer than \<open>fst lim\<close> microseconds is entered in the slow log, which has room for \<open>snd lim\<close> of them.
\<close>

definition spec_event ::
  "latte_c \<Rightarrow> bool \<Rightarrow> int \<Rightarrow> int \<times> int \<Rightarrow> (nat \<Rightarrow> nat \<Rightarrow> int) \<Rightarrow> (nat \<Rightarrow> framed list) \<Rightarrow> nat \<Rightarrow> net_event \<Rightarrow> spec_net \<Rightarrow> spec_net option" where
  "spec_event L one bulk_max lim clock plan i ev \<sigma> =
     (case ev of
        Connect j mem \<Rightarrow>
          if peers \<sigma> j = None \<and> list_all (frame_ok one bulk_max) (plan i) \<and> length (stream (plan i)) < 2 ^ 62
          then Some (\<sigma>\<lparr>peers := (peers \<sigma>)(j \<mapsto> \<lparr>todo = plan i, to_come = stream (plan i), answered = [], gone = False\<rparr>)\<rparr>) else None
      | Receive j s \<Rightarrow> Option.bind (peers \<sigma> j) (\<lambda>c.
          if take (length s) (to_come c) = s then
            (let f = drop (length s) (to_come c); ws = due (length f) (todo c) in
             if gone c then Some (\<sigma>\<lparr>peers := (peers \<sigma>)(j \<mapsto> c\<lparr>to_come := f\<rparr>)\<rparr>)
             else map_option (\<lambda>(m, out). \<sigma>\<lparr>held_keys := m, peers := (peers \<sigma>)(j \<mapsto>
                 \<lparr>todo = drop (length ws) (todo c), to_come = f, answered = answered c @ out, gone = list_ex quits (map frame_words ws)\<rparr>)\<rparr>)
               (spec_session L (clock i) 0 (map frame_words ws) (held_keys \<sigma>)))
          else None)
      | Write j \<Rightarrow> if peers \<sigma> j = None then None else Some \<sigma>
      | Answered j t0 t1 t name peer \<Rightarrow> Option.bind (peers \<sigma> j) (\<lambda>c.
          if answered c = [] then None
          else if wrap64 (t1 - t0) \<le> fst lim then Some \<sigma>
          else if int (slow_count \<sigma>) < snd lim then Some (\<sigma>\<lparr>slow_count := Suc (slow_count \<sigma>)\<rparr>) else None)
      | Disconnect j \<Rightarrow> Some (\<sigma>\<lparr>peers := (peers \<sigma>)(j := None), tidy := tidy \<sigma> \<and> pred_option at_rest (peers \<sigma> j)\<rparr>)
      | Tick t c \<Rightarrow> Some \<sigma>)"

fun spec_run :: "(nat \<Rightarrow> 'e \<Rightarrow> 'a \<Rightarrow> 'a option) \<Rightarrow> nat \<Rightarrow> 'e list \<Rightarrow> 'a \<Rightarrow> 'a option" where
  "spec_run spec i [] a = Some a"
| "spec_run spec i (e # es) a = Option.bind (spec i e a) (spec_run spec (Suc i) es)"

section \<open>Runs that keep to a specification\<close>

text \<open>Step by step simulation, for any kind of calls.\<close>

locale simulation =
  fixes step :: "nat \<Rightarrow> 'e \<Rightarrow> 'c \<Rightarrow> 'c res option" and spec :: "nat \<Rightarrow> 'e \<Rightarrow> 'a \<Rightarrow> 'a option" and rel :: "'a \<Rightarrow> 'c \<Rightarrow> bool" and allowed :: "'e \<Rightarrow> bool"
  assumes step_simulates: "rel a c \<Longrightarrow> allowed e \<Longrightarrow> spec i e a = Some a' \<Longrightarrow> \<exists>c'. step i e c = Some (Inr c') \<and> rel a' c'"
begin

lemma run_simulates: "rel a c \<Longrightarrow> list_all allowed es \<Longrightarrow> spec_run spec i es a = Some a' \<Longrightarrow> \<exists>c'. run_events step i es c = Some (Inr c') \<and> rel a' c'"
proof (induction es arbitrary: i a c)
  case (Cons e es)
  obtain a1 where a1: "spec i e a = Some a1" "spec_run spec (Suc i) es a1 = Some a'" using Cons.prems(3) by (auto simp: bind_eq_Some_conv)
  have "allowed e" "list_all allowed es" using Cons.prems(2) by simp_all
  then obtain c1 where c1: "step i e c = Some (Inr c1)" "rel a1 c1" using step_simulates [OF Cons.prems(1) _ a1(1)] by blast
  show ?case using Cons.IH [OF c1(2) _ a1(2)] \<open>list_all allowed es\<close> c1(1) by simp
qed simp

end

section \<open>Clients beside each other\<close>

text \<open>What the invariant of a client looks at.\<close>

definition same_request :: "redis_client \<Rightarrow> redis_client \<Rightarrow> bool" where
  "same_request rc rc' \<longleftrightarrow> cl_flags (client rc') = cl_flags (client rc) \<and> req_type rc' = req_type rc \<and> argc rc' = argc rc \<and> argv rc' = argv rc \<and>
     multi_bulk_len rc' = multi_bulk_len rc \<and> bulk_len rc' = bulk_len rc \<and> dbid rc' = dbid rc \<and> lastcmd rc' = lastcmd rc \<and> flag rc' = flag rc"

lemma same_request_pend: "same_request rc rc' \<Longrightarrow> pend rc' = pend rc"
  unfolding same_request_def pend_def by (simp split: argv_ptr.split)

lemma untimed_fields:
  assumes "untimed rc' = untimed rc"
  shows "same_request rc rc'" "buf rc' = buf rc" "pos rc' = pos rc" "sent rc' = sent rc"
proof -
  note field = arg_cong [OF assms]
  show "same_request rc rc'" unfolding same_request_def
    using field [of "\<lambda>c. cl_flags (client c)"] field [of req_type] field [of argc] field [of argv] field [of multi_bulk_len]
      field [of bulk_len] field [of dbid] field [of lastcmd] field [of flag] by (simp add: untimed_def)
  show "buf rc' = buf rc" "pos rc' = pos rc" "sent rc' = sent rc"
    using field [of buf] field [of pos] field [of sent] by (simp_all add: untimed_def buf_def pos_def sent_def client_output_def)
qed

lemma net_recv_spec:
  assumes "net_laws N" "pos rc \<le> length (buf rc)"
  shows "same_request rc (net_recv N rc s)" "unread (net_recv N rc s) = unread rc @ s" "sent (net_recv N rc s) = sent rc"
    "pos (net_recv N rc s) \<le> length (buf (net_recv N rc s))" "length (unread rc @ s) < 2 ^ 62 \<Longrightarrow> length (buf (net_recv N rc s)) < 2 ^ 62"
proof -
  obtain b p where r: "untimed (net_recv N rc s) = untimed (set_pos p (set_buf b rc))" "p \<le> length b" "drop p b = unread rc @ s"
    "length (unread rc @ s) < 2 ^ 62 \<longrightarrow> length b < 2 ^ 62"
    using assms unfolding net_laws_def by blast
  note u = untimed_fields [OF r(1)]
  show "same_request rc (net_recv N rc s)" using u(1) by (simp add: same_request_def set_pos_def set_buf_def)
  show "unread (net_recv N rc s) = unread rc @ s" "pos (net_recv N rc s) \<le> length (buf (net_recv N rc s))"
    using u(2,3) r(2,3) by (simp_all add: unread_def)
  show "length (unread rc @ s) < 2 ^ 62 \<Longrightarrow> length (buf (net_recv N rc s)) < 2 ^ 62" using u(2) r(4) by simp
  show "sent (net_recv N rc s) = sent rc" using u(4) by (simp add: sent_def client_output_def set_pos_def set_buf_def)
qed

lemma net_write_spec:
  assumes "net_laws N"
  shows "same_request rc (snd (net_write N rc))" "unread (snd (net_write N rc)) = unread rc" "sent rc = fst (net_write N rc) @ sent (snd (net_write N rc))"
    "buf (snd (net_write N rc)) = buf rc" "pos (snd (net_write N rc)) = pos rc"
proof -
  obtain rc' where r: "reply_frame rc rc'" "untimed (snd (net_write N rc)) = untimed rc'" "sent rc = fst (net_write N rc) @ sent rc'"
    using assms unfolding net_laws_def by blast
  note u = untimed_fields [OF r(2)] and f = reply_frame_fields [OF r(1)]
  show "same_request rc (snd (net_write N rc))" using u(1) f by (simp add: same_request_def)
  show "buf (snd (net_write N rc)) = buf rc" "pos (snd (net_write N rc)) = pos rc" using u(2,3) f by (simp_all add: buf_def pos_def)
  then show "unread (snd (net_write N rc)) = unread rc" by (simp add: unread_def)
  show "sent rc = fst (net_write N rc) @ sent (snd (net_write N rc))" using u(4) r(3) by simp
qed

lemma expected_short: "us \<noteq> [] \<Longrightarrow> length (expected bl us) < length (request (ts @ us))"
  by (cases us) (auto simp: expected_def request_eq bulks_def)

text \<open>A client in the middle of a request: its objects are its own, and it stays where it is while they do.\<close>

lemma client_mid_cases:
  assumes "client_mid S srv rc frs F"
  obtains (rest) "idle rc" "unread rc @ F = stream frs"
  | (reading) ts us P frs' where "frs = Multi (ts @ us) # frs'" "parsing (lib S) (pend rc) (heap srv) us rc (heap srv) P"
      "request_args (lib S) (dbs srv ! dbid rc) (heap srv) (pend rc) ts" "unread rc @ F = P @ stream frs'" "us \<noteq> []"
  using assms unfolding client_mid_def by (auto split: list.split_asm framed.split_asm)

lemma client_mid_owns:
  assumes "client_mid S srv rc frs F"
  shows "pos rc \<le> length (buf rc)" "\<forall>a\<in>set (pend rc). cells (heap srv) a \<noteq> None \<and> a \<notin> ran (db_vals (dbs srv ! dbid rc))"
    "length (unread rc @ F) \<le> length (stream frs)"
proof -
  from assms have "pos rc \<le> length (buf rc) \<and> (\<forall>a\<in>set (pend rc). cells (heap srv) a \<noteq> None \<and> a \<notin> ran (db_vals (dbs srv ! dbid rc))) \<and>
    length (unread rc @ F) \<le> length (stream frs)"
  proof (cases rule: client_mid_cases)
    case rest
    then show ?thesis by (simp add: idle_def)
  next
    case (reading ts us P frs')
    have "\<forall>a\<in>set (pend rc). cells (heap srv) a \<noteq> None \<and> a \<notin> ran (db_vals (dbs srv ! dbid rc))"
      using reading(3) unfolding request_args_def list_all2_conv_all_nth arg_at_def by (metis in_set_conv_nth option.distinct(1))
    moreover have "pos rc \<le> length (buf rc)" using reading(2) by (auto simp: idle_def parsing_def midway_def)
    moreover have "length P \<le> length (request (ts @ us))"
      using reading(2,3) unfolding parsing_def request_args_def by (auto simp: less_imp_le [OF expected_short, of _ _ "ts @ _", simplified])
    ultimately show ?thesis using reading(1,4) by simp
  qed
  then show "pos rc \<le> length (buf rc)" "\<forall>a\<in>set (pend rc). cells (heap srv) a \<noteq> None \<and> a \<notin> ran (db_vals (dbs srv ! dbid rc))"
    "length (unread rc @ F) \<le> length (stream frs)" by blast+
qed

lemma fresh_copies_none: "fresh_copies L h h as ts \<longleftrightarrow> as = [] \<and> ts = []"
  by (cases ts) (auto simp: fresh_copies_def)

lemma parsing_transfer:
  assumes "parsing L (pend rc) h ts rc h P" "same_request rc rc'" "pos rc' \<le> length (buf rc')"
  shows "parsing L (pend rc') h' ts rc' h' P"
  using assms unfolding parsing_def midway_def same_request_pend [OF assms(2)]
  by (auto simp: fresh_copies_none same_request_def idle_def length_known_def)

lemma client_mid_transfer:
  assumes mid: "client_mid S srv rc frs F" and same: "same_request rc rc'" "pos rc' \<le> length (buf rc')" "unread rc' @ F' = unread rc @ F"
    and own: "\<forall>a\<in>set (pend rc). cells (heap srv') a = cells (heap srv) a \<and> a \<notin> ran (db_vals (dbs srv' ! dbid rc))"
  shows "client_mid S srv' rc' frs F'"
proof -
  have f: "cl_flags (client rc') = cl_flags (client rc)" "req_type rc' = req_type rc" "dbid rc' = dbid rc" "idle rc' = idle rc"
    using same(1,2) client_mid_owns(1) [OF mid] by (simp_all add: same_request_def idle_def)
  have args: "request_args (lib S) (dbs srv' ! dbid rc') (heap srv') (pend rc') ts" if "request_args (lib S) (dbs srv ! dbid rc) (heap srv) (pend rc) ts" for ts
    using that own unfolding request_args_def same_request_pend [OF same(1)] f(3) list_all2_conv_all_nth arg_at_def by auto
  have fl: "flag rc' = flag rc" using same(1) by (simp add: same_request_def)
  consider "frs = []" | ws frs' where "frs = Line ws # frs'" | ws frs' where "frs = Multi ws # frs'"
    by (metis framed.exhaust list.exhaust)
  then show ?thesis
  proof cases
    case (3 ws frs')
    then obtain ts us P where p: "ws = ts @ us" "us \<noteq> []" "parsing (lib S) (pend rc) (heap srv) us rc (heap srv) P"
      "request_args (lib S) (dbs srv ! dbid rc) (heap srv) (pend rc) ts" "unread rc @ F = P @ stream frs'"
      using mid unfolding client_mid_def by auto
    show ?thesis unfolding 3
      by (rule client_mid_ConsI [OF parsing_transfer [OF p(3) same(1,2)] p(2,1) _ _ _ args [OF p(4)]])
        (use mid f fl same(3) p(5) 3 in \<open>simp_all add: client_mid_def\<close>)
  qed (use mid f fl same(3) in \<open>simp_all add: client_mid_def\<close>)
qed

section \<open>The relation between network and specification\<close>

text \<open>The slow log has room, and the objects of its entries are its own.\<close>

definition log_ok :: "int \<times> int \<Rightarrow> nat \<Rightarrow> redis_server \<Rightarrow> bool" where
  "log_ok lim n srv \<longleftrightarrow> time_limit_us (slowlog srv) = fst lim \<and> max_len (slowlog srv) = snd lim \<and> 0 \<le> fst lim \<and> int n \<le> snd lim \<and> length (entries (slowlog srv)) = n"

definition slow_args :: "redis_server \<Rightarrow> nat set" where
  "slow_args srv = (\<Union>e \<in> set (entries (slowlog srv)). set (se_argv e))"

definition single :: "obj_heap \<Rightarrow> nat \<Rightarrow> bool" where
  "single h a \<longleftrightarrow> (\<exists>obj. cells h a = Some obj \<and> refcount obj = 1)"

definition peer_ok :: "sys \<Rightarrow> bool \<Rightarrow> int \<Rightarrow> nat \<Rightarrow> redis_server \<Rightarrow> string \<Rightarrow> redis_client \<Rightarrow> spec_client \<Rightarrow> bool" where
  "peer_ok S one bulk_max fuel srv w rc c \<longleftrightarrow>
     (if gone c then leaving S rc
      else client_ok S srv rc (todo c) (to_come c) \<and> list_all (frame_ok one bulk_max) (todo c) \<and> length (stream (todo c)) < 2 ^ 62) \<and>
     length (todo c) < fuel \<and> dbid rc = 0 \<and> w @ sent rc = answered c \<and> (answered c \<noteq> [] \<longrightarrow> lastcmd rc \<noteq> None)"

definition srv_ok :: "sys \<Rightarrow> int \<Rightarrow> redis_server \<Rightarrow> keyspace \<Rightarrow> bool" where
  "srv_ok S bulk_max srv m \<longleftrightarrow> srv_inv S srv 0 \<and> table_ready S srv \<and> metric_inv (metric_dict S) (server_metric srv) \<and>
     proto_max_bulk_len srv = bulk_max \<and> contents srv 0 = m"

text \<open>The objects that neither the database nor a client refers to.\<close>

definition unreferenced :: "network \<Rightarrow> nat set" where
  "unreferenced net = {a. cells (heap (net_srv net)) a \<noteq> None \<and> a \<notin> ran (db_vals (dbs (net_srv net) ! 0)) \<and>
     (\<forall>j rc. net_clients net j = Some rc \<longrightarrow> a \<notin> set (pend rc))}"

definition net_ok :: "sys \<Rightarrow> net_lib \<Rightarrow> nat set \<Rightarrow> bool \<Rightarrow> int \<Rightarrow> int \<times> int \<Rightarrow> (nat \<Rightarrow> framed list) \<Rightarrow> nat \<Rightarrow> spec_net \<Rightarrow> network \<Rightarrow> bool" where
  "net_ok S N K one bulk_max lim plan fuel \<sigma> net \<longleftrightarrow> net_laws N \<and> (\<forall>i. length (plan i) < fuel) \<and> srv_ok S bulk_max (net_srv net) (held_keys \<sigma>) \<and>
     (\<forall>j. rel_option (peer_ok S one bulk_max fuel (net_srv net) (wire net j)) (net_clients net j) (peers \<sigma> j)) \<and>
     (\<forall>j k rc rk. j \<noteq> k \<longrightarrow> net_clients net j = Some rc \<longrightarrow> net_clients net k = Some rk \<longrightarrow> set (pend rc) \<inter> set (pend rk) = {}) \<and>
     log_ok lim (slow_count \<sigma>) (net_srv net) \<and> (\<forall>a \<in> slow_args (net_srv net). a \<in> unreferenced net \<and> single (heap (net_srv net)) a) \<and>
     (tidy \<sigma> \<longrightarrow> unreferenced net - slow_args (net_srv net) = K)"

text \<open>Seen from one connection: the objects of the others.\<close>

definition elsewhere :: "nat \<Rightarrow> (nat \<rightharpoonup> redis_client) \<Rightarrow> nat set" where
  "elsewhere j cs = {a. \<exists>k rc. k \<noteq> j \<and> cs k = Some rc \<and> a \<in> set (pend rc)}"

lemma elsewhere_upd [simp]: "elsewhere j (cs(j := x)) = elsewhere j cs"
  unfolding elsewhere_def by (metis fun_upd_apply)

lemma unreferenced_client:
  assumes "net_clients net j = Some rc"
  shows "unreferenced net = others (net_srv net) 0 rc - elsewhere j (net_clients net)"
proof -
  have "(\<forall>k rk. net_clients net k = Some rk \<longrightarrow> a \<notin> set (pend rk)) \<longleftrightarrow> a \<notin> set (pend rc) \<and> a \<notin> elsewhere j (net_clients net)" for a
    unfolding elsewhere_def mem_Collect_eq using assms by (metis option.inject)
  then show ?thesis unfolding unreferenced_def others_def by blast
qed

lemma unreferenced_none:
  assumes "net_clients net j = None"
  shows "unreferenced net = dom (cells (heap (net_srv net))) - ran (db_vals (dbs (net_srv net) ! 0)) - elsewhere j (net_clients net)"
proof -
  have "(\<forall>k rk. net_clients net k = Some rk \<longrightarrow> a \<notin> set (pend rk)) \<longleftrightarrow> a \<notin> elsewhere j (net_clients net)" for a
    unfolding elsewhere_def mem_Collect_eq using assms by (metis option.distinct(1))
  then show ?thesis unfolding unreferenced_def by blast
qed

lemma peer_ok_owns:
  assumes "peer_ok S one bulk_max fuel srv w rc c"
  shows "pos rc \<le> length (buf rc)" "\<forall>a\<in>set (pend rc). cells (heap srv) a \<noteq> None \<and> a \<notin> ran (db_vals (dbs srv ! 0))"
  using assms client_mid_owns [of S srv rc "todo c" "to_come c"] by (auto simp: peer_ok_def client_ok_def leaving_def split: if_split_asm)

lemma peer_ok_transfer:
  assumes "peer_ok S one bulk_max fuel srv w rc c" "same_request rc rc'" "pos rc' \<le> length (buf rc')" "unread rc' = unread rc" "w' @ sent rc' = w @ sent rc"
    "\<forall>a\<in>set (pend rc). cells (heap srv') a = cells (heap srv) a \<and> a \<notin> ran (db_vals (dbs srv' ! 0))"
  shows "peer_ok S one bulk_max fuel srv' w' rc' c"
  using assms client_mid_transfer [of S srv rc "todo c" "to_come c" rc' "to_come c" srv']
  by (auto simp: peer_ok_def client_ok_def same_request_def leaving_def split: if_split_asm)

lemma same_request_refl [simp]: "same_request rc rc"
  by (simp add: same_request_def)

text \<open>One connection changes, together with the server, and the others keep what they have.\<close>

lemma net_ok_update:
  assumes ok: "net_ok S N K one bulk_max lim plan fuel \<sigma> net" and j: "net_clients net j = Some rc" and srv: "srv_ok S bulk_max srv' m"
    and peer: "peer_ok S one bulk_max fuel srv' w rc' c'"
    and sp: "spares (net_srv net) rc srv' rc'" "dbid rc = 0" "slowlog srv' = slowlog (net_srv net)"
  shows "net_ok S N K one bulk_max lim plan fuel (\<sigma>\<lparr>held_keys := m, peers := (peers \<sigma>)(j \<mapsto> c')\<rparr>)
    (net\<lparr>net_srv := srv', net_clients := (net_clients net)(j \<mapsto> rc'), wire := (wire net)(j := w)\<rparr>)"
proof -
  let ?net = "net\<lparr>net_srv := srv', net_clients := (net_clients net)(j \<mapsto> rc'), wire := (wire net)(j := w)\<rparr>"
  have spared: "\<forall>a. cells (heap (net_srv net)) a \<noteq> None \<longrightarrow> a \<notin> ran (db_vals (dbs (net_srv net) ! 0)) \<longrightarrow> a \<notin> set (pend rc) \<longrightarrow>
      cells (heap srv') a = cells (heap (net_srv net)) a \<and> a \<notin> ran (db_vals (dbs srv' ! 0)) \<and> a \<notin> set (pend rc')"
    using sp unfolding spares_def others_def by auto
  have un: "unreferenced ?net = unreferenced net" using unreferenced_client [OF j] unreferenced_client [of ?net j rc'] sp by (simp add: spares_def)
  have "cells (heap srv') a = cells (heap (net_srv net)) a" if "a \<in> unreferenced net" for a
    using that sp unfolding unreferenced_client [OF j] spares_def by simp
  then have memory: "log_ok lim (slow_count \<sigma>) srv' \<and> (\<forall>a \<in> slow_args srv'. a \<in> unreferenced ?net \<and> single (heap srv') a) \<and> (tidy \<sigma> \<longrightarrow> unreferenced ?net - slow_args srv' = K)"
    using ok un sp(3) by (simp add: net_ok_def log_ok_def slow_args_def single_def)
  have other: "rel_option (peer_ok S one bulk_max fuel (net_srv net) (wire net k)) (net_clients net k) (peers \<sigma> k)" for k using ok by (simp add: net_ok_def)
  have alone: "a \<notin> set (pend rc) \<and> cells (heap (net_srv net)) a \<noteq> None \<and> a \<notin> ran (db_vals (dbs (net_srv net) ! 0))"
    if k: "k \<noteq> j" "net_clients net k = Some rk" "a \<in> set (pend rk)" for k rk a
  proof -
    obtain ck where "peer_ok S one bulk_max fuel (net_srv net) (wire net k) rk ck" using other [of k] k(2) by (auto simp: option_rel_Some1)
    moreover have "set (pend rk) \<inter> set (pend rc) = {}" using ok j k(1,2) unfolding net_ok_def by blast
    ultimately show ?thesis using peer_ok_owns(2) k(3) by fastforce
  qed
  have keep: "rel_option (peer_ok S one bulk_max fuel srv' (wire net k)) (net_clients net k) (peers \<sigma> k)" if "k \<noteq> j" for k
  proof (cases "net_clients net k")
    case (Some rk)
    then obtain ck where c: "peers \<sigma> k = Some ck" "peer_ok S one bulk_max fuel (net_srv net) (wire net k) rk ck" using other [of k] by (auto simp: option_rel_Some1)
    have "peer_ok S one bulk_max fuel srv' (wire net k) rk ck"
      by (rule peer_ok_transfer [OF c(2)]) (use peer_ok_owns(1) [OF c(2)] alone [OF that Some] spared in simp_all)
    then show ?thesis using Some c(1) by simp
  qed (use other [of k] in simp)
  have apart: "set (pend rc') \<inter> set (pend rk) = {}" "set (pend rk) \<inter> set (pend rc') = {}" if "k \<noteq> j" "net_clients net k = Some rk" for k rk
    using alone [OF that] spared by auto
  have "set (pend r1) \<inter> set (pend r2) = {}" if "k \<noteq> l" "((net_clients net)(j \<mapsto> rc')) k = Some r1" "((net_clients net)(j \<mapsto> rc')) l = Some r2" for k l r1 r2
  proof (cases "k = j \<or> l = j")
    case True
    then show ?thesis using that apart by (metis fun_upd_apply option.inject)
  next
    case False
    then show ?thesis using that ok unfolding net_ok_def by (metis fun_upd_apply)
  qed
  then show ?thesis using ok srv peer keep memory unfolding net_ok_def by simp
qed

text \<open>Only the server changes, in what no connection looks at.\<close>

lemma net_ok_server:
  assumes ok: "net_ok S N K one bulk_max lim plan fuel \<sigma> net" and srv: "srv_ok S bulk_max srv' (held_keys \<sigma>)"
    and same: "cells (heap srv') = cells (heap (net_srv net))" "dbs srv' = dbs (net_srv net)" "slowlog srv' = slowlog (net_srv net)"
  shows "net_ok S N K one bulk_max lim plan fuel \<sigma> (net\<lparr>net_srv := srv'\<rparr>)"
proof -
  have "peer_ok S one bulk_max fuel srv' w rc c" if p: "peer_ok S one bulk_max fuel (net_srv net) w rc c" for w rc c
    by (rule peer_ok_transfer [OF p]) (use peer_ok_owns [OF p] same in simp_all)
  then have "rel_option (peer_ok S one bulk_max fuel srv' w) a b" if "rel_option (peer_ok S one bulk_max fuel (net_srv net) w) a b" for w a b
    using that by (auto elim: option.rel_mono_strong)
  moreover have "unreferenced (net\<lparr>net_srv := srv'\<rparr>) = unreferenced net" using same by (simp add: unreferenced_def)
  moreover have "log_ok lim n srv' = log_ok lim n (net_srv net)" "slow_args srv' = slow_args (net_srv net)" "single (heap srv') = single (heap (net_srv net))" for n
    using same by (simp_all add: log_ok_def slow_args_def single_def fun_eq_iff)
  ultimately show ?thesis using ok srv unfolding net_ok_def by auto
qed

text \<open>The hook at the end of a command makes objects of its own, or none.\<close>

lemma net_ok_logged:
  assumes ok: "net_ok S N K one bulk_max lim plan fuel \<sigma> net" and new: "fresh_copies (lib S) (heap (net_srv net)) h bs ts" "list_all (\<lambda>w. int (length w) \<le> llong_max) ts"
    and m: "entries m = entries (slowlog (net_srv net)) @ es" "(\<Union>e \<in> set es. set (se_argv e)) = set bs" "max_len m = snd lim" "time_limit_us m = fst lim" "int (length (entries m)) \<le> snd lim"
    and srv': "srv' = (net_srv net)\<lparr>slowlog := m, heap := h, metric_stat_numcommands := k\<rparr>"
  shows "net_ok S N K one bulk_max lim plan fuel (\<sigma>\<lparr>slow_count := length (entries m)\<rparr>) (net\<lparr>net_srv := srv'\<rparr>)"
proof -
  let ?srv = "net_srv net" and ?net = "net\<lparr>net_srv := srv'\<rparr>"
  have srv: "srv_ok S bulk_max ?srv (held_keys \<sigma>)" and log: "log_ok lim (slow_count \<sigma>) ?srv" "\<forall>a \<in> slow_args ?srv. a \<in> unreferenced net \<and> single (heap ?srv) a"
    "tidy \<sigma> \<longrightarrow> unreferenced net - slow_args ?srv = K" using ok by (simp_all add: net_ok_def)
  then have inv: "srv_inv S ?srv 0" by (simp add: srv_ok_def)
  note f = fresh_copiesD [OF new(1)] and q = fresh_request(1,2) [OF inv new]
  have unused: "cells (heap ?srv) b = None" if "b \<in> set bs" for b using f(4) [OF that] srv_invD(7) [OF inv] unfolding heap_wf_def by (metis not_less)
  then have old: "cells h a = cells (heap ?srv) a" if "cells (heap ?srv) a \<noteq> None" for a using that f(5) [of a] by metis
  have ok': "srv_ok S bulk_max srv' (held_keys \<sigma>)" using srv q by (simp add: srv_ok_def srv' srv_inv_def table_ready_def contents_def fun_eq_iff)
  have "peer_ok S one bulk_max fuel srv' w rc c" if p: "peer_ok S one bulk_max fuel ?srv w rc c" for w rc c
    by (rule peer_ok_transfer [OF p]) (use peer_ok_owns [OF p] old in \<open>simp_all add: srv'\<close>)
  then have peers': "rel_option (peer_ok S one bulk_max fuel srv' w) a b" if "rel_option (peer_ok S one bulk_max fuel ?srv w) a b" for w a b
    using that by (auto elim: option.rel_mono_strong)
  have own: "b \<notin> ran (db_vals (dbs ?srv ! 0))" "net_clients net j = Some rc \<Longrightarrow> b \<notin> set (pend rc)" if b: "b \<in> set bs" for b j rc
  proof -
    show "b \<notin> ran (db_vals (dbs ?srv ! 0))" using srv_invD(8) [OF inv] unused [OF b] unfolding db_owns_def ran_def by force
    assume "net_clients net j = Some rc"
    then obtain d where "peer_ok S one bulk_max fuel ?srv (wire net j) rc d" using ok unfolding net_ok_def by (metis option_rel_Some1)
    then show "b \<notin> set (pend rc)" using peer_ok_owns(2) unused [OF b] by fastforce
  qed
  have "cells h a \<noteq> None \<longleftrightarrow> cells (heap ?srv) a \<noteq> None \<or> a \<in> set bs" for a using f(3) [of a] f(5) [of a] unused by (cases "a \<in> set bs") auto
  then have un: "unreferenced ?net = unreferenced net \<union> set bs" using own by (auto simp: unreferenced_def srv')
  have sa: "slow_args srv' = slow_args ?srv \<union> set bs" using m(1,2) by (auto simp: slow_args_def srv')
  have "set bs \<inter> unreferenced net = {}" using unused by (auto simp: unreferenced_def)
  moreover have "single h a" if "a \<in> slow_args srv'" for a
  proof (cases "a \<in> set bs")
    case False
    then have "single (heap ?srv) a" using that sa log(2) by blast
    then show ?thesis using f(5) [OF False] by (simp add: single_def)
  qed (use f(3) in \<open>simp add: single_def\<close>)
  ultimately have "(\<forall>a \<in> slow_args srv'. a \<in> unreferenced ?net \<and> single h a) \<and> (tidy \<sigma> \<longrightarrow> unreferenced ?net - slow_args srv' = K)"
    using log(2,3) unfolding un sa by blast
  moreover have "log_ok lim (length (entries m)) srv'" using log(1) m(3-5) by (simp add: log_ok_def srv')
  ultimately show ?thesis using ok ok' peers' unfolding net_ok_def by (auto simp: srv')
qed

section \<open>The steps\<close>

lemma due_le: "length (due f frs) \<le> length frs"
  by (induction frs) simp_all

lemma stream_drop: "length (stream (drop n frs)) \<le> length (stream frs)"
proof -
  have "stream frs = stream (take n frs) @ stream (drop n frs)" by (simp add: stream_def flip: concat_append map_append)
  then show ?thesis by simp
qed

lemma serve_received:
  assumes srv: "srv_ok S bulk_max srv m" and peer: "peer_ok S one bulk_max fuel srv w rc c" and N: "net_laws N"
    and here: "\<not> gone c" and s: "take (length s) (to_come c) = s" "f = drop (length s) (to_come c)" "ws = due (length f) (todo c)"
    and spec: "spec_session (lib S) clock 0 (map frame_words ws) m = Some (m', out)" and one: "one \<Longrightarrow> \<forall>k. lf k = 1"
  obtains srv' rc' r where "redis_client_handle S clock lf self fuel srv (net_recv N rc s) n = Some (Inr (srv', rc', r))"
    "srv_ok S bulk_max srv' m'" "peer_ok S one bulk_max fuel srv' w rc' \<lparr>todo = drop (length ws) (todo c), to_come = f, answered = answered c @ out, gone = list_ex quits (map frame_words ws)\<rparr>"
    "spares srv rc srv' rc'" "slowlog srv' = slowlog srv"
proof -
  note own = client_mid_owns [of S srv rc "todo c" "to_come c"]
  define rc1 where "rc1 = (if flag (net_recv N rc s) AND CLIENT_MASTER \<noteq> 0 then (net_recv N rc s)\<lparr>read_reploff := wrap64 (read_reploff (net_recv N rc s) + n)\<rparr> else net_recv N rc s)"
  note r = net_recv_spec [OF N peer_ok_owns(1) [OF peer], of s]
  have rc1: "same_request rc rc1" "unread rc1 = unread rc @ s" "sent rc1 = sent rc" "pos rc1 \<le> length (buf rc1)" "buf rc1 = buf (net_recv N rc s)"
    using r(1-4) unfolding rc1_def by (simp_all add: same_request_def unread_def sent_def buf_def pos_def)
  have mid: "client_mid S srv rc (todo c) (to_come c)" and c: "dbid rc = 0" "list_all (frame_ok one bulk_max) (todo c)" "length (todo c) < fuel" "length (stream (todo c)) < 2 ^ 62"
    "w @ sent rc = answered c" "answered c \<noteq> [] \<longrightarrow> lastcmd rc \<noteq> None"
    using peer here by (simp_all add: peer_ok_def client_ok_def)
  have sf: "s @ f = to_come c" using s(1,2) by (metis append_take_drop_id)
  have "length (unread rc @ s) < 2 ^ 62" using own(3) [OF mid] c(4) unfolding sf [symmetric] by simp
  then have short: "length (buf rc1) < 2 ^ 62" using r(5) rc1(5) by simp
  from sf have mid1: "client_mid S srv rc1 (todo c) f"
    by (intro client_mid_transfer [OF mid rc1(1,4)]) (use rc1(2) own(2) [OF mid] in auto)
  have i: "dbid rc1 = 0" "lastcmd rc1 = lastcmd rc" using rc1(1) c(1) by (simp_all add: same_request_def)
  have srv0: "srv_inv S srv (dbid rc1)" "table_ready S srv" "list_all (frame_ok (\<forall>k. lf k = 1) (proto_max_bulk_len srv)) (todo c)"
    "spec_session (lib S) clock 0 (map frame_words (due (length f) (todo c))) (contents srv (dbid rc1)) = Some (m', out)"
    using srv frame_ok_mono [OF c(2) one] i(1) spec s(3) by (simp_all add: srv_ok_def)
  have fuel: "length (due (length f) (todo c)) < fuel" using c(3) due_le [of "length f" "todo c"] by simp
  obtain srv' rc' where h: "redis_process_input_buffer S clock lf self fuel 0 srv rc1 = Some (Inr (srv', rc', if pos rc' \<noteq> 0 then 1 else 0))"
    "ran_stream S srv rc1 (map frame_words ws) (drop (length ws) (todo c)) f m' out srv' rc'"
    using serve_stream [OF srv0(1,2) mid1 srv0(3) short srv0(4) fuel, of self] s(3) by auto
  have k: "srv_inv S srv' 0" "contents srv' 0 = m'" "\<exists>db h. srv' = (db_put srv 0 db)\<lparr>heap := h\<rparr>" "if list_ex quits (map frame_words ws) then leaving S rc' else client_ok S srv' rc' (drop (length ws) (todo c)) f"
    "dbid rc' = 0" "sent rc' = sent rc1 @ out" "spares srv rc1 srv' rc'" "map frame_words ws \<noteq> [] \<or> lastcmd rc1 \<noteq> None \<longrightarrow> lastcmd rc' \<noteq> None"
    using h(2) i(1) unfolding ran_stream_def by (auto split: if_split_asm)
  then have last: "out \<noteq> [] \<or> lastcmd rc1 \<noteq> None \<longrightarrow> lastcmd rc' \<noteq> None" using spec by (cases ws) auto
  have 1: "redis_client_handle S clock lf self fuel srv (net_recv N rc s) n = Some (Inr (srv', rc', if pos rc' \<noteq> 0 then 1 else 0))"
    unfolding redis_client_handle_def rc1_def [symmetric] by (rule h(1))
  have 2: "srv_ok S bulk_max srv' m'" using srv k(1-3) by (auto simp: srv_ok_def db_put_def table_ready_def)
  have 3: "peer_ok S one bulk_max fuel srv' w rc' \<lparr>todo = drop (length ws) (todo c), to_come = f, answered = answered c @ out, gone = list_ex quits (map frame_words ws)\<rparr>"
    using k(4-6) last c rc1(3) i(2) le_less_trans [OF stream_drop c(4), of "length ws"] by (simp add: peer_ok_def list_all_iff) (auto dest: in_set_dropD)
  have 4: "spares srv rc srv' rc'" using k(7) c(1) i(1) same_request_pend [OF rc1(1)] by (simp add: spares_def others_def)
  have 5: "slowlog srv' = slowlog srv" using k(3) by (auto simp: db_put_def)
  show thesis by (rule that [OF 1 2 3 4 5])
qed

text \<open>Bytes from a connection that has taken leave.\<close>

lemma ignore_received:
  assumes peer: "peer_ok S one bulk_max fuel srv w rc c" and N: "net_laws N" and gone: "gone c"
  obtains rc' r where "redis_client_handle S clock lf self fuel srv (net_recv N rc s) n = Some (Inr (srv, rc', r))"
    "peer_ok S one bulk_max fuel srv w rc' (c\<lparr>to_come := f\<rparr>)" "pend rc' = pend rc"
proof -
  define rc1 where "rc1 = (if flag (net_recv N rc s) AND CLIENT_MASTER \<noteq> 0 then (net_recv N rc s)\<lparr>read_reploff := wrap64 (read_reploff (net_recv N rc s) + n)\<rparr> else net_recv N rc s)"
  note r = net_recv_spec [OF N peer_ok_owns(1) [OF peer], of s]
  have rc1: "same_request rc rc1" "sent rc1 = sent rc" "pos rc1 \<le> length (buf rc1)"
    using r(1-4) unfolding rc1_def by (simp_all add: same_request_def sent_def buf_def pos_def)
  have c: "leaving S rc" "0 < fuel" using peer gone by (auto simp: peer_ok_def)
  then have l: "leaving S rc1" using rc1 by (simp add: leaving_def same_request_def)
  have "redis_client_handle S clock lf self fuel srv (net_recv N rc s) n = Some (Inr (srv, rc1, if pos rc1 \<noteq> 0 then 1 else 0))"
    unfolding redis_client_handle_def rc1_def [symmetric] by (rule leaving_ends [OF l c(2)])
  moreover have "peer_ok S one bulk_max fuel srv w rc1 (c\<lparr>to_come := f\<rparr>)" using peer gone l rc1 by (simp add: peer_ok_def same_request_def)
  ultimately show thesis using that same_request_pend [OF rc1(1)] by blast
qed

text \<open>A connection of which no byte of the next request has come is at rest.\<close>

lemma client_at_rest:
  assumes "client_mid S srv rc frs F" "F = stream frs"
  shows "argc rc = 0"
  using assms(1)
proof (cases rule: client_mid_cases)
  case (reading ts us P frs')
  have len: "length (unread rc) + length (request (ts @ us)) = length P" using arg_cong [OF reading(4), of length] assms(2) reading(1) by simp
  from reading(2) [unfolded parsing_def] show ?thesis
  proof (elim disjE exE conjE)
    fix ds us' assume u: "us' \<noteq> []" "us = ds @ us'" "P = expected (bulk_len rc) us'"
    show ?thesis using expected_short [OF u(1), of "bulk_len rc" "ts @ ds"] len u by simp
  qed (simp add: idle_def)
qed (simp add: idle_def)

text \<open>What a client has read of the request it is in: the texts \<open>ts\<close>, in objects of its own.\<close>

lemma client_mid_pending:
  assumes "client_mid S srv rc frs F"
  obtains ts where "args_of rc (pend rc)" "request_args (lib S) (dbs srv ! dbid rc) (heap srv) (pend rc) ts" "ts = [] \<or> (\<exists>us frs'. us \<noteq> [] \<and> frs = Multi (ts @ us) # frs')"
  using assms
proof (cases rule: client_mid_cases)
  case rest
  then show thesis using that [of "[]"] by (simp add: idle_def args_of_def request_args_def)
next
  case (reading ts us P frs')
  have "args_of rc (pend rc)" using reading(2) unfolding parsing_def by (auto simp: idle_def args_of_def midway_def fresh_copies_none)
  then show thesis using that [OF _ reading(3)] reading(1,5) by blast
qed

lemma slow_texts_short: "list_all (\<lambda>w. int (length w) \<le> llong_max) ts \<Longrightarrow> list_all (\<lambda>w. int (length w) \<le> llong_max) (slow_texts ts)"
proof -
  have one: "int (length (slow_text w)) \<le> llong_max" if "int (length w) \<le> llong_max" for w
    using that length_dec [of "int (length w) - 128"] by (auto simp: slow_text_def SLOWLOG_ENTRY_MAX_STRING_def)
  assume "list_all (\<lambda>w. int (length w) \<le> llong_max) ts"
  then have "list_all (\<lambda>w. int (length w) \<le> llong_max) (map slow_text (take n ts))" for n
    using one by (auto simp: list_all_iff dest: in_set_takeD)
  from this [of "length ts"] this [of 31] show ?thesis using length_dec [of 1] by (simp add: slow_texts_def SLOWLOG_ENTRY_MAX_ARGC_def)
qed

lemma request_texts:
  assumes "object_laws L" "request_args L db h as ts"
  shows "arg_texts L h as ts" "list_all (\<lambda>w. int (length w) \<le> llong_max) ts"
proof -
  have two: "list_all2 (arg_at L db h) as ts" using assms(2) by (simp add: request_args_def)
  have "1 \<noteq> OBJ_SHARED_REFCOUNT L" using assms(1) by (simp add: object_laws_def)
  then show "arg_texts L h as ts" using two unfolding arg_texts_def list_all2_conv_all_nth arg_at_def by metis
  show "list_all (\<lambda>w. int (length w) \<le> llong_max) ts" using two unfolding list_all2_conv_all_nth arg_at_def list_all_length by metis
qed

text \<open>
  The hook at the end of a command, for a client that may have read a part of its next request: a slow command gets an entry, with the name of the command and copies of what the
  client has read since.
\<close>

lemma command_end_logs:
  assumes S: "sys_laws S" and wf: "heap_wf (heap srv)" and log: "log_ok lim n srv" and c: "lastcmd rc = Some c"
    and args: "args_of rc (pend rc)" "request_args (lib S) db (heap srv) (pend rc) ts" and room: "fst lim < duration rc \<longrightarrow> int n < snd lim"
  obtains es bs m h k where
    "redis_client_command_end S t name peer srv rc = Inr (srv\<lparr>slowlog := m, heap := h, metric_stat_numcommands := k\<rparr>)"
    "entries m = entries (slowlog srv) @ es" "max_len m = snd lim" "time_limit_us m = fst lim"
    "fst lim < duration rc \<longrightarrow> es = [entry_for rc c t name peer (next_id (slowlog srv)) bs] \<and> fresh_copies (lib S) (heap srv) h bs (slow_texts ts)"
    "\<not> fst lim < duration rc \<longrightarrow> es = [] \<and> bs = [] \<and> h = heap srv"
proof (cases "fst lim < duration rc")
  case True
  note L = sys_lawsD [OF S]
  obtain h bs where e: "slowlog_entry_new (lib S) t name peer (next_id (slowlog srv)) rc (heap srv) = Inr (entry_for rc c t name peer (next_id (slowlog srv)) bs, h)"
    "fresh_copies (lib S) (heap srv) h bs (slow_texts ts)"
    using slowlog_entry_new_spec [OF L(2,4) args(1) request_texts(1) [OF L(2) args(2)] wf c] by blast
  let ?m = "(slowlog srv)\<lparr>next_id := wrap64 (next_id (slowlog srv) + 1), entries := entries (slowlog srv) @ [entry_for rc c t name peer (next_id (slowlog srv)) bs]\<rparr>"
  have "\<not> too_long (entries ?m) (max_len ?m)" using log room True by (simp add: log_ok_def too_long_def)
  then have "slowlog_manager_push_if_needed (lib S) t name peer (slowlog srv) rc (heap srv) = Inr (?m, h)"
    using True log room e(1) by (simp add: slowlog_manager_push_if_needed_def log_ok_def slowlog_trim.simps)
  then show thesis using True e(2) log by (intro that [where m = ?m and h = h and es = "[entry_for rc c t name peer (next_id (slowlog srv)) bs]" and bs = bs]) (simp_all add: redis_client_command_end_def log_ok_def)
next
  case False
  have "\<not> too_long (entries (slowlog srv)) (max_len (slowlog srv))" using log by (simp add: log_ok_def too_long_def)
  then have "slowlog_manager_push_if_needed (lib S) t name peer (slowlog srv) rc (heap srv) = Inr (slowlog srv, heap srv)"
    using False log by (simp add: slowlog_manager_push_if_needed_def log_ok_def slowlog_trim.simps)
  then show thesis using False log by (intro that [where m = "slowlog srv" and h = "heap srv" and es = "[]" and bs = "[]"]) (simp_all add: redis_client_command_end_def log_ok_def)
qed

lemma run_cron_ok:
  assumes "srv_ok S bulk_max srv m"
  obtains srv' where "run_cron S t c srv = Inr srv'" "srv_ok S bulk_max srv' m" "heap srv' = heap srv" "dbs srv' = dbs srv" "slowlog srv' = slowlog srv"
proof (cases c)
  case Update_cache_time_cron
  then show thesis using that assms
    by (auto simp: run_cron_def update_cache_time_def srv_ok_def srv_inv_def table_ready_def contents_def fun_eq_iff)
next
  case Update_metric_cron
  obtain mt where mt: "metric_track_instantaneous (metric_dict S) (server_metric srv) ''command'' (metric_stat_numcommands srv) t 1000000 = Inr mt"
    "metric_inv (metric_dict S) mt"
    using metric_track_spec [of "metric_dict S" "server_metric srv" "''command''" "metric_stat_numcommands srv" t 1000000] assms
    by (auto simp: srv_ok_def)
  have "srv_ok S bulk_max (srv\<lparr>server_metric := mt\<rparr>) m" using assms mt(2)
    by (auto simp: srv_ok_def srv_inv_def table_ready_def contents_def fun_eq_iff)
  then show thesis using that [of "srv\<lparr>server_metric := mt\<rparr>"] mt(1) Update_metric_cron by (simp add: run_cron_def update_metric_cron_def)
qed

lemma net_ok_peer:
  assumes "net_ok S N K one bulk_max lim plan fuel \<sigma> net" "peers \<sigma> j = Some c"
  obtains rc where "net_clients net j = Some rc" "peer_ok S one bulk_max fuel (net_srv net) (wire net j) rc c"
  using assms unfolding net_ok_def by (metis option_rel_Some2)

lemma net_ok_srv: "net_ok S N K one bulk_max lim plan fuel \<sigma> net \<Longrightarrow> srv_ok S bulk_max (net_srv net) (held_keys \<sigma>) \<and> net_laws N"
  by (simp add: net_ok_def)

lemma create_redis_client_fields:
  "dbid (create_redis_client mem) = 0" "argc (create_redis_client mem) = argc mem" "req_type (create_redis_client mem) = req_type mem"
  "multi_bulk_len (create_redis_client mem) = 0" "bulk_len (create_redis_client mem) = -1" "cl_flags (client (create_redis_client mem)) = 0" "flag (create_redis_client mem) = flag mem"
  "argv (create_redis_client mem) = argv mem"
  "buf (create_redis_client mem) = buf mem" "pos (create_redis_client mem) = pos mem" "sent (create_redis_client mem) = sent mem"
  by (simp_all add: create_redis_client_def buf_def pos_def sent_def client_output_def)

lemma net_init_fields:
  assumes "net_laws N"
  shows "dbid (net_init N rc) = dbid rc" "argc (net_init N rc) = argc rc" "argv (net_init N rc) = argv rc" "req_type (net_init N rc) = req_type rc"
    "multi_bulk_len (net_init N rc) = multi_bulk_len rc" "bulk_len (net_init N rc) = bulk_len rc" "flag (net_init N rc) = flag rc"
    "cl_flags (client (net_init N rc)) = cl_flags (client rc)" "buf (net_init N rc) = []" "pos (net_init N rc) = 0" "sent (net_init N rc) = []"
proof -
  obtain cl where "net_init N rc = rc\<lparr>client := cl\<rparr>" "querybuf cl = []" "qb_pos cl = 0" "obuf cl = []" "reply cl = []" "cl_flags cl = cl_flags (client rc)"
    using assms unfolding net_laws_def by blast
  then show "dbid (net_init N rc) = dbid rc" "argc (net_init N rc) = argc rc" "argv (net_init N rc) = argv rc" "req_type (net_init N rc) = req_type rc"
    "multi_bulk_len (net_init N rc) = multi_bulk_len rc" "bulk_len (net_init N rc) = bulk_len rc" "flag (net_init N rc) = flag rc"
    "cl_flags (client (net_init N rc)) = cl_flags (client rc)" "buf (net_init N rc) = []" "pos (net_init N rc) = 0" "sent (net_init N rc) = []"
    by (simp_all add: buf_def pos_def sent_def client_output_def reply_bytes_of_def)
qed

lemma connect_ok:
  assumes ok: "net_ok S N K one bulk_max lim plan fuel \<sigma> net" and new: "peers \<sigma> j = None" "cleared mem" "list_all (frame_ok one bulk_max) (plan i)" "length (stream (plan i)) < 2 ^ 62"
  shows "net_ok S N K one bulk_max lim plan fuel (\<sigma>\<lparr>peers := (peers \<sigma>)(j \<mapsto> \<lparr>todo = plan i, to_come = stream (plan i), answered = [], gone = False\<rparr>)\<rparr>)
    (net\<lparr>net_clients := (net_clients net)(j \<mapsto> net_init N (create_redis_client mem)), wire := (wire net)(j := [])\<rparr>)"
proof -
  let ?c = "net_init N (create_redis_client mem)"
  have "net_laws N" using ok by (simp add: net_ok_def)
  note f = net_init_fields [OF this, of "create_redis_client mem"] create_redis_client_fields
  have c: "idle ?c" "req_type ?c = 0" "unread ?c = []" "pend ?c = []" "sent ?c = []"
    using new(2) by (simp_all add: idle_def cleared_def f unread_def)
  have "client_mid S (net_srv net) ?c (plan i) (stream (plan i))"
    by (rule client_mid_rest [OF c(1,2) _ _ _ new(3)]) (use c(3) new(2) in \<open>simp_all add: f cleared_def\<close>)
  moreover have "due (length (stream (plan i))) (plan i) = []"
    using nothing_due calculation c(3) by blast
  moreover have "length (plan i) < fuel" using ok by (simp add: net_ok_def)
  ultimately have "peer_ok S one bulk_max fuel (net_srv net) [] ?c \<lparr>todo = plan i, to_come = stream (plan i), answered = [], gone = False\<rparr>"
    using c(5) new(3,4) by (simp add: peer_ok_def client_ok_def f)
  moreover have "net_clients net j = None" using ok new(1) unfolding net_ok_def by (metis option_rel_Some1 option.distinct(1) not_None_eq)
  then have "unreferenced (net\<lparr>net_clients := (net_clients net)(j \<mapsto> ?c), wire := (wire net)(j := [])\<rparr>) = unreferenced net"
    using c(4) by (subst (1 2) unreferenced_none unreferenced_client [where j = j]) (auto simp: others_def)
  ultimately show ?thesis using ok c(4) unfolding net_ok_def by auto
qed

lemma peer_at_rest: "peer_ok S one bulk_max fuel srv w rc c \<Longrightarrow> at_rest c \<Longrightarrow> argc rc = 0"
  using client_at_rest by (auto simp: peer_ok_def client_ok_def leaving_def at_rest_def split: if_split_asm)

text \<open>A client that leaves in the middle of a request takes its record with it and leaves its arguments behind.\<close>

lemma disconnect_leaves:
  assumes ok: "net_ok S N K one bulk_max lim plan fuel \<sigma> net" and c: "net_clients net j = Some rc"
  shows "unreferenced (net\<lparr>net_clients := redis_client_delete j (net_clients net)\<rparr>) = unreferenced net \<union> set (pend rc)"
proof -
  obtain d where d: "peer_ok S one bulk_max fuel (net_srv net) (wire net j) rc d" using ok c unfolding net_ok_def by (metis option_rel_Some1)
  have "set (pend rc) \<inter> elsewhere j (net_clients net) = {}" using ok c unfolding net_ok_def elsewhere_def by blast
  moreover have "a \<in> dom (cells (heap (net_srv net))) \<and> a \<notin> ran (db_vals (dbs (net_srv net) ! 0))" if "a \<in> set (pend rc)" for a
    using peer_ok_owns(2) [OF d] that by auto
  moreover have "unreferenced (net\<lparr>net_clients := redis_client_delete j (net_clients net)\<rparr>) =
      dom (cells (heap (net_srv net))) - ran (db_vals (dbs (net_srv net) ! 0)) - elsewhere j (net_clients net)"
    using unreferenced_none [of "net\<lparr>net_clients := redis_client_delete j (net_clients net)\<rparr>" j] by (simp add: redis_client_delete_def)
  moreover have "others (net_srv net) 0 rc = dom (cells (heap (net_srv net))) - ran (db_vals (dbs (net_srv net) ! 0)) - set (pend rc)"
    by (auto simp: others_def)
  ultimately show ?thesis unfolding unreferenced_client [OF c] by blast
qed

lemma disconnect_ok:
  assumes ok: "net_ok S N K one bulk_max lim plan fuel \<sigma> net"
  shows "net_ok S N K one bulk_max lim plan fuel (\<sigma>\<lparr>peers := (peers \<sigma>)(j := None), tidy := tidy \<sigma> \<and> pred_option at_rest (peers \<sigma> j)\<rparr>)
    (net\<lparr>net_clients := redis_client_delete j (net_clients net)\<rparr>)"
proof -
  let ?net = "net\<lparr>net_clients := redis_client_delete j (net_clients net)\<rparr>" and ?old = "slow_args (net_srv net)"
  have more: "unreferenced net \<subseteq> unreferenced ?net" by (auto simp: unreferenced_def redis_client_delete_def split: if_split_asm)
  have "unreferenced ?net - ?old = K" if t: "tidy \<sigma>" "pred_option at_rest (peers \<sigma> j)"
  proof (cases "net_clients net j")
    case None
    then have "redis_client_delete j (net_clients net) = net_clients net" by (auto simp: redis_client_delete_def)
    then show ?thesis using ok t(1) by (simp add: net_ok_def unreferenced_def)
  next
    case (Some rc)
    obtain c where c: "peers \<sigma> j = Some c" "peer_ok S one bulk_max fuel (net_srv net) (wire net j) rc c" using ok Some unfolding net_ok_def by (metis option_rel_Some1)
    have "pend rc = []" using peer_at_rest [OF c(2)] t(2) c(1) by simp
    then show ?thesis using disconnect_leaves [OF ok Some] ok t(1) by (simp add: net_ok_def)
  qed
  moreover have "\<forall>a \<in> ?old. a \<in> unreferenced ?net \<and> single (heap (net_srv net)) a" using ok more unfolding net_ok_def by blast
  ultimately show ?thesis using ok unfolding net_ok_def by (auto simp: redis_client_delete_def)
qed

lemma receive_ok:
  assumes ok: "net_ok S N K one bulk_max lim plan fuel \<sigma> net" and spec: "spec_event (lib S) one bulk_max lim clock plan i (Receive j s) \<sigma> = Some \<sigma>'" and one: "one \<Longrightarrow> \<forall>k. lf k = 1"
  shows "\<exists>net'. net_step S N (clock i) lf fuel (Receive j s) net = Some (Inr net') \<and> net_ok S N K one bulk_max lim plan fuel \<sigma>' net'"
proof -
  obtain c where c: "peers \<sigma> j = Some c" "take (length s) (to_come c) = s" using spec by (auto simp: spec_event_def bind_eq_Some_conv split: if_splits)
  define f where "f = drop (length s) (to_come c)"
  define ws where "ws = due (length f) (todo c)"
  obtain rc where rc: "net_clients net j = Some rc" "peer_ok S one bulk_max fuel (net_srv net) (wire net j) rc c" by (rule net_ok_peer [OF ok c(1)])
  have i: "dbid rc = 0" using rc(2) by (simp add: peer_ok_def)
  have finish: ?thesis
    if "redis_client_handle S (clock i) lf j fuel (net_srv net) (net_recv N rc s) (int (length s)) = Some (Inr (srv', rc', r))" "srv_ok S bulk_max srv' m"
      "peer_ok S one bulk_max fuel srv' (wire net j) rc' c'" "spares (net_srv net) rc srv' rc'" "slowlog srv' = slowlog (net_srv net)" "\<sigma>' = \<sigma>\<lparr>held_keys := m, peers := (peers \<sigma>)(j \<mapsto> c')\<rparr>" for srv' rc' r m c'
  proof -
    have "net_ok S N K one bulk_max lim plan fuel \<sigma>' (net\<lparr>net_srv := srv', net_clients := (net_clients net)(j \<mapsto> rc'), wire := (wire net)(j := wire net j)\<rparr>)"
      unfolding that(6) by (rule net_ok_update [OF ok rc(1) that(2-4) i that(5)])
    then show ?thesis using that(1) rc(1) by (simp add: net_step_def on_client_def)
  qed
  show ?thesis
  proof (cases "gone c")
    case True
    then have "\<sigma>' = \<sigma>\<lparr>held_keys := held_keys \<sigma>, peers := (peers \<sigma>)(j \<mapsto> c\<lparr>to_come := f\<rparr>)\<rparr>" using spec c unfolding f_def by (simp add: spec_event_def Let_def)
    moreover have "net_laws N" using net_ok_srv [OF ok] by simp
    from ignore_received [OF rc(2) this True, of "clock i" lf j s "int (length s)" f] obtain rc' r where
      "redis_client_handle S (clock i) lf j fuel (net_srv net) (net_recv N rc s) (int (length s)) = Some (Inr (net_srv net, rc', r))"
      "peer_ok S one bulk_max fuel (net_srv net) (wire net j) rc' (c\<lparr>to_come := f\<rparr>)" "pend rc' = pend rc" .
    ultimately show ?thesis using net_ok_srv [OF ok] by (intro finish) (auto intro: spares_same)
  next
    case False
    obtain m out where m: "spec_session (lib S) (clock i) 0 (map frame_words ws) (held_keys \<sigma>) = Some (m, out)"
      "\<sigma>' = \<sigma>\<lparr>held_keys := m, peers := (peers \<sigma>)(j \<mapsto>
         \<lparr>todo = drop (length ws) (todo c), to_come = f, answered = answered c @ out, gone = list_ex quits (map frame_words ws)\<rparr>)\<rparr>"
      using spec c False unfolding ws_def f_def by (auto simp: spec_event_def Let_def)
    have "srv_ok S bulk_max (net_srv net) (held_keys \<sigma>)" "net_laws N" using net_ok_srv [OF ok] by simp_all
    from serve_received [OF this(1) rc(2) this(2) False c(2) f_def ws_def m(1) one, of j "int (length s)"] finish [OF _ _ _ _ _ m(2)] show ?thesis by blast
  qed
qed

lemma write_ok:
  assumes ok: "net_ok S N K one bulk_max lim plan fuel \<sigma> net" and c: "peers \<sigma> j = Some c"
  shows "\<exists>net'. net_step S N clock lf fuel (Write j) net = Some (Inr net') \<and> net_ok S N K one bulk_max lim plan fuel \<sigma> net'"
proof -
  obtain rc where rc: "net_clients net j = Some rc" "peer_ok S one bulk_max fuel (net_srv net) (wire net j) rc c" by (rule net_ok_peer [OF ok c])
  have N: "net_laws N" and srv: "srv_ok S bulk_max (net_srv net) (held_keys \<sigma>)" using net_ok_srv [OF ok] by simp_all
  note w = net_write_spec [OF N, of rc]
  have "peer_ok S one bulk_max fuel (net_srv net) (wire net j @ fst (net_write N rc)) (snd (net_write N rc)) c"
    by (rule peer_ok_transfer [OF rc(2) w(1)]) (use w peer_ok_owns [OF rc(2)] in simp_all)
  from net_ok_update [OF ok rc(1) srv this spares_same] have
    "net_ok S N K one bulk_max lim plan fuel (\<sigma>\<lparr>held_keys := held_keys \<sigma>, peers := (peers \<sigma>)(j \<mapsto> c)\<rparr>) (net\<lparr>net_srv := net_srv net,
       net_clients := (net_clients net)(j \<mapsto> snd (net_write N rc)), wire := (wire net)(j := wire net j @ fst (net_write N rc))\<rparr>)"
    using same_request_pend [OF w(1)] rc(2) by (simp add: peer_ok_def)
  moreover have "(peers \<sigma>)(j \<mapsto> c) = peers \<sigma>" using c by auto
  ultimately show ?thesis using rc(1) by (simp add: net_step_def on_client_def)
qed

lemma stamp_fields:
  "same_request rc (stamp t0 t1 rc)" "buf (stamp t0 t1 rc) = buf rc" "pos (stamp t0 t1 rc) = pos rc" "unread (stamp t0 t1 rc) = unread rc" "sent (stamp t0 t1 rc) = sent rc"
  "lastcmd (stamp t0 t1 rc) = lastcmd rc" "duration (stamp t0 t1 rc) = wrap64 (t1 - t0)"
  by (simp_all add: stamp_def same_request_def unread_def buf_def pos_def sent_def client_output_def duration_def)

lemma peer_pending:
  assumes "peer_ok S one bulk_max fuel srv w rc c"
  obtains ts where "args_of rc (pend rc)" "request_args (lib S) (dbs srv ! 0) (heap srv) (pend rc) ts"
proof (cases "gone c")
  case True
  then have "argc rc = 0" using assms by (simp add: peer_ok_def leaving_def)
  then show thesis using that [of "[]"] by (simp add: args_of_def request_args_def)
next
  case False
  then show thesis using assms client_mid_pending [of S srv rc "todo c" "to_come c"] that by (auto simp: peer_ok_def client_ok_def)
qed

lemma answered_ok:
  assumes ok: "net_ok S N K one bulk_max lim plan fuel \<sigma> net" and c: "peers \<sigma> j = Some c" "answered c \<noteq> []"
    and room: "fst lim < wrap64 (t1 - t0) \<longrightarrow> int (slow_count \<sigma>) < snd lim"
  shows "\<exists>net'. net_step S N clock lf fuel (Answered j t0 t1 t name peer) net = Some (Inr net') \<and>
    net_ok S N K one bulk_max lim plan fuel (if wrap64 (t1 - t0) \<le> fst lim then \<sigma> else \<sigma>\<lparr>slow_count := Suc (slow_count \<sigma>)\<rparr>) net'"
proof -
  obtain rc where rc: "net_clients net j = Some rc" "peer_ok S one bulk_max fuel (net_srv net) (wire net j) rc c" by (rule net_ok_peer [OF ok c(1)])
  let ?rc = "stamp t0 t1 rc" and ?srv = "net_srv net"
  define net1 where "net1 = net\<lparr>net_clients := (net_clients net)(j \<mapsto> ?rc)\<rparr>"
  have srv: "srv_ok S bulk_max ?srv (held_keys \<sigma>)" and log: "log_ok lim (slow_count \<sigma>) ?srv" using ok by (simp_all add: net_ok_def)
  have peer: "peer_ok S one bulk_max fuel ?srv (wire net j) ?rc c"
    by (rule peer_ok_transfer [OF rc(2)]) (use stamp_fields peer_ok_owns [OF rc(2)] in simp_all)
  have "net_ok S N K one bulk_max lim plan fuel (\<sigma>\<lparr>held_keys := held_keys \<sigma>, peers := (peers \<sigma>)(j \<mapsto> c)\<rparr>)
      (net\<lparr>net_srv := ?srv, net_clients := (net_clients net)(j \<mapsto> ?rc), wire := (wire net)(j := wire net j)\<rparr>)"
    by (rule net_ok_update [OF ok rc(1) srv peer spares_same]) (use same_request_pend [OF stamp_fields(1)] rc(2) in \<open>simp_all add: peer_ok_def\<close>)
  moreover have "(peers \<sigma>)(j \<mapsto> c) = peers \<sigma>" using c(1) by auto
  ultimately have ok1: "net_ok S N K one bulk_max lim plan fuel \<sigma> net1" by (simp add: net1_def)
  have inv: "sys_laws S" "heap_wf (heap ?srv)" using srv srv_invD(1,7) by (auto simp: srv_ok_def)
  obtain d where d: "lastcmd ?rc = Some d" using rc(2) c(2) by (auto simp: peer_ok_def stamp_fields)
  obtain ts where ts: "args_of ?rc (pend ?rc)" "request_args (lib S) (dbs ?srv ! 0) (heap ?srv) (pend ?rc) ts" by (rule peer_pending [OF peer])
  have room': "fst lim < duration ?rc \<longrightarrow> int (slow_count \<sigma>) < snd lim" using room by (simp add: stamp_fields)
  obtain es bs m h k where e: "redis_client_command_end S t name peer ?srv ?rc = Inr (?srv\<lparr>slowlog := m, heap := h, metric_stat_numcommands := k\<rparr>)"
    "entries m = entries (slowlog ?srv) @ es" "max_len m = snd lim" "time_limit_us m = fst lim"
    "fst lim < duration ?rc \<longrightarrow> es = [entry_for ?rc d t name peer (next_id (slowlog ?srv)) bs] \<and> fresh_copies (lib S) (heap ?srv) h bs (slow_texts ts)"
    "\<not> fst lim < duration ?rc \<longrightarrow> es = [] \<and> bs = [] \<and> h = heap ?srv"
    by (rule command_end_logs [OF inv log d ts room', of t name peer])
  define srv' where "srv' = ?srv\<lparr>slowlog := m, heap := h, metric_stat_numcommands := k\<rparr>"
  have step: "net_step S N clock lf fuel (Answered j t0 t1 t name peer) net = Some (Inr (net1\<lparr>net_srv := srv'\<rparr>))"
    using e(1) rc(1) by (simp add: net_step_def on_client_def Let_def net1_def srv'_def)
  have srv1: "net_srv net1 = ?srv" by (simp add: net1_def)
  show ?thesis
  proof (cases "fst lim < wrap64 (t1 - t0)")
    case True
    note slow = e(5) [unfolded stamp_fields(7), THEN mp, OF True]
    have n: "length (entries m) = Suc (slow_count \<sigma>)" using slow log e(2) by (simp add: log_ok_def)
    have "net_ok S N K one bulk_max lim plan fuel (\<sigma>\<lparr>slow_count := length (entries m)\<rparr>) (net1\<lparr>net_srv := srv'\<rparr>)"
      by (rule net_ok_logged [OF ok1, unfolded srv1, of h bs "slow_texts ts" m es])
        (use slow e(2-4) n room True slow_texts_short [OF request_texts(2) [OF sys_lawsD(2) [OF inv(1)] ts(2)]] in \<open>simp_all add: entry_for_def srv'_def\<close>)
    then show ?thesis using step True n by auto
  next
    case False
    note quick = e(6) [unfolded stamp_fields(7), THEN mp, OF False]
    have "net_ok S N K one bulk_max lim plan fuel (\<sigma>\<lparr>slow_count := length (entries m)\<rparr>) (net1\<lparr>net_srv := srv'\<rparr>)"
      by (rule net_ok_logged [OF ok1, unfolded srv1, of h "[]" "[]" m "[]"]) (use quick e(2-4) log in \<open>simp_all add: fresh_copies_none log_ok_def srv'_def\<close>)
    moreover have "length (entries m) = slow_count \<sigma>" using quick log e(2) by (simp add: log_ok_def)
    ultimately show ?thesis using step False by auto
  qed
qed

interpretation net: simulation "\<lambda>i. net_step S N (clock i) (lf i) fuel" "spec_event (lib S) (\<forall>i k. lf i k = 1) bulk_max lim clock plan"
  "net_ok S N K (\<forall>i k. lf i k = 1) bulk_max lim plan fuel" memory_cleared
  for S N K clock lf fuel bulk_max lim plan
proof
  fix \<sigma> net i ev \<sigma>' assume ok: "net_ok S N K (\<forall>i k. lf i k = 1) bulk_max lim plan fuel \<sigma> net" and mem: "memory_cleared ev"
    and spec: "spec_event (lib S) (\<forall>i k. lf i k = 1) bulk_max lim clock plan i ev \<sigma> = Some \<sigma>'"
  show "\<exists>net'. net_step S N (clock i) (lf i) fuel ev net = Some (Inr net') \<and> net_ok S N K (\<forall>i k. lf i k = 1) bulk_max lim plan fuel \<sigma>' net'"
  proof (cases ev)
    case (Connect j mem)
    then show ?thesis using spec connect_ok [OF ok] \<open>memory_cleared ev\<close> by (auto simp: spec_event_def net_step_def split: if_splits)
  next
    case (Receive j s)
    then show ?thesis using receive_ok [OF ok, of clock i j s \<sigma>' "lf i"] spec by auto
  next
    case (Write j)
    then show ?thesis using spec write_ok [OF ok] by (auto simp: spec_event_def split: if_splits)
  next
    case (Answered j t0 t1 t name peer)
    obtain c where c: "peers \<sigma> j = Some c" "answered c \<noteq> []" and room: "fst lim < wrap64 (t1 - t0) \<longrightarrow> int (slow_count \<sigma>) < snd lim"
      and \<sigma>': "\<sigma>' = (if wrap64 (t1 - t0) \<le> fst lim then \<sigma> else \<sigma>\<lparr>slow_count := Suc (slow_count \<sigma>)\<rparr>)"
      using spec unfolding Answered spec_event_def by (auto simp: bind_eq_Some_conv split: if_splits)
    show ?thesis unfolding Answered \<sigma>' by (rule answered_ok [OF ok c room])
  next
    case (Disconnect j)
    then show ?thesis using spec disconnect_ok [OF ok] by (auto simp: spec_event_def net_step_def)
  next
    case (Tick t c)
    obtain srv' where "run_cron S t c (net_srv net) = Inr srv'" "srv_ok S bulk_max srv' (held_keys \<sigma>)" "heap srv' = heap (net_srv net)" "dbs srv' = dbs (net_srv net)"
      "slowlog srv' = slowlog (net_srv net)"
      using net_ok_srv [OF ok] by (auto intro: run_cron_ok)
    then show ?thesis using net_ok_server [OF ok] spec Tick by (auto simp: spec_event_def net_step_def)
  qed
qed

text \<open>What a run shows: the keyspace, and the bytes of every connection.\<close>

lemma net_ok_start:
  assumes "srv_inv S srv 0" "table_ready S srv" "server_metric srv = metric_new (metric_dict S) n" "0 < n" "n < 2 ^ 31" "slowlog srv = slowlog_manager_new (snd lim) (fst lim)"
    "0 \<le> fst lim" "0 \<le> snd lim" "proto_max_bulk_len srv = bulk_max" "net_laws N" "\<forall>i. length (plan i) < fuel"
  shows "net_ok S N (dom (cells (heap srv)) - ran (db_vals (dbs srv ! 0))) one bulk_max lim plan fuel
    \<lparr>held_keys = contents srv 0, peers = Map.empty, slow_count = 0, tidy = True\<rparr> \<lparr>net_srv = srv, net_clients = Map.empty, wire = w\<rparr>"
  using assms sys_lawsD(13) [OF srv_invD(1) [OF assms(1)]]
  by (auto simp: net_ok_def srv_ok_def unreferenced_def metric_inv_def metric_new_def metric_map_def dict_laws_new log_ok_def slow_args_def slowlog_manager_new_def)

lemma net_ok_shows:
  assumes "net_ok S N K one bulk_max lim plan fuel \<sigma> net"
  shows "contents (net_srv net) 0 = held_keys \<sigma>"
    "peers \<sigma> j = Some c \<Longrightarrow> \<exists>rc. net_clients net j = Some rc \<and> wire net j @ sent rc = answered c"
    "length (entries (slowlog (net_srv net))) = slow_count \<sigma>"
  using assms by (auto simp: net_ok_def srv_ok_def peer_ok_def log_ok_def elim: net_ok_peer [OF assms])

text \<open>What the server holds in memory: every object is there, with one reference, and nothing else is.\<close>

definition held :: "network \<Rightarrow> nat set" where
  "held net = ran (db_vals (dbs (net_srv net) ! 0)) \<union> (\<Union>rc \<in> ran (net_clients net). set (pend rc)) \<union> slow_args (net_srv net)"

lemma client_mid_counts:
  assumes "client_mid S srv rc frs F" "a \<in> set (pend rc)"
  shows "\<exists>obj. cells (heap srv) a = Some obj \<and> refcount obj = 1"
  using assms(1)
proof (cases rule: client_mid_cases)
  case rest
  then show ?thesis using assms(2) by (simp add: idle_def)
next
  case (reading ts us P frs')
  obtain j where "j < length (pend rc)" "a = pend rc ! j" using assms(2) by (auto simp: in_set_conv_nth)
  then have "arg_at (lib S) (dbs srv ! dbid rc) (heap srv) a (ts ! j)" using reading(3) list_all2_nthD unfolding request_args_def by blast
  then show ?thesis by (auto simp: arg_at_def)
qed

lemma net_ok_counts:
  assumes ok: "net_ok S N K one bulk_max lim plan fuel \<sigma> net" and a: "a \<in> held net"
  shows "\<exists>obj. cells (heap (net_srv net)) a = Some obj \<and> refcount obj = 1"
proof -
  consider (db) "a \<in> ran (db_vals (dbs (net_srv net) ! 0))" | (client) j rc where "net_clients net j = Some rc" "a \<in> set (pend rc)" | (log) "a \<in> slow_args (net_srv net)"
    using a by (auto simp: held_def ran_def)
  then show ?thesis
  proof cases
    case db
    have "srv_inv S (net_srv net) 0" using ok by (simp add: net_ok_def srv_ok_def)
    then show ?thesis using db srv_invD(8) unfolding db_owns_def ran_def by blast
  next
    case (client j rc)
    obtain c where c: "peer_ok S one bulk_max fuel (net_srv net) (wire net j) rc c" using ok client(1) unfolding net_ok_def by (metis option_rel_Some1)
    then have "\<not> gone c" using client(2) by (auto simp: peer_ok_def leaving_def)
    then show ?thesis using client_mid_counts [OF _ client(2)] c by (auto simp: peer_ok_def client_ok_def)
  next
    case log
    then show ?thesis using ok unfolding net_ok_def single_def by blast
  qed
qed

lemma net_ok_memory:
  assumes ok: "net_ok S N K one bulk_max lim plan fuel \<sigma> net" and t: "tidy \<sigma>"
  shows "dom (cells (heap (net_srv net))) - K = held net"
proof -
  have "K = unreferenced net - slow_args (net_srv net)" using ok t by (simp add: net_ok_def)
  then have K: "K = {a \<in> dom (cells (heap (net_srv net))). a \<notin> held net}" by (auto simp: held_def unreferenced_def ran_def dom_def)
  have "held net \<subseteq> dom (cells (heap (net_srv net)))" using net_ok_counts [OF ok] by blast
  then show ?thesis unfolding K by blast
qed

lemma log_ok_now:
  "0 \<le> time_limit_us (slowlog srv) \<Longrightarrow> int (length (entries (slowlog srv))) \<le> max_len (slowlog srv) \<Longrightarrow>
    log_ok (time_limit_us (slowlog srv), max_len (slowlog srv)) (length (entries (slowlog srv))) srv"
  by (simp add: log_ok_def)

text \<open>The parser of arrays with arguments left over from another request.\<close>

lemma arguments_left_over:
  assumes "argc rc \<noteq> 0" "multi_bulk_len rc = 0" "req_type rc = PROTO_REQ_MULTIBULK" "unread rc \<noteq> []"
    "cl_flags (client rc) AND (CLIENT_CLOSE_AFTER_REPLY (lib S) OR CLIENT_CLOSE_ASAP (lib S)) = 0" "0 < fuel"
  shows "redis_process_input_buffer S clock lf self fuel i srv rc = Some (Inl (Assert_fail ''client argc ! = 0''))"
proof -
  have "multibulk_header (lib S) rc = Inl (Assert_fail ''client argc ! = 0'')" using assms(1) by (simp add: multibulk_header_def)
  then have "read_request S (lf i) srv rc = Inl (Assert_fail ''client argc ! = 0'')"
    using assms(2,3) by (simp add: read_request_def process_multibulk_buffer_def PROTO_REQ_MULTIBULK_def PROTO_REQ_INLINE_def)
  then have "input_turn S (clock i) (lf i) self srv rc = Inl (Assert_fail ''client argc ! = 0'')" using assms(5) by (simp add: input_turn_def)
  then show ?thesis using assms(4,6) by (cases fuel) (simp_all add: unread_def)
qed

section \<open>Properties\<close>

text \<open>
  C26. The slow log never gets the arguments of a slow command: the client has been reset when the network layer calls the hook at the end of a command. A client at rest has
  received bytes in which at least one request is complete (\<open>due\<close>), and the loop has served those; the network layer has stamped it with times whose difference is over the limit, and the log has
  room. Then the hook appends one entry, with the name of the command that the last request served has named, and with copies of what the client holds by then: nothing, or the
  arguments that have come so far of the next request, an array that is still incomplete.
\<close>

theorem slow_log_loses_arguments:
  assumes "in_session S srv rc" "list_all (frame_ok (\<forall>i. lf i = 1) (proto_max_bulk_len srv)) frs" "unread rc @ F = stream frs" "length (buf rc) < 2 ^ 62"
    "spec_session (lib S) clock i (map frame_words (due (length F) frs)) (contents srv (dbid rc)) = Some (m', out)" "length (due (length F) frs) < fuel" "due (length F) frs \<noteq> []"
    "0 \<le> time_limit_us (slowlog srv)" "time_limit_us (slowlog srv) < wrap64 (t1 - t0)" "int (length (entries (slowlog srv))) < max_len (slowlog srv)"
  shows "\<exists>srv' rc' r c srv2 e ts. redis_process_input_buffer S clock lf self fuel i srv rc = Some (Inr (srv', rc', r)) \<and>
     redis_client_command_end S t name peer srv' (stamp t0 t1 rc') = Inr srv2 \<and> entries (slowlog srv2) = entries (slowlog srv) @ [e] \<and>
     command_manager_lookup (command_dict S) (cmd_manager srv) (hd (last_served (map frame_words (due (length F) frs)))) = Some c \<and> se_command e = c_string (cmd_name c) \<and>
     fresh_copies (lib S) (heap srv') (heap srv2) (se_argv e) (slow_texts ts) \<and>
     (ts = [] \<or> (\<exists>us frs'. us \<noteq> [] \<and> drop (length (due (length F) frs)) frs = Multi (ts @ us) # frs'))"
proof -
  let ?done = "map frame_words (due (length F) frs)" and ?rest = "drop (length (due (length F) frs)) frs"
  have mid: "client_mid S srv rc frs F"
    by (rule client_mid_rest [where one = "\<forall>i. lf i = 1" and pm = "proto_max_bulk_len srv"]) (use assms(1-3) in \<open>simp_all add: in_session_def\<close>)
  have ses: "srv_inv S srv (dbid rc)" "table_ready S srv" using assms(1) by (simp_all add: in_session_def)
  obtain srv' rc' where l: "redis_process_input_buffer S clock lf self fuel i srv rc = Some (Inr (srv', rc', if pos rc' \<noteq> 0 then 1 else 0))"
    "ran_stream S srv rc ?done ?rest F m' out srv' rc'" using serve_stream [OF ses mid assms(2,4-6), of self] by blast
  obtain c where c: "lastcmd rc' = Some c" "command_manager_lookup (command_dict S) (cmd_manager srv) (hd (last_served ?done)) = Some c"
    using l(2) assms(7) unfolding ran_stream_def by auto
  have k: "srv_inv S srv' (dbid rc)" "if list_ex quits ?done then leaving S rc' else client_ok S srv' rc' ?rest F" "slowlog srv' = slowlog srv"
    using l(2) by (auto simp: ran_stream_def db_put_def)
  obtain ts where ts: "args_of rc' (pend rc')" "request_args (lib S) (dbs srv' ! dbid rc') (heap srv') (pend rc') ts" "ts = [] \<or> (\<exists>us frs'. us \<noteq> [] \<and> ?rest = Multi (ts @ us) # frs')"
  proof (cases "list_ex quits ?done")
    case True
    then have "argc rc' = 0" using k(2) by (simp add: leaving_def)
    then show thesis using that [of "[]"] by (simp add: args_of_def request_args_def)
  qed (use k(2) that client_mid_pending [of S srv' rc' ?rest F] in \<open>auto simp: client_ok_def\<close>)
  let ?rc = "stamp t0 t1 rc'" and ?lim = "(time_limit_us (slowlog srv), max_len (slowlog srv))"
  have log: "log_ok ?lim (length (entries (slowlog srv))) srv'" using assms(8,10) k(3) log_ok_now [of srv'] by simp
  have now: "lastcmd ?rc = Some c" "args_of ?rc (pend ?rc)" "pend ?rc = pend rc'" using c(1) ts(1) same_request_pend [OF stamp_fields(1)] by (simp_all add: stamp_def args_of_def)
  have room: "fst ?lim < duration ?rc \<longrightarrow> int (length (entries (slowlog srv))) < snd ?lim" using assms(10) by simp
  obtain es bs m h n where e: "redis_client_command_end S t name peer srv' ?rc = Inr (srv'\<lparr>slowlog := m, heap := h, metric_stat_numcommands := n\<rparr>)"
    "entries m = entries (slowlog srv') @ es"
    "fst ?lim < duration ?rc \<longrightarrow> es = [entry_for ?rc c t name peer (next_id (slowlog srv')) bs] \<and> fresh_copies (lib S) (heap srv') h bs (slow_texts ts)"
    by (rule command_end_logs [OF srv_invD(1,7) [OF k(1)] log now(1,2) ts(2) [folded now(3)] room, of t name peer])
  moreover have "fst ?lim < duration ?rc" using assms(9) by (simp add: stamp_fields)
  ultimately have "redis_client_command_end S t name peer srv' ?rc = Inr (srv'\<lparr>slowlog := m, heap := h, metric_stat_numcommands := n\<rparr>)"
    "entries m = entries (slowlog srv) @ [entry_for ?rc c t name peer (next_id (slowlog srv')) bs]" "fresh_copies (lib S) (heap srv') h bs (slow_texts ts)"
    using k(3) by simp_all
  then show ?thesis using l(1) c(2) ts(3)
    by (intro exI [of _ srv'] exI [of _ rc'] exI [of _ "if pos rc' \<noteq> 0 then 1 else 0"] exI [of _ c] exI [of _ "srv'\<lparr>slowlog := m, heap := h, metric_stat_numcommands := n\<rparr>"]
        exI [of _ "entry_for ?rc c t name peer (next_id (slowlog srv')) bs"] exI [of _ ts]) (simp add: entry_for_def)
qed

text \<open>
  C28. What the memory of a new client holds is not an idle question. A client that leaves in the middle of an array request, with an argument read, leaves a record that
  still has that argument: \<open>redis_client_delete\<close> frees it as it is. When the allocator hands the same record to the next connection, \<open>create_redis_client\<close> does not clear it, and the
  first bytes that connection sends fail the first assertion of the parser: the server stops.
\<close>

theorem reused_record_stops:
  assumes "net_laws N" "net_clients net j = Some rc" "argc rc \<noteq> 0" "req_type rc = PROTO_REQ_MULTIBULK" "s \<noteq> []" "0 < fuel"
  shows "run_events (\<lambda>i. net_step S N (clock i) (lf i) fuel) i [Disconnect j, Connect k rc, Receive k s] net = Some (Inl (Assert_fail ''client argc ! = 0''))"
proof -
  let ?c = "net_init N (create_redis_client rc)"
  note f = net_init_fields [OF assms(1), of "create_redis_client rc"] create_redis_client_fields
  have "pos ?c \<le> length (buf ?c)" by (simp add: f)
  note r = net_recv_spec [OF assms(1) this, of s]
  define c where "c = (if flag (net_recv N ?c s) AND CLIENT_MASTER \<noteq> 0 then (net_recv N ?c s)\<lparr>read_reploff := wrap64 (read_reploff (net_recv N ?c s) + int (length s))\<rparr> else net_recv N ?c s)"
  have "unread ?c = []" by (simp add: unread_def f)
  then have "unread (net_recv N ?c s) = s" using r(2) by simp
  then have c: "same_request ?c c" "unread c = s" using r(1) by (simp_all add: c_def same_request_def unread_def buf_def pos_def)
  have "redis_client_handle S (clock (Suc (Suc i))) (lf (Suc (Suc i))) k fuel (net_srv net) (net_recv N ?c s) (int (length s)) = Some (Inl (Assert_fail ''client argc ! = 0''))"
    unfolding redis_client_handle_def c_def [symmetric] by (rule arguments_left_over) (use c assms(3-6) in \<open>simp_all add: same_request_def f\<close>)
  then show ?thesis by (simp add: net_step_def on_client_def)
qed

section \<open>Witnesses\<close>

text \<open>A network layer that keeps what is unread and writes everything at once.\<close>

definition net_ref :: net_lib where
  "net_ref =
     \<lparr>net_init = (\<lambda>rc. rc\<lparr>client := (client rc)\<lparr>querybuf := [], qb_pos := 0, obuf := [], reply := []\<rparr>\<rparr>),
      net_recv = (\<lambda>rc s. set_pos 0 (set_buf (unread rc @ s) rc)),
      net_write = (\<lambda>rc. (sent rc, rc\<lparr>client := (client rc)\<lparr>obuf := [], reply := []\<rparr>, reply_bytes := 0\<rparr>))\<rparr>"

lemma net_ref_laws: "net_laws net_ref"
proof -
  have "\<exists>b p. untimed (net_recv net_ref rc s) = untimed (set_pos p (set_buf b rc)) \<and> p \<le> length b \<and> drop p b = unread rc @ s \<and>
      (length (unread rc @ s) < 2 ^ 62 \<longrightarrow> length b < 2 ^ 62)" for rc s
    by (rule exI [of _ "unread rc @ s"], rule exI [of _ 0]) (simp add: net_ref_def)
  moreover have "reply_frame rc (snd (net_write net_ref rc))" "sent (snd (net_write net_ref rc)) = []" "fst (net_write net_ref rc) = sent rc" for rc
    by (auto simp: net_ref_def reply_frame_def sent_def client_output_def reply_bytes_of_def)
  then have "\<exists>rc'. reply_frame rc rc' \<and> untimed (snd (net_write net_ref rc)) = untimed rc' \<and> sent rc = fst (net_write net_ref rc) @ sent rc'" for rc
    by (intro exI [of _ "snd (net_write net_ref rc)"]) simp
  moreover have "\<exists>cl. net_init net_ref rc = rc\<lparr>client := cl\<rparr> \<and> querybuf cl = [] \<and> qb_pos cl = 0 \<and> obuf cl = [] \<and> reply cl = [] \<and> cl_flags cl = cl_flags (client rc)" for rc
    by (intro exI [of _ "(client rc)\<lparr>querybuf := [], qb_pos := 0, obuf := [], reply := []\<rparr>"]) (simp add: net_ref_def)
  ultimately show ?thesis by (simp add: net_laws_def)
qed

text \<open>A PING is answered while the first argument of a SET has come.\<close>

theorem slow_log_loses_arguments_witness:
  "\<exists>srv srv' rc' r c srv2 e ts. redis_process_input_buffer sys_ref (\<lambda>_. 5) (\<lambda>_. 1) 7 2 0 srv (visitor (''ping x'' @ crlf @ ''*3'' @ crlf @ ''$3'' @ crlf @ ''SET'' @ crlf)) = Some (Inr (srv', rc', r)) \<and>
     redis_client_command_end sys_ref 8 None ''peer'' srv' (stamp 1 20001 rc') = Inr srv2 \<and> entries (slowlog srv2) = [] @ [e] \<and>
     command_manager_lookup (command_dict sys_ref) (cmd_manager srv) ''ping'' = Some c \<and> se_command e = c_string (cmd_name c) \<and>
     fresh_copies (lib sys_ref) (heap srv') (heap srv2) (se_argv e) (slow_texts ts) \<and> (ts = [] \<or> (\<exists>us frs'. us \<noteq> [] \<and> [Multi [''SET'', ''a'', ''1'']] = Multi (ts @ us) # frs'))"
proof -
  obtain srv where s: "srv_inv sys_ref srv 0" "table_ready sys_ref srv" "proto_max_bulk_len srv = 1048576" by (rule server_ready_ex)
  let ?srv = "srv\<lparr>slowlog := slowlog_manager_new 128 10000\<rparr>" and ?rc = "visitor (''ping x'' @ crlf @ ''*3'' @ crlf @ ''$3'' @ crlf @ ''SET'' @ crlf)"
  let ?frs = "[Line [''ping'', ''x''], Multi [''SET'', ''a'', ''1'']]" and ?F = "''$1'' @ crlf @ ''a'' @ crlf @ ''$1'' @ crlf @ ''1'' @ crlf"
  have ses: "in_session sys_ref ?srv ?rc" using s(1,2) by (simp add: in_session_def srv_inv_def table_ready_def)
  have low: "to_lower CHR ''p'' = CHR ''p''" "to_lower CHR ''i'' = CHR ''i''" "to_lower CHR ''n'' = CHR ''n''" "to_lower CHR ''g'' = CHR ''g''"
    "dec 1 = ''1''" "dec 3 = ''3''" by code_simp+
  have due: "due (length ?F) ?frs = [Line [''ping'', ''x'']]" by (simp add: request_eq low)
  have spec: "spec_session (lib sys_ref) (\<lambda>_. 5) 0 (map frame_words (due (length ?F) ?frs)) (contents ?srv (dbid ?rc)) = Some (contents ?srv (dbid ?rc), ''$1'' @ crlf @ ''x'' @ crlf)"
    unfolding due by (simp add: spec_request_def spec_command_def quits_def low)
  have ok: "list_all (frame_ok (\<forall>i::nat. (1::int) = 1) (proto_max_bulk_len ?srv)) ?frs"
    using s(3) by (simp add: plain_word_def plain_char_def PROTO_INLINE_MAX_SIZE_def request_ok_def)
  have un: "unread ?rc @ ?F = stream ?frs" "length (buf ?rc) < 2 ^ 62" by (simp_all add: request_eq low)
  have n: "length (due (length ?F) ?frs) < 2" "due (length ?F) ?frs \<noteq> []" unfolding due by simp_all
  have log: "0 \<le> time_limit_us (slowlog ?srv)" "time_limit_us (slowlog ?srv) < wrap64 (20001 - 1)" "int (length (entries (slowlog ?srv))) < max_len (slowlog ?srv)"
    by (simp_all add: slowlog_manager_new_def wrap64_def)
  have here: "cmd_manager ?srv = cmd_manager srv" "entries (slowlog ?srv) = []" "drop (length [Line [''ping'', ''x'']]) ?frs = [Multi [''SET'', ''a'', ''1'']]"
    "hd (last_served (map frame_words [Line [''ping'', ''x'']])) = ''ping''" by (simp_all add: slowlog_manager_new_def)
  show ?thesis
    using slow_log_loses_arguments [OF ses ok un spec n log, of 7 8 None "''peer''", unfolded due here] here(1) by (metis (lifting))
qed

text \<open>A client leaves after the first word of an array of two; the next one says PING in the same memory.\<close>

theorem reused_record_stops_witness:
  "\<exists>net rc. net_run sys_ref net_ref (\<lambda>_ _. 0) (\<lambda>_ _. 0) 5 [Connect 1 (visitor []), Receive 1 (''*2'' @ crlf @ ''$4'' @ crlf @ ''PING'' @ crlf)]
       \<lparr>net_srv = server_w ''k'', net_clients = Map.empty, wire = (\<lambda>_. [])\<rparr> = Some (Inr net) \<and>
     net_clients net 1 = Some rc \<and>
     run_events (\<lambda>i. net_step sys_ref net_ref (\<lambda>_. 0) (\<lambda>_. 0) 5) 2 [Disconnect 1, Connect 2 rc, Receive 2 (request [''PING''])] net = Some (Inl (Assert_fail ''client argc ! = 0''))"
proof -
  have "case net_run sys_ref net_ref (\<lambda>_ _. 0) (\<lambda>_ _. 0) 5 [Connect 1 (visitor []), Receive 1 (''*2'' @ crlf @ ''$4'' @ crlf @ ''PING'' @ crlf)]
       \<lparr>net_srv = server_w ''k'', net_clients = Map.empty, wire = (\<lambda>_. [])\<rparr> of
      Some (Inr net) \<Rightarrow> (case net_clients net 1 of Some rc \<Rightarrow> argc rc = 1 \<and> req_type rc = PROTO_REQ_MULTIBULK | None \<Rightarrow> False) | _ \<Rightarrow> False" by code_simp
  then obtain net rc where n: "net_run sys_ref net_ref (\<lambda>_ _. 0) (\<lambda>_ _. 0) 5 [Connect 1 (visitor []), Receive 1 (''*2'' @ crlf @ ''$4'' @ crlf @ ''PING'' @ crlf)]
       \<lparr>net_srv = server_w ''k'', net_clients = Map.empty, wire = (\<lambda>_. [])\<rparr> = Some (Inr net)" "net_clients net 1 = Some rc" "argc rc = 1" "req_type rc = PROTO_REQ_MULTIBULK"
    by (auto split: option.split_asm sum.split_asm)
  then show ?thesis using reused_record_stops [OF net_ref_laws n(2), of "request [''PING'']" 5 sys_ref "\<lambda>_ _. 0" "\<lambda>_ _. 0" 2 2] by (auto simp: request_eq)
qed

end
