(* ===== verification/Client_Types.thy ===== *)
theory Client_Types
  imports Input_Loop
begin

text \<open>
  The state of the parser between two calls: a client whose fields start well-formed keeps them so, whatever bytes arrive and whatever
  commands they name, so that the branch of the input loop for an unknown kind of request is dead. The constructor of
  a client does not set the fields that this rests on, and what happens then is the other half of the theory.
\<close>

section \<open>Well-formed clients\<close>

definition client_typed :: "nat \<Rightarrow> redis_client \<Rightarrow> bool" where
  "client_typed d rc \<longleftrightarrow> req_type rc \<in> {0, PROTO_REQ_INLINE, PROTO_REQ_MULTIBULK} \<and> -1 \<le> bulk_len rc \<and>
     0 \<le> multi_bulk_len rc \<and> multi_bulk_len rc \<le> 1024 * 1024 \<and> dbid rc = d"

text \<open>What the buffer, the arguments and the replies have nothing to do with.\<close>

lemma client_typed_updates [simp]:
  "client_typed d (set_pos p rc) = client_typed d rc" "client_typed d (set_buf b rc) = client_typed d rc"
  "client_typed d (rc\<lparr>argc := n\<rparr>) = client_typed d rc" "client_typed d (rc\<lparr>argv_len_sum := n\<rparr>) = client_typed d rc"
  "client_typed d (rc\<lparr>repl_ack_time := t\<rparr>) = client_typed d rc" "client_typed d (rc\<lparr>argv := v\<rparr>) = client_typed d rc"
  "client_typed d (set_protocol_error m rc) = client_typed d rc"
  by (simp_all add: client_typed_def set_pos_def set_buf_def set_protocol_error_def)

lemma argv_alloc_typed: "argv_alloc rc n = Inr rc' \<Longrightarrow> client_typed d rc' = client_typed d rc"
  by (auto simp: argv_alloc_def split: argv_ptr.split_asm)

lemma client_typed_frame: "parse_state rc' = parse_state rc \<Longrightarrow> client_typed d rc' = client_typed d rc"
  by (simp add: parse_state_def client_typed_def)

lemma client_typed_errors [simp]:
  assumes "reply_laws L"
  shows "client_typed d (add_reply_error L rc s) = client_typed d rc" "client_typed d (add_reply_error_format L rc s) = client_typed d rc"
  using assms by (auto intro!: client_typed_frame simp: input_kept)

section \<open>The parsers\<close>

lemma push_args_typed: "push_args L ss rc h = Inr (rc', h') \<Longrightarrow> client_typed d rc' = client_typed d rc"
  by (induction ss arbitrary: rc h)
    (auto simp: obj_alloc_def argv_push_def client_typed_def split: argv_ptr.split_asm option.split_asm if_split_asm elim!: res_bind_InrE)

lemma inline_typed:
  assumes "reply_laws L" "process_inline_buffer L lf0 now rc h = Inr (rc', h', r)" "client_typed d rc"
  shows "client_typed d rc'"
  using assms
  by (auto simp: process_inline_buffer_def Let_def split: option.split_asm if_split_asm prod.split_asm elim!: res_bind_InrE dest!: push_args_typed [where d = d] argv_alloc_typed [where d = d])

text \<open>The header of an argument changes its length only, the argument itself counts down.\<close>

definition header_read :: "redis_client \<Rightarrow> redis_client \<Rightarrow> bool" where
  "header_read rc rc' \<longleftrightarrow> req_type rc' = req_type rc \<and> dbid rc' = dbid rc \<and> multi_bulk_len rc' = multi_bulk_len rc \<and>
     (bulk_len rc' = bulk_len rc \<or> 0 \<le> bulk_len rc')"

lemma header_readI:
  "header_read rc rc" "header_read rc rc' \<Longrightarrow> header_read rc (set_pos p rc')" "header_read rc rc' \<Longrightarrow> header_read rc (set_buf b rc')"
  "header_read rc rc' \<Longrightarrow> header_read rc (set_protocol_error m rc')" "\<not> (ll < 0 \<or> X) \<Longrightarrow> header_read rc rc' \<Longrightarrow> header_read rc (rc'\<lparr>bulk_len := ll\<rparr>)"
  "reply_laws L \<Longrightarrow> header_read rc (add_reply_error L rc s)" "reply_laws L \<Longrightarrow> header_read rc (add_reply_error_format L rc s)"
  using add_reply_text_input(2,3) [of L rc s]
  by (auto simp: header_read_def set_pos_def set_buf_def set_protocol_error_def parse_state_def)

lemma bulk_header_keeps:
  assumes "bulk_header L pm rc = (rc', r)" "reply_laws L"
  shows "header_read rc rc'"
  using assms unfolding bulk_header_def Let_def
  by - (split if_split_asm option.split_asm | (elim Pair_inject, hypsubst, (rule header_readI | assumption)+))+

lemma bulk_header_typed:
  assumes "reply_laws L" "bulk_header L pm rc = (rc', r)" "client_typed d rc"
  shows "client_typed d rc'" "multi_bulk_len rc' = multi_bulk_len rc"
  using bulk_header_keeps [OF assms(2,1)] assms(3) by (auto simp: header_read_def client_typed_def)

lemma bulk_argument_keeps:
  assumes "bulk_argument L rc h = Inr (Some (rc', h'))"
  shows "req_type rc' = req_type rc \<and> dbid rc' = dbid rc \<and> multi_bulk_len rc' = multi_bulk_len rc - 1 \<and> bulk_len rc' = -1"
  using assms by (auto simp: bulk_argument_def Let_def argv_push_def set_pos_def set_buf_def split: if_split_asm argv_ptr.split_asm option.split_asm prod.split_asm elim!: res_bind_InrE)

lemma bulk_argument_typed:
  assumes "bulk_argument L rc h = Inr (Some (rc', h'))" "client_typed d rc" "0 < multi_bulk_len rc"
  shows "client_typed d rc'" "multi_bulk_len rc' = multi_bulk_len rc - 1"
  using bulk_argument_keeps [OF assms(1)] assms(2,3) by (simp_all add: client_typed_def)

lemma multibulk_loop_typed:
  assumes "reply_laws L"
  shows "multibulk_loop L pm n rc h = Inr (rc', h', r) \<Longrightarrow> client_typed d rc \<Longrightarrow> multi_bulk_len rc = int n \<Longrightarrow> client_typed d rc'"
proof (induction n arbitrary: rc h)
  case (Suc n)
  obtain rc1 r1 where h1: "bulk_header L pm rc = (rc1, r1)" by fastforce
  note t1 = bulk_header_typed [OF assms h1 Suc.prems(2)]
  show ?case
  proof (cases r1)
    case None
    show ?thesis
    proof (cases "\<exists>rc2 h2. bulk_argument L rc1 h = Inr (Some (rc2, h2))")
      case True
      then obtain rc2 h2 where a: "bulk_argument L rc1 h = Inr (Some (rc2, h2))" by blast
      have "client_typed d rc2" "multi_bulk_len rc2 = int n" using bulk_argument_typed [OF a t1(1)] t1(2) Suc.prems(3) by simp_all
      then show ?thesis using Suc.IH [of rc2 h2] Suc.prems(1) h1 None a by simp
    qed (use Suc.prems(1) h1 None t1 in \<open>auto split: option.split_asm elim!: res_bind_InrE\<close>)
  qed (use Suc.prems(1) h1 t1 in auto)
qed auto

lemma multibulk_header_typed:
  assumes "reply_laws L" "multibulk_header L rc = Inr (rc', r)" "client_typed d rc"
  shows "client_typed d rc'"
proof -
  have b: "client_typed d (c\<lparr>multi_bulk_len := ll\<rparr>)" if "0 \<le> ll" "ll \<le> 1024 * 1024" "client_typed d c" for c ll
    using that by (simp add: client_typed_def)
  show ?thesis using assms
    by (auto simp: multibulk_header_def Let_def latte_assert_def intro!: b split: option.split_asm if_split_asm elim!: res_bind_InrE dest!: argv_alloc_typed [where d = d])
qed

lemma multibulk_typed:
  assumes "reply_laws L" "process_multibulk_buffer L pm rc h = Inr (rc', h', r)" "client_typed d rc"
  shows "client_typed d rc'"
proof -
  obtain rc1 r1 where h: "(if multi_bulk_len rc = 0 then multibulk_header L rc else Inr (rc, None)) = Inr (rc1, r1)"
    using assms(2) by (auto simp: process_multibulk_buffer_def elim!: res_bind_InrE)
  have t: "client_typed d rc1" using multibulk_header_typed [OF assms(1) _ assms(3)] h assms(3) by (auto split: if_splits)
  then have n: "multi_bulk_len rc1 = int (nat (multi_bulk_len rc1))" by (simp add: client_typed_def)
  show ?thesis using assms(2) h t multibulk_loop_typed [OF assms(1) _ t n]
    by (auto simp: process_multibulk_buffer_def latte_assert_def split: option.split_asm elim!: res_bind_InrE)
qed

text \<open>The failures of a parser are failed assertions and accesses outside the argument vector.\<close>

lemma push_args_no_unreachable: "push_args L ss rc h \<noteq> Inl (Unreachable m)"
  by (induction ss arbitrary: rc h) (auto simp: obj_alloc_def argv_push_def res_simps split: option.splits argv_ptr.splits)

lemma inline_no_unreachable: "process_inline_buffer L lf0 now rc h \<noteq> Inl (Unreachable m)"
  by (auto simp: process_inline_buffer_def Let_def res_simps push_args_no_unreachable argv_alloc_def split: option.split prod.splits argv_ptr.splits)

lemma bulk_argument_no_unreachable: "bulk_argument L rc h \<noteq> Inl (Unreachable m)"
  by (auto simp: bulk_argument_def Let_def obj_alloc_def argv_push_def res_simps split: option.splits argv_ptr.splits)

lemma multibulk_loop_no_unreachable: "multibulk_loop L pm n rc h \<noteq> Inl (Unreachable m)"
  by (induction n arbitrary: rc h) (auto simp: res_simps bulk_argument_no_unreachable split: option.splits prod.splits)

lemma multibulk_no_unreachable: "process_multibulk_buffer L pm rc h \<noteq> Inl (Unreachable m)"
proof -
  have "multibulk_header L rc \<noteq> Inl (Unreachable m)"
    by (auto simp: multibulk_header_def latte_assert_def Let_def res_simps argv_alloc_def split: option.split argv_ptr.split)
  then show ?thesis
    by (auto simp: process_multibulk_buffer_def latte_assert_def res_simps multibulk_loop_no_unreachable split: option.splits if_splits)
qed

section \<open>The turns of the loop\<close>

lemma read_request_typed:
  assumes "reply_laws (lib S)" "read_request S lf0 srv rc = Inr (srv', rc', r)" "client_typed d rc"
  shows "client_typed d rc'"
proof -
  define rc0 where "rc0 = (if req_type rc = 0
    then rc\<lparr>req_type := if byte_at (buf rc) (pos rc) = CHR ''*'' then PROTO_REQ_MULTIBULK else PROTO_REQ_INLINE\<rparr> else rc)"
  have "client_typed d rc0" using assms(3) by (auto simp: rc0_def client_typed_def)
  then show ?thesis using assms(2) inline_typed [OF assms(1)] multibulk_typed [OF assms(1)]
    unfolding read_request_def Let_def rc0_def [symmetric] by (auto split: if_split_asm elim!: res_bind_InrE)
qed

lemma read_request_no_unreachable: "client_typed d rc \<Longrightarrow> read_request S lf0 srv rc \<noteq> Inl (Unreachable m)"
  by (auto simp: read_request_def Let_def client_typed_def res_simps inline_no_unreachable multibulk_no_unreachable)

lemma reset_typed: "reset_redis_client L rc h = Inr (rc', h') \<Longrightarrow> client_typed d rc \<Longrightarrow> client_typed d rc'"
  by (auto simp: reset_redis_client_def free_client_argv_def client_typed_def res_simps)

lemma process_command_typed:
  assumes L: "reply_laws (lib S)" and run: "process_command_and_reset_client S now self srv rc = Inr (srv', rc', r)" and rc: "client_typed d rc"
  shows "client_typed d rc'"
proof -
  obtain srv1 rc1 r1 where p: "process_command S now (srv\<lparr>current_client := Some self\<rparr>) rc = Inr (srv1, rc1, r1)"
    "if r1 = 0 then \<exists>h. command_processed (lib S) rc1 (heap srv1) = Inr (rc', h) else rc' = rc1"
    using run by (auto simp: process_command_and_reset_client_def res_simps Let_def split: if_splits prod.splits)
  have "parse_state rc1 = parse_state rc"
    using p(1) by (auto simp: process_command_def res_simps Let_def input_kept split: if_splits prod.splits dest!: call_input [OF L])
  then have "client_typed d rc1" using rc client_typed_frame by blast
  then show ?thesis using p(2) by (auto simp: command_processed_def dest: reset_typed split: if_splits)
qed

lemma input_turn_typed:
  assumes "reply_laws (lib S)" "input_turn S now lf0 self srv rc = Inr (srv', rc', t)" "client_typed d rc"
  shows "client_typed d rc'"
  using assms(2,3)
  by (auto simp: input_turn_def split: if_split_asm elim!: res_bind_InrE dest!: read_request_typed [OF assms(1) _ assms(3)]
      elim: process_command_typed [OF assms(1)] reset_typed)

text \<open>
  The life of a client as the server sees it: turns of the input loop, at any time and with anything on the stack, bytes that arrive, and changes of the server
  that other clients and tasks make.
\<close>

inductive client_life :: "sys \<Rightarrow> nat \<Rightarrow> redis_server \<Rightarrow> redis_client \<Rightarrow> redis_server \<Rightarrow> redis_client \<Rightarrow> bool" for S self where
  life_start: "client_life S self srv rc srv rc"
| life_turn: "client_life S self srv0 rc0 srv rc \<Longrightarrow> input_turn S now lf0 self srv rc = Inr (srv', rc', t) \<Longrightarrow> client_life S self srv0 rc0 srv' rc'"
| life_bytes: "client_life S self srv0 rc0 srv rc \<Longrightarrow> client_life S self srv0 rc0 srv (set_pos p (set_buf b rc))"
| life_others: "client_life S self srv0 rc0 srv rc \<Longrightarrow> client_life S self srv0 rc0 srv' rc"

lemma client_life_typed: "client_life S self srv0 rc0 srv rc \<Longrightarrow> reply_laws (lib S) \<Longrightarrow> client_typed d rc0 \<Longrightarrow> client_typed d rc"
  by (induction rule: client_life.induct) (auto intro: input_turn_typed)

lemma loop_is_life:
  assumes "client_life S self srv0 rc0 srv rc" "redis_process_input_buffer S clock lf self fuel i srv rc = Some (Inr (srv', rc', r))"
  shows "client_life S self srv0 rc0 srv' rc'"
  using assms
proof (induction fuel arbitrary: i srv rc)
  case (Suc fuel)
  show ?case
  proof (cases "length (buf rc) \<le> pos rc")
    case False
    then obtain srv1 rc1 t where t: "input_turn S (clock i) (lf i) self srv rc = Inr (srv1, rc1, t)" using Suc.prems(2) by (auto split: sum.split_asm)
    show ?thesis using Suc.IH [of srv1 rc1 "Suc i"] Suc.prems t False life_turn [OF Suc.prems(1) t] by (cases t) auto
  qed (use Suc.prems in auto)
qed simp

section \<open>Properties\<close>

text \<open>
  C6. A client that starts with a known kind of request stays well-formed for life: whatever bytes arrive, whatever commands they name and whatever happens to the server in
  between, the kind of request is none, inline or multibulk, the length of the next argument is unknown or not negative, at most 1048576 arguments are outstanding, the database
  is the one it started with, and the parser never comes to the branch for an unknown kind of request.
\<close>

theorem client_stays_typed:
  assumes "reply_laws (lib S)" "client_typed d rc0" "client_life S self srv0 rc0 srv rc"
  shows "client_typed d rc \<and> read_request S lf0 srv rc \<noteq> Inl (Unreachable ''Unknown request type'')"
  using client_life_typed [OF assms(3,1,2)] read_request_no_unreachable by blast


section \<open>Witnesses\<close>

theorem client_stays_typed_witness:
  "client_typed 0 (visitor ''*1'') \<and> client_life sys_ref 7 (server_w ''k'') (visitor ''*1'') (server_w ''x'') (set_pos 0 (set_buf ''xy'' (visitor ''*1''))) \<and>
   client_typed 0 (set_pos 0 (set_buf ''xy'' (visitor ''*1''))) \<and>
   read_request sys_ref 3 (server_w ''x'') (set_pos 0 (set_buf ''xy'' (visitor ''*1''))) \<noteq> Inl (Unreachable ''Unknown request type'')"
proof -
  have t: "client_typed 0 (visitor ''*1'')" by (simp add: client_typed_def)
  have l: "client_life sys_ref 7 (server_w ''k'') (visitor ''*1'') (server_w ''x'') (set_pos 0 (set_buf ''xy'' (visitor ''*1'')))"
    by (intro life_bytes life_others [OF life_start])
  show ?thesis using client_stays_typed [OF _ t l, of 3] t l by (simp add: reply_laws_ref)
qed


end
