(* ===== verification/Evict.thy ===== *)
theory Evict
  imports Db "HOL-Library.Multiset"
begin

text \<open>
  The eviction candidates of \<open>src/redis/evict.c\<close>: a pool of sixteen entries ordered by score, filled from
  samples of the keyspace. Every entry owns a buffer that short keys are copied into, so that moving entries
  around must neither lose nor share a buffer; a buffer is its number here, and its bytes are kept apart.
  (The file is not part of the build: nothing calls it yet.)
\<close>

section \<open>Policies\<close>

definition MAXMEMORY_VOLATILE_LRU :: "32 word" where "MAXMEMORY_VOLATILE_LRU = MAXMEMORY_FLAG_LRU"
definition MAXMEMORY_VOLATILE_LFU :: "32 word" where "MAXMEMORY_VOLATILE_LFU = push_bit 8 1 OR MAXMEMORY_FLAG_LFU"
definition MAXMEMORY_VOLATILE_TTL :: "32 word" where "MAXMEMORY_VOLATILE_TTL = push_bit 8 2"
definition MAXMEMORY_VOLATILE_RANDOM :: "32 word" where "MAXMEMORY_VOLATILE_RANDOM = push_bit 8 3"
definition MAXMEMORY_ALLKEYS_LRU :: "32 word" where
  "MAXMEMORY_ALLKEYS_LRU = push_bit 8 4 OR MAXMEMORY_FLAG_LRU OR MAXMEMORY_FLAG_ALLKEYS"
definition MAXMEMORY_ALLKEYS_LFU :: "32 word" where
  "MAXMEMORY_ALLKEYS_LFU = push_bit 8 5 OR MAXMEMORY_FLAG_LFU OR MAXMEMORY_FLAG_ALLKEYS"
definition MAXMEMORY_ALLKEYS_RANDOM :: "32 word" where "MAXMEMORY_ALLKEYS_RANDOM = push_bit 8 6 OR MAXMEMORY_FLAG_ALLKEYS"
definition MAXMEMORY_NO_EVICTION :: "32 word" where "MAXMEMORY_NO_EVICTION = push_bit 8 7"

section \<open>The pool\<close>

definition EVPOOL_SIZE :: nat where "EVPOOL_SIZE = 16"
definition EVPOOL_CACHED_SDS_SIZE :: nat where "EVPOOL_CACHED_SDS_SIZE = 255"

text \<open>The key of an entry is NULL, points to the entry's buffer, or is a string of its own.\<close>

datatype pool_key = Null_key | In_cached | Own_key string

record eviction_pool_entry =
  ep_idle :: "64 word"
  ep_key :: pool_key
  ep_cached :: nat
  ep_dbid :: int

record eviction_pool =
  pool_entries :: "eviction_pool_entry list"
  cached_bytes :: "nat \<Rightarrow> string"

definition eviction_pool_alloc :: eviction_pool where
  "eviction_pool_alloc =
     \<lparr>pool_entries = map (\<lambda>j. \<lparr>ep_idle = 0, ep_key = Null_key, ep_cached = j, ep_dbid = 0\<rparr>) [0..<EVPOOL_SIZE],
      cached_bytes = (\<lambda>_. replicate EVPOOL_CACHED_SDS_SIZE NUL)\<rparr>"

text \<open>The file has the clock of \<open>db.c\<close> once more, with a resolution of its own and the server as a global variable.\<close>

definition evict_LRU_CLOCK_RESOLUTION :: int where "evict_LRU_CLOCK_RESOLUTION = 1000"

definition evict_get_lru_clock :: "latte_c \<Rightarrow> int \<Rightarrow> 32 word" where
  "evict_get_lru_clock L mstime = word_of_int (c_quot mstime evict_LRU_CLOCK_RESOLUTION) AND LRU_CLOCK_MAX L"

definition evict_lru_clock :: "latte_c \<Rightarrow> int \<Rightarrow> 'a lru_state_scheme \<Rightarrow> (32 word) res" where
  "evict_lru_clock L mstime server =
     res_bind (c_div 1000 (hz server)) (\<lambda>q.
       if q \<le> evict_LRU_CLOCK_RESOLUTION then Inr (lruclock server) else Inr (evict_get_lru_clock L mstime))"

lemma evict_lru_clock_same: "evict_get_lru_clock = get_lru_clock" "evict_lru_clock = lru_clock"
proof -
  show g: "evict_get_lru_clock = get_lru_clock"
    by (simp add: fun_eq_iff evict_get_lru_clock_def get_lru_clock_def evict_LRU_CLOCK_RESOLUTION_def LRU_CLOCK_RESOLUTION_def)
  show "evict_lru_clock = lru_clock"
    unfolding fun_eq_iff evict_lru_clock_def lru_clock_def g evict_LRU_CLOCK_RESOLUTION_def LRU_CLOCK_RESOLUTION_def by simp
qed

definition estimate_object_idle_time :: "latte_c \<Rightarrow> int \<Rightarrow> 'a lru_state_scheme \<Rightarrow> latte_object \<Rightarrow> (64 word) res" where
  "estimate_object_idle_time L mstime rs obj =
     res_bind (evict_lru_clock L mstime rs) (\<lambda>clock.
     Inr (if lru obj \<le> clock then (ucast clock - ucast (lru obj)) * 1000
          else (ucast clock + (ucast (LRU_CLOCK_MAX L) - ucast (lru obj))) * 1000))"

text \<open>
  The score of a sampled key. \<open>val\<close> is the entry's value in the sampled dictionary when that is the dictionary of
  deadlines, \<open>obj\<close> what the keyspace has under the key, \<open>lfu\<close> the counter \<open>LFUDecrAndReturn\<close> of the library.
\<close>

definition eviction_score ::
  "latte_c \<Rightarrow> int \<Rightarrow> (latte_object \<Rightarrow> 64 word) \<Rightarrow> 'a lru_state_scheme \<Rightarrow> latte_object option \<Rightarrow> int \<Rightarrow> (64 word) res" where
  "eviction_score L mstime lfu rs obj val =
     (let policy = maxmemory_policy rs in
      res_bind (if policy \<noteq> MAXMEMORY_VOLATILE_TTL \<and> obj = None then Inl (Null_deref ''dict_get_val(de)'') else Inr ()) (\<lambda>_.
      if policy AND MAXMEMORY_FLAG_LRU \<noteq> 0 then estimate_object_idle_time L mstime rs (the obj)
      else if policy AND MAXMEMORY_FLAG_LFU \<noteq> 0 then Inr (255 - lfu (the obj))
      else if policy = MAXMEMORY_VOLATILE_TTL then Inr (- 1 - word_of_int val)
      else Inl (Unreachable ''Unknow eviction policy in eviction_pool_populate()'')))"

text \<open>The search for the place of a score: over the entries that are in use and have a smaller one.\<close>

fun pool_position :: "eviction_pool_entry list \<Rightarrow> 64 word \<Rightarrow> nat" where
  "pool_position [] idle = 0"
| "pool_position (e # es) idle = (if ep_key e \<noteq> Null_key \<and> ep_idle e < idle then Suc (pool_position es idle) else 0)"

text \<open>
  Making room: the place and the moved entries, \<open>None\<close> for \<open>continue\<close>. The \<open>memmove\<close> to the right copies the entries
  from \<open>k\<close> to the last but one, the one to the left those from 1 to \<open>k\<close>.
\<close>

definition make_room :: "eviction_pool_entry list \<Rightarrow> 64 word \<Rightarrow> (nat \<times> eviction_pool_entry list) option" where
  "make_room es idle =
     (let k = pool_position es idle in
      if k = 0 \<and> ep_key (es ! (EVPOOL_SIZE - 1)) \<noteq> Null_key then None
      else if k < EVPOOL_SIZE \<and> ep_key (es ! k) = Null_key then Some (k, es)
      else if ep_key (es ! (EVPOOL_SIZE - 1)) = Null_key then
        let cached = ep_cached (es ! (EVPOOL_SIZE - 1));
            es = take (Suc k) es @ take (EVPOOL_SIZE - k - 1) (drop k es)
        in Some (k, es[k := (es ! k)\<lparr>ep_cached := cached\<rparr>])
      else
        let k = k - 1;
            cached = ep_cached (es ! 0);
            es = take k (drop 1 es) @ drop k es
        in Some (k, es[k := (es ! k)\<lparr>ep_cached := cached\<rparr>]))"

text \<open>A short key is copied into the buffer of its entry.\<close>

definition pool_insert :: "eviction_pool \<Rightarrow> 64 word \<Rightarrow> string \<Rightarrow> int \<Rightarrow> eviction_pool" where
  "pool_insert pool idle key dbid =
     (case make_room (pool_entries pool) idle of
        None \<Rightarrow> pool
      | Some (k, es) \<Rightarrow>
          if EVPOOL_CACHED_SDS_SIZE < length key then
            pool\<lparr>pool_entries := es[k := (es ! k)\<lparr>ep_key := Own_key key, ep_idle := idle, ep_dbid := dbid\<rparr>]\<rparr>
          else
            pool\<lparr>pool_entries := es[k := (es ! k)\<lparr>ep_key := In_cached, ep_idle := idle, ep_dbid := dbid\<rparr>],
                 cached_bytes := (cached_bytes pool)(ep_cached (es ! k) := key)\<rparr>)"

text \<open>The samples are what \<open>dict_get_some_keys\<close> drew: a key, its object in the keyspace and its deadline.\<close>

fun eviction_pool_populate ::
  "latte_c \<Rightarrow> int \<Rightarrow> (latte_object \<Rightarrow> 64 word) \<Rightarrow> 'a lru_state_scheme \<Rightarrow> int \<Rightarrow> (string \<times> latte_object option \<times> int) list
     \<Rightarrow> eviction_pool \<Rightarrow> eviction_pool res" where
  "eviction_pool_populate L mstime lfu rs dbid [] pool = Inr pool"
| "eviction_pool_populate L mstime lfu rs dbid ((key, obj, val) # samples) pool =
     res_bind (eviction_score L mstime lfu rs obj val) (\<lambda>idle.
     eviction_pool_populate L mstime lfu rs dbid samples (pool_insert pool idle key dbid))"

section \<open>Specification\<close>

text \<open>The candidates of a pool, and the reference: sorted insertion, and the smallest of seventeen leaves.\<close>

definition key_text :: "eviction_pool \<Rightarrow> eviction_pool_entry \<Rightarrow> string" where
  "key_text pool e = (case ep_key e of In_cached \<Rightarrow> cached_bytes pool (ep_cached e) | Own_key s \<Rightarrow> s | Null_key \<Rightarrow> [])"

definition candidates :: "eviction_pool \<Rightarrow> (64 word \<times> string \<times> int) list" where
  "candidates pool = map (\<lambda>e. (ep_idle e, key_text pool e, ep_dbid e)) (takeWhile (\<lambda>e. ep_key e \<noteq> Null_key) (pool_entries pool))"

definition spec_insert :: "64 word \<times> string \<times> int \<Rightarrow> (64 word \<times> string \<times> int) list \<Rightarrow> (64 word \<times> string \<times> int) list" where
  "spec_insert x xs = (let ys = insort_key fst x xs in if length xs = EVPOOL_SIZE then tl ys else ys)"

definition pool_inv :: "eviction_pool \<Rightarrow> bool" where
  "pool_inv pool \<longleftrightarrow> length (pool_entries pool) = EVPOOL_SIZE \<and> distinct (map ep_cached (pool_entries pool)) \<and>
     set (map ep_cached (pool_entries pool)) = {0..<EVPOOL_SIZE} \<and>
     (\<exists>xs ys. pool_entries pool = xs @ ys \<and> list_all (\<lambda>e. ep_key e \<noteq> Null_key) xs \<and> list_all (\<lambda>e. ep_key e = Null_key) ys \<and>
        sorted (map ep_idle xs))"

lemma insort_split: "insort_key f x ys = takeWhile (\<lambda>y. f y < f x) ys @ x # dropWhile (\<lambda>y. f y < f x) ys"
  by (induction ys) (auto simp: not_less)

lemma sorted_around:
  fixes x :: "'b::linorder"
  assumes "sorted (map f xs)"
  shows "sorted (map f (takeWhile (\<lambda>e. f e < x) xs) @ x # map f (dropWhile (\<lambda>e. f e < x) xs))"
  using assms by (induction xs) (auto simp: not_less dest!: set_takeWhileD dest: set_dropWhileD intro: order_trans)

lemma pool_position_split:
  assumes "list_all (\<lambda>e. ep_key e \<noteq> Null_key) xs" "list_all (\<lambda>e. ep_key e = Null_key) ys"
  shows "pool_position (xs @ ys) i = length (takeWhile (\<lambda>e. ep_idle e < i) xs)"
  using assms by (induction xs) (cases ys; auto)+

text \<open>Where the new entry goes: behind the smaller scores, before the others; the buffers are only exchanged.\<close>

lemma make_room_free:
  assumes es: "length (as @ bs @ ys) = EVPOOL_SIZE" and ne: "ys \<noteq> []" and k: "pool_position (as @ bs @ ys) i = length as"
    and null: "list_all (\<lambda>e. ep_key e \<noteq> Null_key) (as @ bs)" "list_all (\<lambda>e. ep_key e = Null_key) ys"
  shows "\<exists>e zs. make_room (as @ bs @ ys) i = Some (length as, as @ e # bs @ zs) \<and> list_all (\<lambda>e. ep_key e = Null_key) zs \<and>
    mset (map ep_cached (as @ e # bs @ zs)) = mset (map ep_cached (as @ bs @ ys))"
proof -
  let ?es = "as @ bs @ ys"
  have last: "?es ! (EVPOOL_SIZE - 1) = last ys" using es ne by (metis append_is_Nil_conv last_appendR last_conv_nth)
  have lnull: "ep_key (last ys) = Null_key" using null(2) ne by (simp add: list_all_iff)
  have lt: "length as < EVPOOL_SIZE" using es ne by (cases ys) auto
  show ?thesis
  proof (cases bs)
    case Nil
    obtain y ys' where ys: "ys = y # ys'" using ne by (cases ys) auto
    have "make_room ?es i = Some (length as, ?es)" unfolding make_room_def Let_def k last using lnull lt null(2) Nil ys by simp
    then show ?thesis using Nil ys null(2) by (intro exI [of _ y] exI [of _ ys']) simp
  next
    case (Cons b bs')
    let ?e = "b\<lparr>ep_cached := ep_cached (last ys)\<rparr>"
    have b: "ep_key b \<noteq> Null_key" using null(1) Cons by simp
    have "take (Suc (length as)) ?es = as @ [b]" using Cons by simp
    moreover have "take (EVPOOL_SIZE - length as - 1) (drop (length as) ?es) = bs @ butlast ys"
    proof -
      have "EVPOOL_SIZE - length as - 1 = length (bs @ ys) - 1" using es by simp
      then show ?thesis using ne by (cases ys rule: rev_cases) simp_all
    qed
    ultimately have "make_room ?es i = Some (length as, as @ ?e # bs @ butlast ys)"
      unfolding make_room_def Let_def k last using lnull lt b Cons by simp
    moreover have "mset (map ep_cached ys) = add_mset (ep_cached (last ys)) (mset (map ep_cached (butlast ys)))"
      using ne by (cases ys rule: rev_cases) simp_all
    moreover have "list_all (\<lambda>e. ep_key e = Null_key) (butlast ys)" using null(2) by (auto simp: list_all_iff dest: in_set_butlastD)
    ultimately show ?thesis by (intro exI [of _ ?e] exI [of _ "butlast ys"]) simp
  qed
qed

lemma make_room_full:
  assumes es: "length (as @ bs) = EVPOOL_SIZE" and k: "pool_position (as @ bs) i = length as" and null: "list_all (\<lambda>e. ep_key e \<noteq> Null_key) (as @ bs)"
  shows "as = [] \<Longrightarrow> make_room (as @ bs) i = None"
    "as \<noteq> [] \<Longrightarrow> \<exists>e. make_room (as @ bs) i = Some (length (tl as), tl as @ e # bs) \<and>
       mset (map ep_cached (tl as @ e # bs)) = mset (map ep_cached (as @ bs))"
proof -
  let ?es = "as @ bs"
  have "?es ! (EVPOOL_SIZE - 1) \<in> set ?es" using es by (intro nth_mem) (simp add: EVPOOL_SIZE_def)
  then have last: "ep_key (?es ! (EVPOOL_SIZE - 1)) \<noteq> Null_key" using null by (simp add: list_all_iff)
  then show "as = [] \<Longrightarrow> make_room (as @ bs) i = None" using k by (simp add: make_room_def)
  assume ne: "as \<noteq> []"
  then obtain a as' where as: "as = a # as'" by (cases as) auto
  have at: "length as < EVPOOL_SIZE \<Longrightarrow> ep_key (?es ! length as) \<noteq> Null_key"
    using null es nth_mem [of "length as" ?es] unfolding list_all_iff by simp
  let ?e = "(last as)\<lparr>ep_cached := ep_cached a\<rparr>"
  have "drop (length as') ?es = last as # bs" using as by (cases as' rule: rev_cases) auto
  then have "make_room ?es i = Some (length as', as' @ ?e # bs)"
    unfolding make_room_def Let_def k using last at ne as by simp
  then show "\<exists>e. make_room ?es i = Some (length (tl as), tl as @ e # bs) \<and>
       mset (map ep_cached (tl as @ e # bs)) = mset (map ep_cached ?es)"
    using as by (intro exI [of _ ?e]) simp
qed

text \<open>Storing a key in the place that was made.\<close>

definition stored :: "eviction_pool \<Rightarrow> eviction_pool_entry \<Rightarrow> 64 word \<Rightarrow> string \<Rightarrow> int \<Rightarrow> eviction_pool_entry \<times> (nat \<Rightarrow> string)" where
  "stored pool e idle key dbid =
     (if EVPOOL_CACHED_SDS_SIZE < length key then (e\<lparr>ep_key := Own_key key, ep_idle := idle, ep_dbid := dbid\<rparr>, cached_bytes pool)
      else (e\<lparr>ep_key := In_cached, ep_idle := idle, ep_dbid := dbid\<rparr>, (cached_bytes pool)(ep_cached e := key)))"

lemma pool_insert_stored:
  assumes "make_room (pool_entries pool) idle = Some (length pre, pre @ e # post)"
  shows "pool_insert pool idle key dbid =
    pool\<lparr>pool_entries := pre @ fst (stored pool e idle key dbid) # post, cached_bytes := snd (stored pool e idle key dbid)\<rparr>"
  using assms by (simp add: pool_insert_def stored_def)

lemma stored_view:
  assumes "distinct (map ep_cached (pre @ e # post))" "pool' = pool\<lparr>pool_entries := es', cached_bytes := snd (stored pool e idle key dbid)\<rparr>"
  shows "ep_idle (fst (stored pool e idle key dbid)) = idle" "ep_dbid (fst (stored pool e idle key dbid)) = dbid"
    "ep_key (fst (stored pool e idle key dbid)) \<noteq> Null_key" "ep_cached (fst (stored pool e idle key dbid)) = ep_cached e"
    "key_text pool' (fst (stored pool e idle key dbid)) = key"
    "x \<in> set pre \<union> set post \<Longrightarrow> key_text pool' x = key_text pool x"
proof -
  show "x \<in> set pre \<union> set post \<Longrightarrow> key_text pool' x = key_text pool x"
  proof -
    assume "x \<in> set pre \<union> set post"
    then have "ep_cached x \<in> ep_cached ` set pre \<union> ep_cached ` set post" by blast
    moreover have "ep_cached e \<notin> ep_cached ` set pre \<union> ep_cached ` set post" using assms(1) by simp
    ultimately have "ep_cached x \<noteq> ep_cached e" by metis
    then show ?thesis by (simp add: key_text_def assms(2) stored_def split: pool_key.split)
  qed
qed (auto simp: stored_def key_text_def assms(2))

text \<open>The pool as its used and its free entries.\<close>

definition split_pool :: "eviction_pool \<Rightarrow> eviction_pool_entry list \<Rightarrow> eviction_pool_entry list \<Rightarrow> bool" where
  "split_pool pool xs ys \<longleftrightarrow> pool_entries pool = xs @ ys \<and> list_all (\<lambda>e. ep_key e \<noteq> Null_key) xs \<and> list_all (\<lambda>e. ep_key e = Null_key) ys"

lemma split_candidates:
  assumes "split_pool pool xs ys"
  shows "candidates pool = map (\<lambda>e. (ep_idle e, key_text pool e, ep_dbid e)) xs"
proof -
  have "takeWhile (\<lambda>e. ep_key e \<noteq> Null_key) (xs @ ys) = xs"
    using assms by (auto simp: split_pool_def list_all_iff takeWhile_append takeWhile_eq_all_conv) (cases ys; auto simp: list_all_iff)+
  then show ?thesis using assms by (simp add: candidates_def split_pool_def)
qed

lemma insert_at:
  assumes inv: "pool_inv pool" and room: "make_room (pool_entries pool) idle = Some (length pre, pre @ e # bs @ zs)"
    and cached: "mset (map ep_cached (pre @ e # bs @ zs)) = mset (map ep_cached (pool_entries pool))"
    and used: "list_all (\<lambda>e. ep_key e \<noteq> Null_key) (pre @ bs)" "list_all (\<lambda>e. ep_key e = Null_key) zs"
    and sorted: "sorted (map ep_idle pre @ idle # map ep_idle bs)"
  shows "pool_inv (pool_insert pool idle key dbid)"
    "candidates (pool_insert pool idle key dbid) =
      map (\<lambda>e. (ep_idle e, key_text pool e, ep_dbid e)) pre @ (idle, key, dbid) # map (\<lambda>e. (ep_idle e, key_text pool e, ep_dbid e)) bs"
proof -
  let ?s = "fst (stored pool e idle key dbid)"
  define pool' where "pool' = pool_insert pool idle key dbid"
  have p': "pool' = pool\<lparr>pool_entries := pre @ ?s # bs @ zs, cached_bytes := snd (stored pool e idle key dbid)\<rparr>"
    unfolding pool'_def by (rule pool_insert_stored [OF room])
  have "distinct (map ep_cached (pool_entries pool))" using inv by (simp add: pool_inv_def)
  then have d: "distinct (map ep_cached (pre @ e # bs @ zs))" using cached by (metis mset_eq_imp_distinct_iff)
  note v = stored_view [OF d p']
  have split: "split_pool pool' (pre @ ?s # bs) zs" using used v(3) by (simp add: split_pool_def p')
  have same: "map ep_cached (pool_entries pool') = map ep_cached (pre @ e # bs @ zs)" by (simp add: p' v(4))
  have "length (pool_entries pool') = EVPOOL_SIZE" "distinct (map ep_cached (pool_entries pool'))"
    "set (map ep_cached (pool_entries pool')) = {0..<EVPOOL_SIZE}"
    using inv d mset_eq_length [OF cached] mset_eq_setD [OF cached] unfolding pool_inv_def same by (simp_all add: p')
  moreover have "sorted (map ep_idle (pre @ ?s # bs))" using sorted by (simp add: v(1))
  ultimately show "pool_inv (pool_insert pool idle key dbid)"
    using split unfolding pool_inv_def pool'_def [symmetric] split_pool_def by blast
  show "candidates (pool_insert pool idle key dbid) =
      map (\<lambda>e. (ep_idle e, key_text pool e, ep_dbid e)) pre @ (idle, key, dbid) # map (\<lambda>e. (ep_idle e, key_text pool e, ep_dbid e)) bs"
    unfolding pool'_def [symmetric] split_candidates [OF split] using v by simp
qed

lemma pool_insert_refines:
  assumes inv: "pool_inv pool"
  shows "pool_inv (pool_insert pool idle key dbid) \<and>
    candidates (pool_insert pool idle key dbid) = spec_insert (idle, key, dbid) (candidates pool)"
proof -
  obtain xs ys where es: "pool_entries pool = xs @ ys" and null: "list_all (\<lambda>e. ep_key e \<noteq> Null_key) xs" "list_all (\<lambda>e. ep_key e = Null_key) ys"
    and so: "sorted (map ep_idle xs)" and len: "length (xs @ ys) = EVPOOL_SIZE"
    using inv unfolding pool_inv_def by auto
  define as where "as = takeWhile (\<lambda>e. ep_idle e < idle) xs"
  define bs where "bs = dropWhile (\<lambda>e. ep_idle e < idle) xs"
  have xs: "xs = as @ bs" by (simp add: as_def bs_def)
  have k: "pool_position (pool_entries pool) idle = length as" using pool_position_split [OF null] by (simp add: es as_def)
  let ?v = "\<lambda>e. (ep_idle e, key_text pool e, ep_dbid e)"
  have c: "candidates pool = map ?v xs" using es null by (intro split_candidates) (simp add: split_pool_def)
  have ins: "insort_key fst (idle, key, dbid) (candidates pool) = map ?v as @ (idle, key, dbid) # map ?v bs"
    unfolding c insort_split by (simp add: takeWhile_map dropWhile_map o_def as_def bs_def)
  have sb: "sorted (map ep_idle as @ idle # map ep_idle bs)" using sorted_around [OF so] by (simp add: as_def bs_def)
  have used: "list_all (\<lambda>e. ep_key e \<noteq> Null_key) (as @ bs)" using null(1) xs by simp
  show ?thesis
  proof (cases "ys = []")
    case False
    have l: "length (as @ bs @ ys) = EVPOOL_SIZE" and k': "pool_position (as @ bs @ ys) idle = length as" using len k es xs by simp_all
    from make_room_free [OF l False k' used null(2)] obtain e zs where
      r: "make_room (pool_entries pool) idle = Some (length as, as @ e # bs @ zs)" "list_all (\<lambda>e. ep_key e = Null_key) zs"
      "mset (map ep_cached (as @ e # bs @ zs)) = mset (map ep_cached (pool_entries pool))" unfolding es xs by auto
    have "length (candidates pool) \<noteq> EVPOOL_SIZE" using len False c by auto
    then show ?thesis using insert_at [OF inv r(1,3) used r(2) sb] ins by (simp add: spec_insert_def Let_def)
  next
    case True
    have l: "length (as @ bs) = EVPOOL_SIZE" and k': "pool_position (as @ bs) idle = length as" using len k es xs True by simp_all
    have full: "length (candidates pool) = EVPOOL_SIZE" using l c xs by simp
    show ?thesis
    proof (cases "as = []")
      case as: True
      then have "pool_insert pool idle key dbid = pool" using make_room_full(1) [OF l k' used] by (simp add: pool_insert_def es xs True)
      then show ?thesis using inv ins full as c xs by (simp add: spec_insert_def)
    next
      case False
      from make_room_full(2) [OF l k' used False] obtain e where
        r: "make_room (pool_entries pool) idle = Some (length (tl as), tl as @ e # bs @ [])"
        "mset (map ep_cached (tl as @ e # bs @ [])) = mset (map ep_cached (pool_entries pool))" unfolding es xs True by auto
      have "list_all (\<lambda>e. ep_key e \<noteq> Null_key) (tl as @ bs)" "sorted (map ep_idle (tl as) @ idle # map ep_idle bs)"
        using used sb False by (cases as; simp)+
      then show ?thesis using insert_at [OF inv r _ _] ins full False by (simp add: spec_insert_def Let_def map_tl)
    qed
  qed
qed

lemma populate_refines:
  assumes "list_all2 (\<lambda>(_, obj, val) i. eviction_score L mstime lfu rs obj val = Inr i) samples idles"
  shows "pool_inv pool \<Longrightarrow> \<exists>pool'. eviction_pool_populate L mstime lfu rs dbid samples pool = Inr pool' \<and> pool_inv pool' \<and>
    candidates pool' = fold spec_insert (map2 (\<lambda>(key, _, _) i. (i, key, dbid)) samples idles) (candidates pool)"
  using assms
proof (induction samples idles arbitrary: pool rule: list_all2_induct)
  case (Cons s samples i idles)
  obtain key obj val where s: "s = (key, obj, val)" by (cases s)
  have "pool_inv (pool_insert pool i key dbid)" "candidates (pool_insert pool i key dbid) = spec_insert (i, key, dbid) (candidates pool)"
    using pool_insert_refines [OF Cons.prems] by blast+
  then show ?case using Cons.IH [of "pool_insert pool i key dbid"] Cons.hyps(1) s by simp
qed simp

lemma pool_alloc_inv: "pool_inv eviction_pool_alloc" "candidates eviction_pool_alloc = []"
proof -
  let ?es = "pool_entries eviction_pool_alloc"
  have m: "map ep_cached ?es = [0..<EVPOOL_SIZE]" by (simp add: eviction_pool_alloc_def o_def)
  have l: "length ?es = EVPOOL_SIZE" by (simp add: eviction_pool_alloc_def)
  have n: "list_all (\<lambda>e. ep_key e = Null_key) ?es" by (simp add: eviction_pool_alloc_def list_all_iff)
  show "pool_inv eviction_pool_alloc" unfolding pool_inv_def m using l n by (intro conjI exI [of _ "[]"] exI [of _ ?es]) simp_all
  show "candidates eviction_pool_alloc = []" using n split_candidates [of eviction_pool_alloc "[]" ?es] by (simp add: split_pool_def)
qed

section \<open>Properties\<close>

text \<open>
  C13. Filling the pool from samples is sorted insertion by score with the smallest of seventeen dropped: the moves of
  entries in the array, in both directions, compute exactly the reference, the used entries stay in front and in order, and the sixteen
  key buffers stay one per entry, so that no entry's key is overwritten by another's.
\<close>

theorem eviction_pool_refines:
  assumes "pool_inv pool" "list_all2 (\<lambda>(_, obj, val) i. eviction_score L mstime lfu rs obj val = Inr i) samples idles"
  shows "\<exists>pool'. eviction_pool_populate L mstime lfu rs dbid samples pool = Inr pool' \<and> pool_inv pool' \<and>
    candidates pool' = fold spec_insert (map2 (\<lambda>(key, _, _) i. (i, key, dbid)) samples idles) (candidates pool)"
  using populate_refines [OF assms(2,1)] .

section \<open>Witnesses\<close>

theorem eviction_pool_refines_witness:
  "\<exists>pool'. eviction_pool_populate latte_c_ref 0 (\<lambda>_. 0) \<lparr>unixtime = 0, hz = 10, maxmemory_policy = MAXMEMORY_VOLATILE_TTL, lruclock = 0\<rparr> 3
       [(''a'', None, 7), (''b'', None, 5)] eviction_pool_alloc = Inr pool' \<and> pool_inv pool' \<and>
     candidates pool' = [(- 8, ''a'', 3), (- 6, ''b'', 3)]"
proof -
  let ?rs = "\<lparr>unixtime = 0, hz = 10, maxmemory_policy = MAXMEMORY_VOLATILE_TTL, lruclock = 0\<rparr> :: lru_state"
  have "MAXMEMORY_VOLATILE_TTL AND MAXMEMORY_FLAG_LRU = 0" "MAXMEMORY_VOLATILE_TTL AND MAXMEMORY_FLAG_LFU = 0"
    by (simp_all add: MAXMEMORY_VOLATILE_TTL_def MAXMEMORY_FLAG_LRU_def MAXMEMORY_FLAG_LFU_def)
  then have "eviction_score latte_c_ref 0 (\<lambda>_. 0) ?rs None 7 = Inr (- 8)" "eviction_score latte_c_ref 0 (\<lambda>_. 0) ?rs None 5 = Inr (- 6)"
    by (simp_all add: eviction_score_def)
  then have "list_all2 (\<lambda>(_, obj, val) i. eviction_score latte_c_ref 0 (\<lambda>_. 0) ?rs obj val = Inr i) [(''a'', None, 7), (''b'', None, 5)] [- 8, - 6]" by simp
  from eviction_pool_refines [OF pool_alloc_inv(1) this, of 3] show ?thesis
    by (simp add: pool_alloc_inv(2) spec_insert_def EVPOOL_SIZE_def)
qed

end
