(* ===== verification/Key_Types.thy ===== *)
theory Key_Types
  imports Db Complex_Main
begin

text \<open>
  The dictionary types of \<open>src/redis/db.c\<close>: hashing and comparing keys that are objects, which may be strings or
  encoded integers, and the policy for growing a dictionary. The hash function, the comparison of
  strings and the decoding of an object are the library's.
\<close>

section \<open>Growing\<close>

definition over_maxmemory_after_alloc :: "nat \<Rightarrow> int" where
  "over_maxmemory_after_alloc moremem = 0"

definition HASHTABLE_MAX_LOAD_FACTOR :: rat where "HASHTABLE_MAX_LOAD_FACTOR = 1618 / 1000"

definition dict_resize_allowed :: "nat \<Rightarrow> rat \<Rightarrow> int" where
  "dict_resize_allowed more_mem used_ratio =
     (if used_ratio \<le> HASHTABLE_MAX_LOAD_FACTOR then (if over_maxmemory_after_alloc more_mem = 0 then 1 else 0) else 1)"

text \<open>As long as the memory limit is not checked, no growth is refused, whatever the load factor.\<close>

lemma dict_resize_always_allowed: "dict_resize_allowed more_mem used_ratio = 1"
  by (simp add: dict_resize_allowed_def over_maxmemory_after_alloc_def)

section \<open>Keys\<close>

record key_lib =
  dict_gen_hash_function :: "string \<Rightarrow> 64 word"
  dict_sds_key_compare :: "string \<Rightarrow> string \<Rightarrow> bool"
  get_decode_object :: "obj_heap \<Rightarrow> nat \<Rightarrow> (obj_heap \<times> nat) res"

text \<open>The bytes a key object points to.\<close>

definition key_bytes :: "latte_object \<Rightarrow> string res" where
  "key_bytes obj = (case ptr obj of Ptr_bytes s \<Rightarrow> Inr s | _ \<Rightarrow> Inl (Null_deref ''o->ptr''))"

definition dict_object_hash :: "key_lib \<Rightarrow> latte_object \<Rightarrow> (64 word) res" where
  "dict_object_hash K obj = res_bind (key_bytes obj) (\<lambda>s. Inr (dict_gen_hash_function K s))"

definition dict_object_key_compare :: "key_lib \<Rightarrow> latte_object \<Rightarrow> latte_object \<Rightarrow> bool res" where
  "dict_object_key_compare K o1 o2 =
     res_bind (key_bytes o1) (\<lambda>s. res_bind (key_bytes o2) (\<lambda>t. Inr (dict_sds_key_compare K s t)))"

definition dict_encode_object_hash :: "latte_c \<Rightarrow> key_lib \<Rightarrow> latte_object \<Rightarrow> (64 word) res" where
  "dict_encode_object_hash L K obj =
     (if sds_encoded_object L obj then res_bind (key_bytes obj) (\<lambda>s. Inr (dict_gen_hash_function K s))
      else if encoding obj = OBJ_ENCODING_INT then
        (case ptr obj of Ptr_long n \<Rightarrow> Inr (dict_gen_hash_function K (ll2string L n)) | _ \<Rightarrow> Inl (Null_deref ''o->ptr''))
      else Inl (Panic ''Unknown string encoding''))"

text \<open>An object with the static reference count is used as it is; any other is decoded, and let go of after the comparison.\<close>

definition decoded :: "latte_c \<Rightarrow> key_lib \<Rightarrow> obj_heap \<Rightarrow> nat \<Rightarrow> (obj_heap \<times> nat) res" where
  "decoded L K h a =
     res_bind (obj_get h a) (\<lambda>obj. if refcount obj \<noteq> OBJ_STATIC_REFCOUNT L then get_decode_object K h a else Inr (h, a))"

definition let_go :: "latte_c \<Rightarrow> obj_heap \<Rightarrow> nat \<Rightarrow> obj_heap res" where
  "let_go L h a =
     res_bind (obj_get h a) (\<lambda>obj. if refcount obj \<noteq> OBJ_STATIC_REFCOUNT L then latte_object_decr_ref_count L h a else Inr h)"

definition dict_encode_object_key_compare :: "latte_c \<Rightarrow> key_lib \<Rightarrow> obj_heap \<Rightarrow> nat \<Rightarrow> nat \<Rightarrow> (obj_heap \<times> bool) res" where
  "dict_encode_object_key_compare L K h key1 key2 =
     res_bind (obj_get h key1) (\<lambda>o1.
     res_bind (obj_get h key2) (\<lambda>o2.
     if encoding o1 = OBJ_ENCODING_INT \<and> encoding o2 = OBJ_ENCODING_INT then Inr (h, ptr o1 = ptr o2)
     else
       res_bind (decoded L K h key1) (\<lambda>(h, a1).
       res_bind (decoded L K h key2) (\<lambda>(h, a2).
       res_bind (obj_get h a1) (\<lambda>o1.
       res_bind (obj_get h a2) (\<lambda>o2.
       res_bind (dict_object_key_compare K o1 o2) (\<lambda>cmp.
       res_bind (let_go L h a1) (\<lambda>h.
       res_bind (let_go L h a2) (\<lambda>h.
       Inr (h, cmp))))))))))"

section \<open>What a hash table needs of its keys\<close>

text \<open>
  Equality of keys is an equivalence and equal keys have the same hash. Then the search in the bucket of a key finds what a search
  through all keys would.
\<close>

locale hashed_keys =
  fixes key :: "'k \<Rightarrow> bool" and same :: "'k \<Rightarrow> 'k \<Rightarrow> bool" and hash :: "'k \<Rightarrow> 'h"
  assumes same_refl: "key a \<Longrightarrow> same a a"
    and same_sym: "key a \<Longrightarrow> key b \<Longrightarrow> same a b \<Longrightarrow> same b a"
    and same_trans: "key a \<Longrightarrow> key b \<Longrightarrow> key c \<Longrightarrow> same a b \<Longrightarrow> same b c \<Longrightarrow> same a c"
    and hash_cong: "key a \<Longrightarrow> key b \<Longrightarrow> same a b \<Longrightarrow> hash a = hash b"
begin

lemma bucket_search:
  assumes "key k" "list_all key ks"
  shows "find (same k) (filter (\<lambda>x. hash x = hash k) ks) = find (same k) ks"
  using assms(2) by (induction ks) (auto dest: hash_cong [OF assms(1)])

lemma search_cong:
  assumes "key k" "key l" "same k l" "list_all key ks"
  shows "find (same k) ks = find (same l) ks"
  using assms(4)
proof (induction ks)
  case (Cons x xs)
  then have "same k x = same l x" using assms(1-3) by (auto intro: same_trans same_sym)
  then show ?case using Cons by simp
qed simp

end

section \<open>Contract\<close>

definition object_text :: "latte_object \<Rightarrow> string" where
  "object_text obj = (case ptr obj of Ptr_bytes s \<Rightarrow> s | Ptr_long n \<Rightarrow> dec n | _ \<Rightarrow> [])"

text \<open>A key: a string, or an integer of 64 bits; its reference count is at least \<open>k\<close> below the reserved counts.\<close>

definition key_object :: "latte_c \<Rightarrow> int \<Rightarrow> latte_object \<Rightarrow> bool" where
  "key_object L k obj \<longleftrightarrow> 0 < refcount obj \<and> refcount obj + k < OBJ_STATIC_REFCOUNT L \<and>
     ((\<exists>s. string_obj L obj s \<and> encoding obj \<noteq> OBJ_ENCODING_INT) \<or>
      (\<exists>n. ptr obj = Ptr_long n \<and> encoding obj = OBJ_ENCODING_INT \<and> \<not> sds_encoded_object L obj \<and> llong_min \<le> n \<and> n \<le> llong_max))"

text \<open>Decoding a string takes one more reference to it, decoding an integer makes a new string.\<close>

definition key_laws :: "latte_c \<Rightarrow> key_lib \<Rightarrow> bool" where
  "key_laws L K \<longleftrightarrow> (\<forall>s t. dict_sds_key_compare K s t \<longleftrightarrow> s = t) \<and>
     (\<forall>h a obj s. cells h a = Some obj \<longrightarrow> string_obj L obj s \<longrightarrow> refcount obj < OBJ_STATIC_REFCOUNT L \<longrightarrow>
        get_decode_object K h a = Inr (obj_put h a (Some (obj\<lparr>refcount := refcount obj + 1\<rparr>)), a)) \<and>
     (\<forall>h a obj n. cells h a = Some obj \<longrightarrow> ptr obj = Ptr_long n \<longrightarrow> encoding obj = OBJ_ENCODING_INT \<longrightarrow>
        get_decode_object K h a = Inr (obj_alloc h (string_object_new L (dec n))))"

text \<open>What is left of a cell after one reference is given back.\<close>

definition unref :: "latte_object \<Rightarrow> latte_object option" where
  "unref obj = (if refcount obj = 1 then None else Some (obj\<lparr>refcount := refcount obj - 1\<rparr>))"

lemma key_laws_string:
  "key_laws L K \<Longrightarrow> cells h a = Some obj \<Longrightarrow> string_obj L obj s \<Longrightarrow> refcount obj < OBJ_STATIC_REFCOUNT L \<Longrightarrow>
   get_decode_object K h a = Inr (obj_put h a (Some (obj\<lparr>refcount := refcount obj + 1\<rparr>)), a)"
  unfolding key_laws_def by blast

lemma key_laws_long:
  "key_laws L K \<Longrightarrow> cells h a = Some obj \<Longrightarrow> ptr obj = Ptr_long n \<Longrightarrow> encoding obj = OBJ_ENCODING_INT \<Longrightarrow>
   get_decode_object K h a = Inr (obj_alloc h (string_object_new L (dec n)))"
  unfolding key_laws_def by blast

lemma object_text_string: "string_obj L obj s \<Longrightarrow> object_text obj = s"
  by (simp add: string_obj_def object_text_def)

text \<open>Decoding borrows one cell: giving the reference back restores it.\<close>

lemma decoded_borrows:
  assumes L: "object_laws L" "key_laws L K" and h: "heap_wf h" "cells h a = Some obj" "key_object L k obj" "0 < k"
  shows "\<exists>h' b p. decoded L K h a = Inr (h', b) \<and> heap_wf h' \<and> cells h' = (cells h)(b := Some p) \<and> unref p = cells h b \<and>
     ptr p = Ptr_bytes (object_text obj) \<and> 0 < refcount p \<and> refcount p < OBJ_STATIC_REFCOUNT L"
proof (cases "encoding obj = OBJ_ENCODING_INT")
  case False
  then obtain s where s: "string_obj L obj s" and r: "0 < refcount obj" "refcount obj + 1 < OBJ_STATIC_REFCOUNT L"
    using h(3,4) unfolding key_object_def by auto
  let ?p = "obj\<lparr>refcount := refcount obj + 1\<rparr>"
  have "decoded L K h a = Inr (obj_put h a (Some ?p), a)"
    using key_laws_string [OF L(2) h(2) s] h(2) r unfolding decoded_def by simp
  moreover have "heap_wf (obj_put h a (Some ?p))" using h(1,2) by (simp add: heap_wf_put)
  moreover have "cells (obj_put h a (Some ?p)) = (cells h)(a := Some ?p)" by (simp add: obj_put_def)
  moreover have "unref ?p = cells h a" using h(2) r by (simp add: unref_def)
  moreover have "ptr ?p = Ptr_bytes (object_text obj)" using s by (simp add: string_obj_def object_text_def)
  moreover have "0 < refcount ?p" "refcount ?p < OBJ_STATIC_REFCOUNT L" using r by simp_all
  ultimately show ?thesis by blast
next
  case True
  then obtain n where n: "ptr obj = Ptr_long n" and r: "refcount obj < OBJ_STATIC_REFCOUNT L"
    using h(3,4) L(1) unfolding key_object_def by auto
  let ?p = "string_object_new L (dec n)" and ?b = "next_addr h"
  have p: "string_obj L ?p (dec n)" "refcount ?p = 1" "1 < OBJ_STATIC_REFCOUNT L"
    using L(1) unfolding object_laws_def by auto
  have "decoded L K h a = Inr (fst (obj_alloc h ?p), ?b)"
    using key_laws_long [OF L(2) h(2) n True] h(2) r unfolding decoded_def by (simp add: obj_alloc_def)
  moreover have "heap_wf (fst (obj_alloc h ?p))" using h(1) by (rule heap_wf_alloc)
  moreover have "cells (fst (obj_alloc h ?p)) = (cells h)(?b := Some ?p)" by (simp add: obj_alloc_def)
  moreover have "unref ?p = cells h ?b" using p h(1) by (simp add: unref_def heap_wf_fresh)
  moreover have "ptr ?p = Ptr_bytes (object_text obj)" using p n by (simp add: string_obj_def object_text_def)
  ultimately show ?thesis using p by fastforce
qed

lemma let_go_key:
  assumes "object_laws L" "cells h a = Some obj" "0 < refcount obj" "refcount obj < OBJ_STATIC_REFCOUNT L"
  shows "let_go L h a = Inr (obj_put h a (unref obj))"
proof (cases "refcount obj = 1")
  case True
  have "latte_object_decr_ref_count L h a = Inr (obj_put h a None)"
    using assms(1,2) True unfolding object_laws_def by blast
  then show ?thesis using assms True unfolding let_go_def unref_def by simp
next
  case False
  then have "1 < refcount obj" using assms(3) by simp
  then have "latte_object_decr_ref_count L h a = Inr (obj_put h a (Some (obj\<lparr>refcount := refcount obj - 1\<rparr>)))"
    using assms(1,2,4) unfolding object_laws_def by blast
  then show ?thesis using assms False unfolding let_go_def unref_def by simp
qed

lemma unref_SomeD:
  assumes "unref p = Some obj"
  shows "ptr p = ptr obj" "encoding p = encoding obj" "object_text p = object_text obj" "refcount p = refcount obj + 1"
    "p = obj\<lparr>refcount := refcount obj + 1, lru := lru obj\<rparr>"
  using assms by (auto simp: unref_def object_text_def split: if_splits)

lemma key_object_unref:
  assumes "object_laws L" "key_object L k obj" "unref p = Some obj" "ptr p = Ptr_bytes s"
  shows "key_object L (k - 1) p"
proof -
  have "string_obj L p s" if "string_obj L obj s" for s
    using assms(1) that unfolding object_laws_def unref_SomeD(5) [OF assms(3)] by blast
  then show ?thesis using assms(2,4) unref_SomeD [OF assms(3)] unfolding key_object_def by auto
qed

text \<open>The second key after the first was decoded: the same object, or one with one more reference to it.\<close>

lemma second_key:
  assumes L: "object_laws L" and c: "cells h' = (cells h)(b := Some p)" "unref p = cells h b" "ptr p = Ptr_bytes s"
    and k: "cells h a = Some obj" "key_object L k obj"
  shows "\<exists>obj'. cells h' a = Some obj' \<and> key_object L (k - 1) obj' \<and> object_text obj' = object_text obj"
proof (cases "a = b")
  case True
  then have u: "unref p = Some obj" using c(2) k(1) by simp
  show ?thesis using True c(1) key_object_unref [OF L k(2) u c(3)] unref_SomeD(3) [OF u] by simp
next
  case False
  then show ?thesis using c(1) k unfolding key_object_def by auto
qed

text \<open>Two borrowed cells given back one after the other leave the heap as it was.\<close>

lemma give_back_twice:
  assumes L: "object_laws L"
    and c1: "cells h1 = (cells h)(b1 := Some p1)" "unref p1 = cells h b1" "0 < refcount p1" "refcount p1 < OBJ_STATIC_REFCOUNT L"
    and c2: "cells h2 = (cells h1)(b2 := Some p2)" "unref p2 = cells h1 b2" "0 < refcount p2" "refcount p2 < OBJ_STATIC_REFCOUNT L"
  shows "\<exists>h3 h4. let_go L h2 b1 = Inr h3 \<and> let_go L h3 b2 = Inr h4 \<and> cells h4 = cells h"
proof (cases "b1 = b2")
  case True
  have g1: "let_go L h2 b1 = Inr (obj_put h2 b1 (Some p1))"
    using let_go_key [OF L, of h2 b1 p2] c1 c2 True by simp
  have g2: "let_go L (obj_put h2 b1 (Some p1)) b2 = Inr (obj_put (obj_put h2 b1 (Some p1)) b2 (cells h b1))"
    using let_go_key [OF L, of "obj_put h2 b1 (Some p1)" b2 p1] c1 True by (simp add: obj_put_def)
  show ?thesis using g1 g2 c1(1) c2(1) True by (simp add: obj_put_def)
next
  case False
  have g1: "let_go L h2 b1 = Inr (obj_put h2 b1 (cells h b1))"
    using let_go_key [OF L, of h2 b1 p1] c1 c2(1) False by simp
  have g2: "let_go L (obj_put h2 b1 (cells h b1)) b2 = Inr (obj_put (obj_put h2 b1 (cells h b1)) b2 (cells h b2))"
    using let_go_key [OF L, of "obj_put h2 b1 (cells h b1)" b2 p2] c1(1) c2 False by (simp add: obj_put_def)
  have "cells (obj_put (obj_put h2 b1 (cells h b1)) b2 (cells h b2)) = cells h"
    using c1(1) c2(1) by (simp add: obj_put_def fun_eq_iff)
  then show ?thesis using g1 g2 by blast
qed

lemma dec_inject:
  assumes "number_laws L" "llong_min \<le> m" "m \<le> llong_max" "llong_min \<le> n" "n \<le> llong_max"
  shows "dec m = dec n \<longleftrightarrow> m = n"
  using assms unfolding number_laws_def by (metis option.inject)

lemma compare_integers:
  assumes "number_laws L" "key_object L k o1" "key_object L k o2" "encoding o1 = OBJ_ENCODING_INT" "encoding o2 = OBJ_ENCODING_INT"
  shows "ptr o1 = ptr o2 \<longleftrightarrow> object_text o1 = object_text o2"
  using assms dec_inject [OF assms(1)] unfolding key_object_def object_text_def by auto

lemma compare_run:
  assumes K: "key_laws L K" and o: "cells h a1 = Some o1" "cells h a2 = Some o2" "\<not> (encoding o1 = OBJ_ENCODING_INT \<and> encoding o2 = OBJ_ENCODING_INT)"
    and d: "decoded L K h a1 = Inr (h1, b1)" "decoded L K h1 a2 = Inr (h2, b2)"
    and p: "cells h2 b1 = Some p1" "cells h2 b2 = Some p2" "ptr p1 = Ptr_bytes s" "ptr p2 = Ptr_bytes t"
    and g: "let_go L h2 b1 = Inr h3" "let_go L h3 b2 = Inr h4"
  shows "dict_encode_object_key_compare L K h a1 a2 = Inr (h4, s = t)"
  using assms unfolding dict_encode_object_key_compare_def
  by (auto simp: dict_object_key_compare_def key_bytes_def key_laws_def)

lemma compare_decoded:
  assumes L: "object_laws L" "key_laws L K" and h: "heap_wf h" "cells h a1 = Some o1" "cells h a2 = Some o2"
    and k: "key_object L 2 o1" "key_object L 2 o2" and e: "\<not> (encoding o1 = OBJ_ENCODING_INT \<and> encoding o2 = OBJ_ENCODING_INT)"
  shows "\<exists>h'. dict_encode_object_key_compare L K h a1 a2 = Inr (h', object_text o1 = object_text o2) \<and> cells h' = cells h"
proof -
  obtain h1 b1 p1 where d1: "decoded L K h a1 = Inr (h1, b1)" "heap_wf h1"
    and c1: "cells h1 = (cells h)(b1 := Some p1)" "unref p1 = cells h b1" "0 < refcount p1" "refcount p1 < OBJ_STATIC_REFCOUNT L"
    and t1: "ptr p1 = Ptr_bytes (object_text o1)"
    using decoded_borrows [OF L h(1,2) k(1)] by auto
  obtain q2 where q2: "cells h1 a2 = Some q2" "key_object L 1 q2" "object_text q2 = object_text o2"
    using second_key [OF L(1) c1(1,2) t1 h(3) k(2)] by auto
  obtain h2 b2 p2 where d2: "decoded L K h1 a2 = Inr (h2, b2)"
    and c2: "cells h2 = (cells h1)(b2 := Some p2)" "unref p2 = cells h1 b2" "0 < refcount p2" "refcount p2 < OBJ_STATIC_REFCOUNT L"
    and t2: "ptr p2 = Ptr_bytes (object_text o2)"
    using decoded_borrows [OF L d1(2) q2(1,2)] q2(3) by auto
  obtain r1 where r1: "cells h2 b1 = Some r1" "ptr r1 = Ptr_bytes (object_text o1)"
  proof (cases "b1 = b2")
    case True
    then have "unref p2 = Some p1" using c1(1) c2(2) by simp
    from unref_SomeD(1) [OF this] show ?thesis using that True c2(1) t1 by simp
  next
    case False
    then show ?thesis using that c1(1) c2(1) t1 by simp
  qed
  obtain h3 h4 where g: "let_go L h2 b1 = Inr h3" "let_go L h3 b2 = Inr h4" "cells h4 = cells h"
    using give_back_twice [OF L(1) c1 c2] by blast
  have "cells h2 b2 = Some p2" using c2(1) by simp
  from compare_run [OF L(2) h(2,3) e d1(1) d2 r1(1) this r1(2) t2 g(1,2)] g(3) show ?thesis by blast
qed

lemma hash_text:
  assumes "number_laws L" "key_object L k obj"
  shows "dict_encode_object_hash L K obj = Inr (dict_gen_hash_function K (object_text obj))"
  using assms unfolding dict_encode_object_hash_def key_object_def string_obj_def number_laws_def object_text_def key_bytes_def by auto

lemma encoded_key_run:
  assumes L: "object_laws L" "number_laws L" "key_laws L K" and h: "heap_wf h" "cells h a1 = Some o1" "cells h a2 = Some o2"
    and k: "key_object L 2 o1" "key_object L 2 o2"
  shows "\<exists>h'. dict_encode_object_key_compare L K h a1 a2 = Inr (h', object_text o1 = object_text o2) \<and> cells h' = cells h"
proof (cases "encoding o1 = OBJ_ENCODING_INT \<and> encoding o2 = OBJ_ENCODING_INT")
  case True
  then have "dict_encode_object_key_compare L K h a1 a2 = Inr (h, object_text o1 = object_text o2)"
    using h compare_integers [OF L(2) k] by (simp add: dict_encode_object_key_compare_def)
  then show ?thesis by blast
next
  case False
  from compare_decoded [OF L(1,3) h k False] show ?thesis .
qed

text \<open>The keys of a heap, compared and hashed by the two functions.\<close>

definition heap_key :: "latte_c \<Rightarrow> key_lib \<Rightarrow> obj_heap \<Rightarrow> nat \<Rightarrow> bool" where
  "heap_key L K h a \<longleftrightarrow> object_laws L \<and> number_laws L \<and> key_laws L K \<and> heap_wf h \<and> (\<exists>obj. cells h a = Some obj \<and> key_object L 2 obj)"

definition keys_equal :: "latte_c \<Rightarrow> key_lib \<Rightarrow> obj_heap \<Rightarrow> nat \<Rightarrow> nat \<Rightarrow> bool" where
  "keys_equal L K h a b = (case dict_encode_object_key_compare L K h a b of Inr (h', r) \<Rightarrow> r | Inl _ \<Rightarrow> False)"

definition key_hash :: "latte_c \<Rightarrow> key_lib \<Rightarrow> obj_heap \<Rightarrow> nat \<Rightarrow> (64 word) res" where
  "key_hash L K h a = res_bind (obj_get h a) (dict_encode_object_hash L K)"

lemma heap_key_text:
  assumes "heap_key L K h a"
  shows "heap_key L K h b \<Longrightarrow> keys_equal L K h a b \<longleftrightarrow> object_text (the (cells h a)) = object_text (the (cells h b))"
    "key_hash L K h a = Inr (dict_gen_hash_function K (object_text (the (cells h a))))"
proof -
  from assms obtain o1 where L: "object_laws L" "number_laws L" "key_laws L K" "heap_wf h" and o1: "cells h a = Some o1" "key_object L 2 o1"
    unfolding heap_key_def by blast
  show "key_hash L K h a = Inr (dict_gen_hash_function K (object_text (the (cells h a))))"
    using o1 hash_text [OF L(2) o1(2)] by (simp add: key_hash_def)
  assume "heap_key L K h b"
  then obtain o2 where o2: "cells h b = Some o2" "key_object L 2 o2" unfolding heap_key_def by blast
  from encoded_key_run [OF L o1(1) o2(1) o1(2) o2(2)]
  show "keys_equal L K h a b \<longleftrightarrow> object_text (the (cells h a)) = object_text (the (cells h b))"
    using o1(1) o2(1) by (auto simp: keys_equal_def)
qed

interpretation ek: hashed_keys "heap_key L K h" "keys_equal L K h" "key_hash L K h" for L K h
  by unfold_locales (simp_all add: heap_key_text)

text \<open>
  C15. Keys that may be strings or encoded integers keep the contract of a hash table: comparing two keys
  says whether they spell the same text, so a string is equal to the integer that prints as it; every reference the comparison takes is
  given back, also when both are the same object; and since equal keys hash equal, the search for a key in its bucket
  finds what a search through all keys of the table would find.
\<close>

theorem encoded_key_contract:
  assumes L: "object_laws L" "number_laws L" "key_laws L K" and h: "heap_wf h" "cells h a1 = Some o1" "cells h a2 = Some o2"
    and k: "key_object L 2 o1" "key_object L 2 o2" and ks: "list_all (heap_key L K h) ks"
  shows "\<exists>h'. dict_encode_object_key_compare L K h a1 a2 = Inr (h', object_text o1 = object_text o2) \<and> cells h' = cells h \<and>
     find (keys_equal L K h a1) (filter (\<lambda>x. key_hash L K h x = key_hash L K h a1) ks) = find (keys_equal L K h a1) ks"
proof -
  have "heap_key L K h a1" using L h k unfolding heap_key_def by blast
  from ek.bucket_search [OF this ks] encoded_key_run [OF L h k] show ?thesis by blast
qed

section \<open>Witness\<close>

text \<open>A decoder with the documented behaviour, and a heap with the string \<open>7\<close> and the integer 7.\<close>

definition decode_ref :: "obj_heap \<Rightarrow> nat \<Rightarrow> (obj_heap \<times> nat) res" where
  "decode_ref h a = res_bind (obj_get h a) (\<lambda>obj. case ptr obj of
      Ptr_bytes s \<Rightarrow> Inr (obj_put h a (Some (obj\<lparr>refcount := refcount obj + 1\<rparr>)), a)
    | Ptr_long n \<Rightarrow> Inr (obj_alloc h (string_object_new latte_c_ref (dec n)))
    | _ \<Rightarrow> Inl (Panic ''Unknown encoding type''))"

definition key_lib_ref :: key_lib where
  "key_lib_ref = \<lparr>dict_gen_hash_function = (\<lambda>s. of_nat (length s)), dict_sds_key_compare = (=), get_decode_object = decode_ref\<rparr>"

definition two_keys :: obj_heap where
  "two_keys = \<lparr>cells = [0 \<mapsto> mk_string_obj ''7'', 1 \<mapsto> (mk_string_obj [])\<lparr>encoding := OBJ_ENCODING_INT, ptr := Ptr_long 7\<rparr>], next_addr = 2\<rparr>"

lemma key_laws_ref: "key_laws latte_c_ref key_lib_ref"
  by (auto simp: key_laws_def key_lib_ref_def decode_ref_def string_obj_def obj_get_def)

theorem encoded_key_contract_witness:
  "(\<exists>h'. dict_encode_object_key_compare latte_c_ref key_lib_ref two_keys 0 1 = Inr (h', True) \<and> cells h' = cells two_keys) \<and>
   find (keys_equal latte_c_ref key_lib_ref two_keys 0)
     (filter (\<lambda>x. key_hash latte_c_ref key_lib_ref two_keys x = key_hash latte_c_ref key_lib_ref two_keys 0) [1]) =
   find (keys_equal latte_c_ref key_lib_ref two_keys 0) [1]"
proof -
  let ?o1 = "mk_string_obj ''7''" and ?o2 = "(mk_string_obj [])\<lparr>encoding := OBJ_ENCODING_INT, ptr := Ptr_long 7\<rparr>"
  have h: "heap_wf two_keys" "cells two_keys 0 = Some ?o1" "cells two_keys 1 = Some ?o2"
    by (simp_all add: two_keys_def heap_wf_def)
  have k: "key_object latte_c_ref 2 ?o1" "key_object latte_c_ref 2 ?o2"
    by (simp_all add: key_object_def string_obj_def mk_string_obj_def latte_c_ref_def)
  have t: "object_text ?o1 = object_text ?o2"
    by (simp add: object_text_def mk_string_obj_def) code_simp
  have "list_all (heap_key latte_c_ref key_lib_ref two_keys) [1]"
    using h k unfolding heap_key_def by (simp add: object_laws_ref number_laws_ref key_laws_ref)
  from encoded_key_contract [OF object_laws_ref number_laws_ref key_laws_ref h k this] show ?thesis unfolding t by auto
qed

end
