(* ===== verification/Dict_Types.thy ===== *)
theory Dict_Types
  imports Key_Types
begin

text \<open>
  The tables of functions that the program gives its dictionaries (\<open>dict_func_t\<close> in \<open>src/redis/db.c\<close>, \<open>src/redis/module.c\<close>, \<open>src/redis/server.c\<close>,
  \<open>src/commands/command_manager.c\<close> and \<open>src/experiment/metric.c\<close>), and the two functions among them that the program defines itself for plain C strings.
  The two tables of the key-value stores are in \<open>Kv_Store\<close>.
\<close>

section \<open>The tables\<close>

definition key_list_dict_type :: dict_func where
  "key_list_dict_type =
     \<lparr>hash_function = Some Dict_object_hash, key_dup = None, val_dup = None, key_compare = Some Dict_object_key_compare, key_destructor = Some Dict_object_destructor,
      val_destructor = Some Dict_list_destructor, expand_allowed = None, metadata_bytes = None\<rparr>"

definition object_key_pointer_value_dict_type :: dict_func where
  "object_key_pointer_value_dict_type =
     \<lparr>hash_function = Some Dict_encode_object_hash, key_dup = None, val_dup = None, key_compare = Some Dict_encode_object_key_compare,
      key_destructor = Some Dict_object_destructor, val_destructor = None, expand_allowed = None, metadata_bytes = None\<rparr>"

definition module_api_dict_type :: dict_func where
  "module_api_dict_type =
     \<lparr>hash_function = Some Dict_cstring_key_hash, key_dup = None, val_dup = None, key_compare = Some Dict_cstring_key_compare, key_destructor = None,
      val_destructor = None, expand_allowed = None, metadata_bytes = None\<rparr>"

definition modules_dict_type :: dict_func where
  "modules_dict_type =
     \<lparr>hash_function = Some Dict_sds_case_hash, key_dup = None, val_dup = None, key_compare = Some Dict_sds_key_case_compare, key_destructor = Some Dict_sds_destructor,
      val_destructor = None, expand_allowed = None, metadata_bytes = None\<rparr>"

definition command_table_dict_type :: dict_func where
  "command_table_dict_type =
     \<lparr>hash_function = Some Dict_sds_case_hash, key_dup = None, val_dup = None, key_compare = Some Dict_sds_key_case_compare, key_destructor = Some Dict_sds_destructor,
      val_destructor = None, expand_allowed = None, metadata_bytes = None\<rparr>"

definition metric_dict_type :: dict_func where
  "metric_dict_type =
     \<lparr>hash_function = Some Dict_char_hash, key_dup = None, val_dup = None, key_compare = Some Dict_char_key_compare, key_destructor = Some Dict_sds_destructor,
      val_destructor = Some Dict_delete_metric_entry, expand_allowed = None, metadata_bytes = None\<rparr>"

section \<open>Keys that are strings\<close>

definition dict_cstring_key_hash :: "key_lib \<Rightarrow> string \<Rightarrow> 64 word" where
  "dict_cstring_key_hash K key = dict_gen_hash_function K (c_string key)"

definition dict_cstring_key_compare :: "string \<Rightarrow> string \<Rightarrow> bool" where
  "dict_cstring_key_compare key1 key2 \<longleftrightarrow> c_string key1 = c_string key2"

interpretation cstring: hashed_keys "\<lambda>_. True" dict_cstring_key_compare "dict_cstring_key_hash K" for K
  by unfold_locales (simp_all add: dict_cstring_key_compare_def dict_cstring_key_hash_def)

text \<open>
  The dictionary of the module API brings these two together, and they agree: a search in the bucket of a key finds what a search through all keys would. The hashes and
  comparisons that the other tables name for strings are functions of the library, whose agreement is part of what \<open>dict_laws\<close> says of a dictionary; those for objects are in
  \<open>Key_Types\<close>.
\<close>

lemma module_api_table_agrees:
  "hash_function module_api_dict_type = Some Dict_cstring_key_hash \<and> key_compare module_api_dict_type = Some Dict_cstring_key_compare \<and>
   find (dict_cstring_key_compare k) (filter (\<lambda>x. dict_cstring_key_hash K x = dict_cstring_key_hash K k) ks) = find (dict_cstring_key_compare k) ks"
proof -
  have "list_all (\<lambda>_. True) ks" by (induction ks) simp_all
  then show ?thesis using cstring.bucket_search [OF TrueI] by (simp add: module_api_dict_type_def)
qed

end
