(* ===== verification/Expire.thy ===== *)
theory Expire
  imports Server
begin

text \<open>
  The cycle of \<open>src/redis/expire.c\<close> that is to look for expired keys in the background, as far as it is written: how much effort it makes,
  when it runs at all, and in which order it goes through the databases. The body that would expire keys is missing, and the file is not part of
  the build, because it uses names that nothing declares; those are fields of \<open>expire_env\<close>.
\<close>

section \<open>The cycle\<close>

definition ACTIVE_EXPIRE_CYCLE_KEYS_PER_LOOP :: "64 word" where "ACTIVE_EXPIRE_CYCLE_KEYS_PER_LOOP = 20"
definition ACTIVE_EXPIRE_CYCLE_FAST_DURATION :: "64 word" where "ACTIVE_EXPIRE_CYCLE_FAST_DURATION = 1000"
definition ACTIVE_EXPIRE_CYCLE_SLOW_TIME_PERC :: "64 word" where "ACTIVE_EXPIRE_CYCLE_SLOW_TIME_PERC = 25"
definition ACTIVE_EXPIRE_CYCLE_ACCEPTABLE_STALE :: "64 word" where "ACTIVE_EXPIRE_CYCLE_ACCEPTABLE_STALE = 10"

text \<open>
  What the function takes from elsewhere: the effort, the pause switch, the comparison with the share of stale keys, the constants of the
  caller, the cycle for hash fields and the size of a table of deadlines.
\<close>

record expire_env =
  active_expire_effort :: int
  paused_expire :: bool
  stale_perc_below :: "64 word \<Rightarrow> bool"
  CYCLE_FAST :: int
  CRON_DBS_PER_CALL :: int
  hash_field_cycle :: "int \<Rightarrow> redis_db list \<Rightarrow> redis_db list"
  expires_size :: "redis_db \<Rightarrow> nat"

text \<open>The variables that keep their value from call to call.\<close>

record expire_statics =
  current_db :: "32 word"
  time_limit_exit :: int
  last_fast_cycle :: int

definition effort :: "expire_env \<Rightarrow> 64 word" where
  "effort E = word_of_int (active_expire_effort E - 1)"

definition config_keys_per_loop :: "expire_env \<Rightarrow> 64 word" where
  "config_keys_per_loop E = ACTIVE_EXPIRE_CYCLE_KEYS_PER_LOOP + ACTIVE_EXPIRE_CYCLE_KEYS_PER_LOOP div 4 * effort E"

definition config_cycle_fast_duration :: "expire_env \<Rightarrow> 64 word" where
  "config_cycle_fast_duration E = ACTIVE_EXPIRE_CYCLE_FAST_DURATION + ACTIVE_EXPIRE_CYCLE_FAST_DURATION div 4 * effort E"

definition config_cycle_slow_time_perc :: "expire_env \<Rightarrow> 64 word" where
  "config_cycle_slow_time_perc E = ACTIVE_EXPIRE_CYCLE_SLOW_TIME_PERC + 2 * effort E"

definition config_cycle_acceptable_stale :: "expire_env \<Rightarrow> 64 word" where
  "config_cycle_acceptable_stale E = ACTIVE_EXPIRE_CYCLE_ACCEPTABLE_STALE - effort E"

text \<open>The microseconds of a cycle. The quotient is unsigned, and a frequency of 0 is a division by zero.\<close>

definition cycle_time_limit :: "expire_env \<Rightarrow> int \<Rightarrow> int \<Rightarrow> int res" where
  "cycle_time_limit E hertz type =
     (if hertz = 0 then Inl Div_by_zero
      else let t = sint (config_cycle_slow_time_perc E * 1000000 div word_of_int hertz div 100);
               t = (if t \<le> 0 then 1 else t)
           in Inr (if type = CYCLE_FAST E then sint (config_cycle_fast_duration E) else t))"

text \<open>
  The loop over the databases: \<open>n\<close> turns are left of \<open>num\<close>, \<open>per\<close> databases with deadlines are to be done; the databases it has taken
  up are listed in order.
\<close>

fun expire_dbs ::
  "expire_env \<Rightarrow> int \<Rightarrow> nat \<Rightarrow> int \<Rightarrow> nat \<Rightarrow> int \<Rightarrow> 32 word \<Rightarrow> redis_db list \<Rightarrow> (32 word \<times> redis_db list \<times> nat list) res" where
  "expire_dbs E type num per 0 performed cur ds = Inr (cur, ds, [])"
| "expire_dbs E type num per (Suc n) performed cur ds =
     (if performed < per then
        let k = unat cur mod num;
            ds = hash_field_cycle E type ds
        in if length ds \<le> k then Inl (Out_of_bounds ''dbs'')
           else res_bind (expire_dbs E type num per n (if expires_size E (ds ! k) \<noteq> 0 then performed + 1 else performed) (cur + 1) ds)
                  (\<lambda>(cur, ds, ks). Inr (cur, ds, k # ks))
      else Inr (cur, ds, []))"

text \<open>
  The whole function, called at time \<open>start\<close> on a server with \<open>dbnum\<close> databases. The limit of time is computed and compared with nothing.
\<close>

definition active_expire_cycle ::
  "expire_env \<Rightarrow> int \<Rightarrow> int \<Rightarrow> int \<Rightarrow> int \<Rightarrow> redis_db list \<Rightarrow> expire_statics \<Rightarrow> (expire_statics \<times> redis_db list \<times> nat list) res" where
  "active_expire_cycle E start hertz dbnum type ds st =
     (if paused_expire E then Inr (st, ds, [])
      else if type = CYCLE_FAST E \<and> time_limit_exit st = 0 \<and> stale_perc_below E (config_cycle_acceptable_stale E) then Inr (st, ds, [])
      else if type = CYCLE_FAST E \<and> start < wrap64 (last_fast_cycle st + wrap64 (sint (config_cycle_fast_duration E) * 2)) then Inr (st, ds, [])
      else
        let st = (if type = CYCLE_FAST E then st\<lparr>last_fast_cycle := start\<rparr> else st);
            per = (if dbnum < CRON_DBS_PER_CALL E \<or> time_limit_exit st \<noteq> 0 then dbnum else CRON_DBS_PER_CALL E)
        in res_bind (cycle_time_limit E hertz type) (\<lambda>_.
           res_bind (expire_dbs E type (nat dbnum) per (nat dbnum) 0 (current_db st) ds) (\<lambda>(cur, ds, ks).
           Inr (st\<lparr>current_db := cur, time_limit_exit := 0\<rparr>, ds, ks))))"

section \<open>Behaviour\<close>

text \<open>The hash field cycle keeps the databases there are.\<close>

definition hash_laws :: "expire_env \<Rightarrow> bool" where
  "hash_laws E \<longleftrightarrow> (\<forall>type ds. length (hash_field_cycle E type ds) = length ds)"

lemma expire_dbs_spec:
  assumes "hash_laws E" "0 < num" "num \<le> length ds"
  shows "\<exists>m ds'. m \<le> n \<and> length ds' = length ds \<and>
    expire_dbs E type num per n performed cur ds = Inr (cur + of_nat m, ds', map (\<lambda>i. unat (cur + of_nat i) mod num) [0..<m]) \<and>
    (m = n \<or> per - performed \<le> int m)"
  using assms(3)
proof (induction n arbitrary: performed cur ds)
  case (Suc n)
  show ?case
  proof (cases "performed < per")
    case True
    let ?ds = "hash_field_cycle E type ds" and ?k = "unat cur mod num"
    let ?p = "if expires_size E (?ds ! ?k) \<noteq> 0 then performed + 1 else performed"
    have len: "length ?ds = length ds" using assms(1) by (simp add: hash_laws_def)
    have k: "\<not> length ?ds \<le> ?k" using Suc.prems assms(2) len mod_less_divisor [OF assms(2), of "unat cur"] by linarith
    obtain m ds' where m: "m \<le> n" "length ds' = length ds"
      "expire_dbs E type num per n ?p (cur + 1) ?ds = Inr (cur + 1 + of_nat m, ds', map (\<lambda>i. unat (cur + 1 + of_nat i) mod num) [0..<m])"
      "m = n \<or> per - ?p \<le> int m"
      using Suc.IH [of ?ds ?p "cur + 1"] Suc.prems len by auto
    have "expire_dbs E type num per (Suc n) performed cur ds =
        Inr (cur + of_nat (Suc m), ds', map (\<lambda>i. unat (cur + of_nat i) mod num) [0..<Suc m])"
      using True k m(3) unfolding upt_conv_Cons [OF zero_less_Suc] map_Suc_upt [symmetric]
      by (simp add: Let_def add.assoc [symmetric] comp_def del: upt_Suc)
    moreover have "Suc m = Suc n \<or> per - performed \<le> int (Suc m)" using m(4) by (auto split: if_splits)
    ultimately show ?thesis using m(1,2) by (intro exI [of _ "Suc m"] exI [of _ ds']) simp
  qed (auto intro!: exI [of _ 0])
qed (auto intro!: exI [of _ 0])

text \<open>Round robin: the counter wraps at 32 bits, which does not disturb the order when the number of databases divides that.\<close>

definition in_turn :: "nat \<Rightarrow> nat \<Rightarrow> nat \<Rightarrow> nat list" where
  "in_turn num c m = map (\<lambda>i. (c + i) mod num) [0..<m]"

lemma in_turn_append: "in_turn num c m @ in_turn num (c + m) m' = in_turn num c (m + m')"
proof -
  have "in_turn num (c + m) m' = map (\<lambda>i. (c + i) mod num) [m..<m + m']"
    unfolding in_turn_def by (rule nth_equalityI) (simp_all add: add.assoc)
  then show ?thesis by (simp add: in_turn_def upt_add_eq_append [of 0 m m'])
qed

lemma in_turn_mod: "in_turn num (c mod num) m = in_turn num c m"
  by (simp add: in_turn_def mod_add_left_eq)

lemma set_in_turn:
  assumes "0 < num" "num \<le> m"
  shows "set (in_turn num c m) = {..<num}"
proof -
  have "k \<in> (\<lambda>i. (c + i) mod num) ` {..<m}" if k: "k < num" for k
  proof
    let ?i = "(num - c mod num + k) mod num"
    have "(c + ?i) mod num = (c mod num + (num - c mod num) + k) mod num" by (simp add: mod_simps add.assoc)
    then show "k = (c + ?i) mod num" using k assms(1) by (simp add: less_imp_le)
    show "?i \<in> {..<m}" using assms mod_less_divisor [OF assms(1)] by (metis lessThan_iff less_le_trans)
  qed
  then show ?thesis using assms(1) by (auto simp: in_turn_def atLeast0LessThan)
qed

lemma unat_plus_mod:
  assumes "num dvd 2 ^ 32"
  shows "unat ((cur :: 32 word) + of_nat i) mod num = (unat cur + i) mod num"
proof -
  have "unat (cur + of_nat i) = (unat cur + i) mod 2 ^ 32" by (simp add: unat_word_ariths unsigned_of_nat take_bit_eq_mod mod_simps)
  then show ?thesis using assms by (simp add: mod_mod_cancel)
qed

lemma slow_cycle_spec:
  assumes E: "hash_laws E" "\<not> paused_expire E" "type \<noteq> CYCLE_FAST E" "1 \<le> CRON_DBS_PER_CALL E"
    and n: "hertz \<noteq> 0" "0 < dbnum" "nat dbnum \<le> length ds" "nat dbnum dvd 2 ^ 32"
  obtains m ds' st' where "active_expire_cycle E start hertz dbnum type ds st = Inr (st', ds', in_turn (nat dbnum) (unat (current_db st)) m)"
    "unat (current_db st') mod nat dbnum = (unat (current_db st) + m) mod nat dbnum" "0 < m" "m \<le> nat dbnum" "length ds' = length ds"
proof -
  define per where "per = (if dbnum < CRON_DBS_PER_CALL E \<or> time_limit_exit st \<noteq> 0 then dbnum else CRON_DBS_PER_CALL E)"
  have per: "0 < per" using E(4) n(2) by (simp add: per_def)
  have num: "0 < nat dbnum" using n(2) by simp
  obtain m ds' where m: "m \<le> nat dbnum" "length ds' = length ds" "m = nat dbnum \<or> per - 0 \<le> int m"
    "expire_dbs E type (nat dbnum) per (nat dbnum) 0 (current_db st) ds =
      Inr (current_db st + of_nat m, ds', map (\<lambda>i. unat (current_db st + of_nat i) mod nat dbnum) [0..<m])"
    using expire_dbs_spec [OF E(1) num n(3)] by blast
  obtain t where t: "cycle_time_limit E hertz type = Inr t" using n(1) by (auto simp: cycle_time_limit_def Let_def)
  have "active_expire_cycle E start hertz dbnum type ds st =
      Inr (st\<lparr>current_db := current_db st + of_nat m, time_limit_exit := 0\<rparr>, ds', in_turn (nat dbnum) (unat (current_db st)) m)"
    using E(2,3) m(4) t by (simp add: active_expire_cycle_def Let_def per_def in_turn_def unat_plus_mod [OF n(4)])
  moreover have "0 < m" using m(3) per num by (cases m) auto
  ultimately show thesis using m(1,2) unat_plus_mod [OF n(4)]
    by (intro that [of "st\<lparr>current_db := current_db st + of_nat m, time_limit_exit := 0\<rparr>" ds' m]) simp_all
qed

fun expire_cycles ::
  "expire_env \<Rightarrow> int \<Rightarrow> int \<Rightarrow> int \<Rightarrow> int list \<Rightarrow> redis_db list \<Rightarrow> expire_statics \<Rightarrow> (expire_statics \<times> redis_db list \<times> nat list) res" where
  "expire_cycles E hertz dbnum type [] ds st = Inr (st, ds, [])"
| "expire_cycles E hertz dbnum type (start # starts) ds st =
     res_bind (active_expire_cycle E start hertz dbnum type ds st) (\<lambda>(st, ds, ks).
     res_bind (expire_cycles E hertz dbnum type starts ds st) (\<lambda>(st, ds, ks'). Inr (st, ds, ks @ ks')))"

lemma expire_cycles_in_turn:
  assumes E: "hash_laws E" "\<not> paused_expire E" "type \<noteq> CYCLE_FAST E" "1 \<le> CRON_DBS_PER_CALL E"
    and n: "hertz \<noteq> 0" "0 < dbnum" "nat dbnum \<le> length ds" "nat dbnum dvd 2 ^ 32"
  shows "\<exists>st' ds' m. expire_cycles E hertz dbnum type starts ds st = Inr (st', ds', in_turn (nat dbnum) (unat (current_db st)) m) \<and>
    length starts \<le> m \<and> m \<le> length starts * nat dbnum"
  using n(3)
proof (induction starts arbitrary: ds st)
  case (Cons start starts)
  obtain m ds1 st1 where c: "active_expire_cycle E start hertz dbnum type ds st = Inr (st1, ds1, in_turn (nat dbnum) (unat (current_db st)) m)"
    "unat (current_db st1) mod nat dbnum = (unat (current_db st) + m) mod nat dbnum" "0 < m" "m \<le> nat dbnum" "length ds1 = length ds"
    by (rule slow_cycle_spec [OF E n(1,2) Cons.prems n(4)])
  obtain st' ds' m' where r: "expire_cycles E hertz dbnum type starts ds1 st1 = Inr (st', ds', in_turn (nat dbnum) (unat (current_db st1)) m')"
    "length starts \<le> m'" "m' \<le> length starts * nat dbnum"
    using Cons.IH [of ds1 st1] Cons.prems c(5) by auto
  have "in_turn (nat dbnum) (unat (current_db st1)) m' = in_turn (nat dbnum) (unat (current_db st) + m) m'"
    using c(2) by (metis in_turn_mod)
  then have "expire_cycles E hertz dbnum type (start # starts) ds st = Inr (st', ds', in_turn (nat dbnum) (unat (current_db st)) (m + m'))"
    using c(1) r(1) in_turn_append by simp
  then show ?case using c(3,4) r(2,3) by (intro exI [of _ st'] exI [of _ ds'] exI [of _ "m + m'"]) simp
qed (simp add: in_turn_def)

text \<open>Whatever the times: the databases are those that the cycle for hash fields leaves.\<close>

lemma expire_dbs_idle: "(\<forall>t ds. hash_field_cycle E t ds = ds) \<Longrightarrow> expire_dbs E type num per n performed cur ds = Inr (cur', ds', ks) \<Longrightarrow> ds' = ds"
proof (induction n arbitrary: performed cur ks)
  case (Suc n)
  then show ?case by (auto simp: Let_def res_simps split: if_split_asm)
qed simp

section \<open>Properties\<close>

text \<open>
  C27. The background cycle is fair: as many slow cycles as there are databases take up every database, in turn and without leaving one out, wherever the last
  call stopped and however often the counter has wrapped, and together they take up no more than that number squared. It holds while expiration is not paused, with a frequency other than 0, at least one database per call and
  a number of databases that divides the range of the counter, as the default of 16 does.
\<close>

theorem expire_cycles_fair:
  assumes "hash_laws E" "\<not> paused_expire E" "type \<noteq> CYCLE_FAST E" "1 \<le> CRON_DBS_PER_CALL E"
    "hertz \<noteq> 0" "0 < dbnum" "nat dbnum \<le> length ds" "nat dbnum dvd 2 ^ 32" "length starts = nat dbnum"
  shows "\<exists>st' ds' ks. expire_cycles E hertz dbnum type starts ds st = Inr (st', ds', ks) \<and> set ks = {..<nat dbnum} \<and>
    (\<forall>i<length ks. ks ! i = (unat (current_db st) + i) mod nat dbnum) \<and> length ks \<le> nat dbnum * nat dbnum"
proof -
  obtain st' ds' m where m: "expire_cycles E hertz dbnum type starts ds st = Inr (st', ds', in_turn (nat dbnum) (unat (current_db st)) m)"
    "length starts \<le> m" "m \<le> length starts * nat dbnum"
    using expire_cycles_in_turn [OF assms(1-8)] by blast
  have "set (in_turn (nat dbnum) (unat (current_db st)) m) = {..<nat dbnum}" using set_in_turn [of "nat dbnum" m] assms(6,9) m(2) by simp
  then show ?thesis using m assms(9) by (simp add: in_turn_def)
qed

section \<open>Witnesses\<close>

definition expire_env_ex :: expire_env where
  "expire_env_ex = \<lparr>active_expire_effort = 1, paused_expire = False, stale_perc_below = (\<lambda>_. True), CYCLE_FAST = 1, CRON_DBS_PER_CALL = 16,
     hash_field_cycle = (\<lambda>_ ds. ds), expires_size = (\<lambda>_. 0)\<rparr>"

theorem expire_cycles_fair_witness:
  "\<exists>st' ds' ks. expire_cycles expire_env_ex 10 2 0 [7, 9] [db_ex2, db_ex2] \<lparr>current_db = 5, time_limit_exit = 0, last_fast_cycle = 0\<rparr> = Inr (st', ds', ks) \<and>
     set ks = {..<nat 2} \<and> (\<forall>i<length ks. ks ! i = (unat (5 :: 32 word) + i) mod nat 2) \<and> length ks \<le> nat 2 * nat 2"
  using expire_cycles_fair [of expire_env_ex 0 10 2 "[db_ex2, db_ex2]" "[7, 9]" "\<lparr>current_db = 5, time_limit_exit = 0, last_fast_cycle = 0\<rparr>"]
  by (simp add: expire_env_ex_def hash_laws_def del: expire_cycles.simps)

end
