(* ===== verification/Benchmark.thy ===== *)
theory Benchmark
  imports Latte_C
begin

text \<open>
  The benchmark client of \<open>src/benchmark.c\<close>: its configuration, the threads with their event loops, the client with its write handler, and the
  program. Event loops, threads and sockets belong to the library and the system: every call to them is appended to a trace, and what such a call returns is a
  parameter that may depend on the trace. The file is not part of the build.
\<close>

section \<open>State\<close>

datatype sys_call =
    New_loop
  | Delete_loop nat
  | Time_event "nat option"
  | Watch_writable "nat option" int
  | Watch_readable "nat option" int
  | Unwatch_writable "nat option" int
  | Run_loop "nat option"
  | Start_thread nat
  | Join_thread nat
  | Write_out int string
  | Print_error string

text \<open>A thread keeps its number and its loop; \<open>None\<close> is a null pointer.\<close>

record bench_thread =
  thread_index :: int
  thread_el :: "nat option"

text \<open>
  A client. The two functions it calls are pointers: \<open>None\<close> when the memory holds no function there.
\<close>

record bench_client =
  ctx_err :: int
  ctx_fd :: int
  out_buf :: string
  thread_id :: int
  client_slots_update :: int
  written :: int
  req_start :: int
  latency :: int
  create_content :: "(string \<Rightarrow> string) option"
  write_context :: "(sys_call list \<Rightarrow> int \<Rightarrow> string \<Rightarrow> int) option"

record bench_config =
  num_threads :: nat
  main_el :: "nat option"
  hostip :: string
  hostport :: int
  threads :: "bench_thread option list option"
  bench_clients :: "bench_client list"
  liveclients :: int
  slots_last_update :: int
  trace :: "sys_call list"

text \<open>What the library and the system answer, and what uninitialised memory holds.\<close>

record bench_lib =
  new_loop :: "sys_call list \<Rightarrow> nat option"
  thread_memory :: "sys_call list \<Rightarrow> bool"
  thread_fails :: "sys_call list \<Rightarrow> bool"
  client_memory :: bench_client
  error_is_epipe :: bool

definition call_out :: "sys_call \<Rightarrow> bench_config \<Rightarrow> bench_config" where
  "call_out e cfg = cfg\<lparr>trace := trace cfg @ [e]\<rparr>"

section \<open>Threads\<close>

definition freeBenchmarkThread :: "bench_thread \<Rightarrow> bench_config \<Rightarrow> bench_config" where
  "freeBenchmarkThread t cfg = (case thread_el t of None \<Rightarrow> cfg | Some l \<Rightarrow> call_out (Delete_loop l) cfg)"

fun free_threads :: "nat \<Rightarrow> nat \<Rightarrow> bench_config \<Rightarrow> bench_config res" where
  "free_threads i 0 cfg = Inr cfg"
| "free_threads i (Suc n) cfg =
     (case threads cfg of
        None \<Rightarrow> Inl (Null_deref ''config.threads'')
      | Some ts \<Rightarrow>
          if length ts \<le> i then Inl (Out_of_bounds ''config.threads'')
          else free_threads (Suc i) n (case ts ! i of None \<Rightarrow> cfg | Some t \<Rightarrow> freeBenchmarkThread t cfg))"

definition freeBenchmarkThreads :: "bench_config \<Rightarrow> bench_config res" where
  "freeBenchmarkThreads cfg = res_bind (free_threads 0 (num_threads cfg) cfg) (\<lambda>cfg. Inr (cfg\<lparr>threads := None\<rparr>))"

definition createBenchmarkThread :: "bench_lib \<Rightarrow> nat \<Rightarrow> bench_config \<Rightarrow> bench_thread option \<times> bench_config" where
  "createBenchmarkThread B i cfg =
     (if \<not> thread_memory B (trace cfg) then (None, cfg)
      else let l = new_loop B (trace cfg) in (Some \<lparr>thread_index = int i, thread_el = l\<rparr>, call_out (Time_event l) (call_out New_loop cfg)))"

fun create_threads :: "bench_lib \<Rightarrow> nat \<Rightarrow> nat \<Rightarrow> bench_config \<Rightarrow> bench_config" where
  "create_threads B i 0 cfg = cfg"
| "create_threads B i (Suc n) cfg =
     (let (t, cfg) = createBenchmarkThread B i cfg
      in create_threads B (Suc i) n (cfg\<lparr>threads := map_option (\<lambda>ts. ts @ [t]) (threads cfg)\<rparr>))"

definition initBenchmarkThreads :: "bench_lib \<Rightarrow> bench_config \<Rightarrow> bench_config res" where
  "initBenchmarkThreads B cfg =
     res_bind (if threads cfg \<noteq> None then freeBenchmarkThreads cfg else Inr cfg) (\<lambda>cfg.
     Inr (create_threads B 0 (num_threads cfg) (cfg\<lparr>threads := Some []\<rparr>)))"

text \<open>\<open>Inl\<close> a failed access, \<open>Inr (Inl c)\<close> the end of the program with exit code \<open>c\<close>.\<close>

type_synonym 'a run = "(int + 'a) res"

definition run_bind :: "'a run \<Rightarrow> ('a \<Rightarrow> 'b run) \<Rightarrow> 'b run" where
  "run_bind m f = res_bind m (\<lambda>r. case r of Inl c \<Rightarrow> Inr (Inl c) | Inr x \<Rightarrow> f x)"

definition thread_at :: "bench_config \<Rightarrow> nat \<Rightarrow> bench_thread res" where
  "thread_at cfg i =
     (case threads cfg of
        None \<Rightarrow> Inl (Null_deref ''config.threads'')
      | Some ts \<Rightarrow> if length ts \<le> i then Inl (Out_of_bounds ''config.threads'')
                   else (case ts ! i of None \<Rightarrow> Inl (Null_deref ''thread'') | Some t \<Rightarrow> Inr t))"

fun start_threads :: "bench_lib \<Rightarrow> nat \<Rightarrow> nat \<Rightarrow> bench_config \<Rightarrow> bench_config run" where
  "start_threads B i 0 cfg = Inr (Inr cfg)"
| "start_threads B i (Suc n) cfg =
     res_bind (thread_at cfg i) (\<lambda>t.
     if thread_fails B (trace cfg) then Inr (Inl 1)
     else start_threads B (Suc i) n (call_out (Start_thread i) cfg))"

fun join_threads :: "nat \<Rightarrow> nat \<Rightarrow> bench_config \<Rightarrow> bench_config res" where
  "join_threads i 0 cfg = Inr cfg"
| "join_threads i (Suc n) cfg = res_bind (thread_at cfg i) (\<lambda>t. join_threads (Suc i) n (call_out (Join_thread i) cfg))"

definition startBenchmarkThreads :: "bench_lib \<Rightarrow> bench_config \<Rightarrow> bench_config run" where
  "startBenchmarkThreads B cfg =
     run_bind (start_threads B 0 (num_threads cfg) cfg) (\<lambda>cfg. map_sum id Inr (join_threads 0 (num_threads cfg) cfg))"

text \<open>The body of a thread.\<close>

definition execBenchmarkThread :: "bench_thread \<Rightarrow> bench_config \<Rightarrow> bench_config" where
  "execBenchmarkThread t cfg = call_out (Run_loop (thread_el t)) cfg"

section \<open>The client\<close>

definition client_event_loop :: "bench_config \<Rightarrow> int \<Rightarrow> nat option res" where
  "client_event_loop cfg tid =
     (if 0 \<le> tid then res_bind (thread_at cfg (nat tid)) (\<lambda>t. Inr (thread_el t)) else Inr (main_el cfg))"

text \<open>Releasing a client looks its event loop up and does nothing else.\<close>

definition freeClient :: "bench_config \<Rightarrow> bench_client \<Rightarrow> bench_config res" where
  "freeClient cfg c = res_bind (client_event_loop cfg (thread_id c)) (\<lambda>_. Inr cfg)"

text \<open>\<open>now\<close> is the time the handler reads, \<open>el\<close> the loop that calls it.\<close>

definition writeHandler :: "bench_lib \<Rightarrow> int \<Rightarrow> nat option \<Rightarrow> bench_config \<Rightarrow> bench_client \<Rightarrow> (bench_config \<times> bench_client) res" where
  "writeHandler B now el cfg c =
     res_bind
       (if written c = 0 then
          (case create_content c of
             None \<Rightarrow> Inl (Null_deref ''createWriteContent'')
           | Some f \<Rightarrow> Inr (c\<lparr>out_buf := f (out_buf c), client_slots_update := slots_last_update cfg, req_start := now, latency := -1\<rparr>))
        else Inr c) (\<lambda>c.
     let writeLen = int (length (out_buf c)) - written c in
     if 0 < writeLen then
       (case write_context c of
          None \<Rightarrow> Inl (Null_deref ''writeContext'')
        | Some w \<Rightarrow>
            let bytes = drop (nat (written c)) (out_buf c);
                nwritten = w (trace cfg) (ctx_fd c) bytes;
                cfg = call_out (Write_out (ctx_fd c) bytes) cfg
            in if nwritten \<noteq> writeLen then
                 res_bind (freeClient (if \<not> error_is_epipe B then call_out (Print_error ''Error writing to the server'') cfg else cfg) c) (\<lambda>cfg. Inr (cfg, c))
               else if 0 < nwritten then Inr (cfg, c\<lparr>written := wrap32 (written c + nwritten)\<rparr>)
               else Inr (call_out (Watch_readable el (ctx_fd c)) (call_out (Unwatch_writable el (ctx_fd c)) cfg), c))
     else Inr (cfg, c))"

text \<open>
  The context comes from \<open>zmalloc\<close> and is returned as it is: nothing connects it, and its error field is what the memory held. The function pointers of the
  client are never set.
\<close>

definition createClient :: "bench_lib \<Rightarrow> int \<Rightarrow> bench_config \<Rightarrow> bench_config run" where
  "createClient B tid cfg =
     (let c = (client_memory B)\<lparr>out_buf := []\<rparr> in
      if ctx_err c \<noteq> 0 then Inr (Inl 1)
      else
        let c = c\<lparr>thread_id := tid, out_buf := [], written := 0\<rparr> in
        res_bind (client_event_loop cfg tid) (\<lambda>el.
        let cfg = call_out (Watch_writable el (ctx_fd c)) cfg;
            c = c\<lparr>client_slots_update := slots_last_update cfg\<rparr>
        in Inr (Inr (cfg\<lparr>bench_clients := bench_clients cfg @ [c], liveclients := wrap32 (liveclients cfg + 1)\<rparr>))))"

section \<open>The program\<close>

definition benchmark :: "bench_lib \<Rightarrow> bench_config \<Rightarrow> bench_config run" where
  "benchmark B cfg =
     res_bind (if num_threads cfg \<noteq> 0 then initBenchmarkThreads B cfg else Inr cfg) (\<lambda>cfg.
     run_bind (createClient B (if 0 < num_threads cfg then 0 else -1) cfg) (\<lambda>cfg.
     if num_threads cfg = 0 then Inr (Inr (call_out (Run_loop (main_el cfg)) cfg)) else startBenchmarkThreads B cfg))"

definition initConfig :: "bench_lib \<Rightarrow> bench_config \<Rightarrow> bench_config" where
  "initConfig B cfg =
     (let cfg = cfg\<lparr>num_threads := 2, bench_clients := [], hostip := ''127.0.0.1'', hostport := 6379, threads := None, liveclients := 0\<rparr>
      in (call_out New_loop cfg)\<lparr>main_el := new_loop B (trace cfg)\<rparr>)"

definition benchmark_main :: "bench_lib \<Rightarrow> bench_config \<Rightarrow> bench_config run" where
  "benchmark_main B cfg = (let cfg = initConfig B cfg in benchmark B (call_out (Time_event (main_el cfg)) cfg))"

section \<open>Behaviour\<close>

lemma call_out_simps [simp]:
  "threads (call_out e cfg) = threads cfg" "num_threads (call_out e cfg) = num_threads cfg" "trace (call_out e cfg) = trace cfg @ [e]"
  "bench_clients (call_out e cfg) = bench_clients cfg" "main_el (call_out e cfg) = main_el cfg" "slots_last_update (call_out e cfg) = slots_last_update cfg"
  "liveclients (call_out e cfg) = liveclients cfg"
  by (simp_all add: call_out_def)

text \<open>Freeing: every loop there is goes exactly once, in order.\<close>

definition loops_of :: "bench_thread option list \<Rightarrow> nat list" where
  "loops_of ts = concat (map (\<lambda>t. case Option.bind t thread_el of None \<Rightarrow> [] | Some l \<Rightarrow> [l]) ts)"

lemma free_threads_spec:
  "threads cfg = Some ts \<Longrightarrow> i + n = length ts \<Longrightarrow>
     free_threads i n cfg = Inr (cfg\<lparr>trace := trace cfg @ map Delete_loop (loops_of (drop i ts))\<rparr>)"
proof (induction n arbitrary: i cfg)
  case (Suc n)
  let ?cfg = "case ts ! i of None \<Rightarrow> cfg | Some t \<Rightarrow> freeBenchmarkThread t cfg"
  have "drop i ts = ts ! i # drop (Suc i) ts" using Suc.prems(2) by (simp add: Cons_nth_drop_Suc)
  then have "?cfg\<lparr>trace := trace ?cfg @ map Delete_loop (loops_of (drop (Suc i) ts))\<rparr> = cfg\<lparr>trace := trace cfg @ map Delete_loop (loops_of (drop i ts))\<rparr>"
    by (simp add: loops_of_def freeBenchmarkThread_def call_out_def split: option.split)
  moreover have "threads ?cfg = Some ts" using Suc.prems(1) by (simp add: freeBenchmarkThread_def split: option.split)
  ultimately show ?case using Suc.IH [of ?cfg "Suc i"] Suc.prems by simp
qed (simp add: loops_of_def)

lemma freeBenchmarkThreads_spec:
  "threads cfg = Some ts \<Longrightarrow> length ts = num_threads cfg \<Longrightarrow>
     freeBenchmarkThreads cfg = Inr (cfg\<lparr>trace := trace cfg @ map Delete_loop (loops_of ts), threads := None\<rparr>)"
  by (simp add: freeBenchmarkThreads_def free_threads_spec)

text \<open>Starting: the threads are numbered in order.\<close>

lemma create_threads_spec:
  assumes "\<forall>tr. thread_memory B tr"
  shows "threads cfg = Some ts \<Longrightarrow>
    \<exists>us tr. create_threads B i n cfg = cfg\<lparr>threads := Some (ts @ map Some us), trace := tr\<rparr> \<and> map thread_index us = map int [i..<i + n]"
proof (induction n arbitrary: i cfg ts)
  case (Suc n)
  let ?l = "new_loop B (trace cfg)"
  let ?t = "\<lparr>thread_index = int i, thread_el = ?l\<rparr>" and ?cfg = "(call_out (Time_event ?l) (call_out New_loop cfg))\<lparr>threads := Some (ts @ [Some \<lparr>thread_index = int i, thread_el = new_loop B (trace cfg)\<rparr>])\<rparr>"
  obtain us tr where u: "create_threads B (Suc i) n ?cfg = ?cfg\<lparr>threads := Some ((ts @ [Some ?t]) @ map Some us), trace := tr\<rparr>"
    "map thread_index us = map int [Suc i..<Suc i + n]"
    using Suc.IH [of ?cfg "ts @ [Some ?t]" "Suc i"] by auto
  have "create_threads B i (Suc n) cfg = cfg\<lparr>threads := Some (ts @ map Some (?t # us)), trace := tr\<rparr>"
    using u(1) assms Suc.prems by (simp add: createBenchmarkThread_def Let_def call_out_def)
  moreover have "map thread_index (?t # us) = map int [i..<i + Suc n]" using u(2) by (simp add: upt_conv_Cons del: upt_Suc)
  ultimately show ?case by blast
next
  case 0
  then show ?case by (intro exI [of _ "[]"] exI [of _ "trace cfg"]) simp
qed

lemma init_threads_spec:
  assumes "\<forall>tr. thread_memory B tr" "threads cfg = None"
  obtains us tr where "initBenchmarkThreads B cfg = Inr (cfg\<lparr>threads := Some (map Some us), trace := tr\<rparr>)" "map thread_index us = map int [0..<num_threads cfg]"
  using create_threads_spec [OF assms(1), of "cfg\<lparr>threads := Some []\<rparr>" "[]" 0 "num_threads cfg"] assms(2) by (auto simp: initBenchmarkThreads_def)

lemma start_threads_spec:
  assumes "\<forall>tr. \<not> thread_fails B tr"
  shows "threads cfg = Some (map Some us) \<Longrightarrow> i + n \<le> length us \<Longrightarrow> start_threads B i n cfg = Inr (Inr (cfg\<lparr>trace := trace cfg @ map Start_thread [i..<i + n]\<rparr>))"
proof (induction n arbitrary: i cfg)
  case (Suc n)
  then show ?case using assms by (simp add: thread_at_def call_out_def upt_conv_Cons del: upt_Suc)
qed simp

lemma join_threads_spec:
  "threads cfg = Some (map Some us) \<Longrightarrow> i + n \<le> length us \<Longrightarrow> join_threads i n cfg = Inr (cfg\<lparr>trace := trace cfg @ map Join_thread [i..<i + n]\<rparr>)"
proof (induction n arbitrary: i cfg)
  case (Suc n)
  then show ?case by (simp add: thread_at_def call_out_def upt_conv_Cons del: upt_Suc)
qed simp

lemma startBenchmarkThreads_spec:
  assumes "\<forall>tr. \<not> thread_fails B tr" "threads cfg = Some (map Some us)" "length us = num_threads cfg"
  shows "startBenchmarkThreads B cfg =
    Inr (Inr (cfg\<lparr>trace := trace cfg @ map Start_thread [0..<num_threads cfg] @ map Join_thread [0..<num_threads cfg]\<rparr>))"
  using start_threads_spec [OF assms(1,2), of 0 "num_threads cfg"] assms(2,3)
    join_threads_spec [of "cfg\<lparr>trace := trace cfg @ map Start_thread [0..<num_threads cfg]\<rparr>" us 0 "num_threads cfg"]
  by (simp add: startBenchmarkThreads_def run_bind_def)

text \<open>A whole run: two threads are started and joined, with one client that nothing but its memory describes.\<close>

lemma benchmark_main_spec:
  assumes "\<forall>tr. thread_memory B tr" "\<forall>tr. \<not> thread_fails B tr" "ctx_err (client_memory B) = 0"
  shows "\<exists>cfg' c. benchmark_main B cfg = Inr (Inr cfg') \<and> bench_clients cfg' = [c] \<and> liveclients cfg' = 1 \<and>
    (\<exists>tr. trace cfg' = tr @ [Start_thread 0, Start_thread 1, Join_thread 0, Join_thread 1]) \<and>
    c = (client_memory B)\<lparr>out_buf := [], thread_id := 0, written := 0, client_slots_update := slots_last_update cfg\<rparr>"
proof -
  define cfg0 where "cfg0 = call_out (Time_event (main_el (initConfig B cfg))) (initConfig B cfg)"
  have c0: "num_threads cfg0 = 2" "threads cfg0 = None" "bench_clients cfg0 = []" "liveclients cfg0 = 0" "slots_last_update cfg0 = slots_last_update cfg"
    by (simp_all add: cfg0_def initConfig_def Let_def)
  obtain us tr where i: "initBenchmarkThreads B cfg0 = Inr (cfg0\<lparr>threads := Some (map Some us), trace := tr\<rparr>)" "map thread_index us = map int [0..<num_threads cfg0]"
    by (rule init_threads_spec [OF assms(1) c0(2)])
  have us: "length us = 2" using arg_cong [OF i(2), of length] c0(1) by simp
  let ?cfg1 = "cfg0\<lparr>threads := Some (map Some us), trace := tr\<rparr>"
  obtain el where el: "client_event_loop ?cfg1 0 = Inr el" using us by (simp add: client_event_loop_def thread_at_def)
  let ?c = "(client_memory B)\<lparr>out_buf := [], thread_id := 0, written := 0, client_slots_update := slots_last_update cfg\<rparr>"
  define cfg2 where "cfg2 = (call_out (Watch_writable el (ctx_fd ?c)) ?cfg1)\<lparr>bench_clients := [?c], liveclients := 1\<rparr>"
  have two: "createClient B 0 ?cfg1 = Inr (Inr cfg2)"
    using assms(3) el c0 by (simp add: createClient_def Let_def cfg2_def call_out_def wrap32_def)
  have t: "threads cfg2 = Some (map Some us)" "num_threads cfg2 = 2" by (simp_all add: cfg2_def c0)
  let ?tr = "trace cfg2 @ [Start_thread 0, Start_thread 1, Join_thread 0, Join_thread 1]"
  have "startBenchmarkThreads B cfg2 = Inr (Inr (cfg2\<lparr>trace := ?tr\<rparr>))"
    using startBenchmarkThreads_spec [OF assms(2) t(1)] t(2) us by (simp add: upt_conv_Cons numeral_2_eq_2)
  then have "benchmark_main B cfg = Inr (Inr (cfg2\<lparr>trace := ?tr\<rparr>))"
    using i(1) two t(2) c0(1) unfolding benchmark_main_def Let_def cfg0_def [symmetric] benchmark_def by (simp add: run_bind_def)
  then show ?thesis by (simp add: cfg2_def)
qed

text \<open>
  The write handler for a client whose two functions are set, which nothing in the program does: with a socket that takes the whole request the first call writes it, and every later
  call leaves the client and the event loops as they are. The branch that would wait for the reply is never taken.
\<close>

lemma write_handler_once:
  assumes "create_content c = Some f" "write_context c = Some w" "written c = 0" "f (out_buf c) \<noteq> []" "int (length (f (out_buf c))) < 2 ^ 31"
    "w (trace cfg) (ctx_fd c) (f (out_buf c)) = int (length (f (out_buf c)))"
  shows "\<exists>c'. writeHandler B now el cfg c = Inr (call_out (Write_out (ctx_fd c) (f (out_buf c))) cfg, c') \<and> written c' = int (length (f (out_buf c))) \<and>
    (\<forall>B now el cfg. writeHandler B now el cfg c' = Inr (cfg, c'))"
proof -
  let ?s = "f (out_buf c)"
  let ?c = "c\<lparr>out_buf := ?s, client_slots_update := slots_last_update cfg, req_start := now, latency := -1, written := int (length ?s)\<rparr>"
  have "writeHandler B now el cfg c = Inr (call_out (Write_out (ctx_fd c) ?s) cfg, ?c)"
    using assms by (simp add: writeHandler_def Let_def wrap32_small)
  moreover have "writeHandler B now el cfg ?c = Inr (cfg, ?c)" for B now el cfg using assms(4) by (simp add: writeHandler_def Let_def)
  ultimately show ?thesis by (intro exI [of _ ?c]) simp
qed

section \<open>Properties\<close>


section \<open>Witnesses\<close>

definition bench_client_ex :: bench_client where
  "bench_client_ex = \<lparr>ctx_err = 0, ctx_fd = 5, out_buf = [], thread_id = -1, client_slots_update = 0, written = 0, req_start = 0, latency = 0,
     create_content = Some (\<lambda>s. s @ ''PING'' @ crlf), write_context = Some (\<lambda>_ _ s. int (length s))\<rparr>"

definition bench_config_ex :: bench_config where
  "bench_config_ex = \<lparr>num_threads = 0, main_el = None, hostip = [], hostport = 0, threads = None, bench_clients = [], liveclients = 0, slots_last_update = 0, trace = []\<rparr>"

definition bench_lib_ex :: bench_lib where
  "bench_lib_ex = \<lparr>new_loop = (\<lambda>tr. Some (length tr)), thread_memory = (\<lambda>_. True), thread_fails = (\<lambda>_. False),
     client_memory = bench_client_ex\<lparr>create_content := None\<rparr>, error_is_epipe = False\<rparr>"


end
