(* ===== verification/Metric_Test.thy ===== *)
theory Metric_Test
  imports Metric
begin

text \<open>
  The test program of the metrics, \<open>src/experiment/metric_test.c\<close>, with the macros of \<open>testhelp.h\<close> and \<open>testassert.h\<close> it is written in. What it prints is part of the
  state (the lines of the log, which also go there, are not), and a call to \<open>exit\<close> is a result of its own.
\<close>

section \<open>The harness\<close>

record test_run =
  test_num :: nat
  failed_tests :: nat
  shown :: string

definition printf :: "string \<Rightarrow> test_run \<Rightarrow> test_run" where
  "printf s t = t\<lparr>shown := shown t @ s\<rparr>"

definition test_cond :: "string \<Rightarrow> bool \<Rightarrow> test_run \<Rightarrow> test_run" where
  "test_cond descr c t =
     (let t = t\<lparr>test_num := test_num t + 1\<rparr>;
          t = printf (dec (int (test_num t)) @ '' - '' @ descr @ '': '') t
      in if c then printf (''PASSED'' @ [LF]) t else (printf (''FAILED'' @ [LF]) t)\<lparr>failed_tests := failed_tests t + 1\<rparr>)"

text \<open>\<open>Inl c\<close> ends the program with exit code \<open>c\<close>.\<close>

definition test_report :: "test_run \<Rightarrow> int \<times> test_run + test_run" where
  "test_report t =
     (let t = printf (dec (int (test_num t)) @ '' tests, '' @ dec (int (test_num t) - int (failed_tests t)) @ '' passed, '' @ dec (int (failed_tests t)) @ '' failed'' @ [LF]) t
      in if failed_tests t \<noteq> 0 then Inl (1, printf (''=== WARNING === We have failed tests here...'' @ [LF]) t) else Inr t)"

text \<open>The macro \<open>assert\<close> makes the function it stands in return 0. \<open>place\<close> is file and line, as the compiler writes them.\<close>

definition test_assert :: "string \<Rightarrow> string \<Rightarrow> bool \<Rightarrow> test_run \<Rightarrow> test_run option" where
  "test_assert place e c t = (if c then None else Some (printf (place @ '': Failed assertion: '' @ [CHR 0x22] @ e @ [CHR 0x22, LF]) t))"

section \<open>The test\<close>

text \<open>The second component is what goes to the log. \<open>metric_delete\<close>, which frees the local metric, has no other effect.\<close>

definition test_metric :: "metric_entry dict_ops \<Rightarrow> (int \<times> string) res" where
  "test_metric Dm =
     (let m = metric_new Dm 10 in
      res_bind (metric_track_instantaneous Dm m ''test'' 100 100 10) (\<lambda>m.
      res_bind (metric_get_instantaneous Dm m ''test'') (\<lambda>value.
      Inr (1, ''value: '' @ dec value))))"

text \<open>\<open>stdout_added\<close> is what \<open>log_add_stdout\<close> returns.\<close>

definition test_api :: "metric_entry dict_ops \<Rightarrow> string \<Rightarrow> int \<Rightarrow> test_run \<Rightarrow> (int \<times> test_run + int \<times> test_run) res" where
  "test_api Dm place stdout_added t =
     (case test_assert place ''log_add_stdout(LATTE_LIB, LOG_DEBUG) == 1'' (stdout_added = 1) t of
        Some t \<Rightarrow> Inr (Inr (0, t))
      | None \<Rightarrow>
          res_bind (test_metric Dm) (\<lambda>(r, _).
          case test_report (test_cond ''async io net write'' (r = 1) t) of
            Inl e \<Rightarrow> Inr (Inl e)
          | Inr t \<Rightarrow> Inr (Inr (1, t))))"

definition metric_test_main :: "metric_entry dict_ops \<Rightarrow> string \<Rightarrow> int \<Rightarrow> (int \<times> string) res" where
  "metric_test_main Dm place stdout_added =
     res_bind (test_api Dm place stdout_added \<lparr>test_num = 0, failed_tests = 0, shown = []\<rparr>) (\<lambda>r.
     case r of Inl (c, t) \<Rightarrow> Inr (c, shown t) | Inr (_, t) \<Rightarrow> Inr (0, shown t))"

section \<open>What it shows\<close>

text \<open>One reading makes no rate, so the value that is logged is 0. The test looks at the return code only, which is always 1.\<close>

lemma test_metric_value:
  assumes "dict_laws (\<lambda>k. k) Dm"
  shows "test_metric Dm = Inr (1, ''value: 0'')"
proof -
  have inv: "metric_inv Dm (metric_new Dm 10)" and new: "nsamples (metric_new Dm 10) = 10" "metric_map (metric_new Dm 10) ''test'' = None"
    using assms by (simp_all add: metric_inv_def metric_new_def metric_map_def dict_laws_new)
  obtain m where m: "metric_track_instantaneous Dm (metric_new Dm 10) ''test'' 100 100 10 = Inr m" "metric_inv Dm m" "nsamples m = 10"
    "metric_map m ''test'' = Some (track_entry 10 None 100 100 10)"
    using metric_track_spec [OF inv, of "''test''" 100 100 10] new by auto
  have "msamples (track_entry 10 None 100 100 10) = replicate 10 0" by (simp add: track_entry_def metric_entry_new_def)
  then have "metric_get_instantaneous Dm m ''test'' = Inr 0" using metric_average_of_ring [OF m(2,4)] m(3) by (simp add: sum_list_replicate)
  moreover have "dec 0 = ''0''" by code_simp
  ultimately show ?thesis using m(1) by (simp add: test_metric_def)
qed

text \<open>The program reports one test that passed and ends with 0, whether or not the log could be opened: without a log it says so and tests nothing.\<close>

lemma metric_test_outcome:
  assumes "dict_laws (\<lambda>k. k) Dm"
  shows "metric_test_main Dm place 1 = Inr (0, ''1 - async io net write: PASSED'' @ LF # ''1 tests, 1 passed, 0 failed'' @ [LF])"
    "n \<noteq> 1 \<Longrightarrow> metric_test_main Dm place n = Inr (0, place @ '': Failed assertion: '' @ CHR 0x22 # ''log_add_stdout(LATTE_LIB, LOG_DEBUG) == 1'' @ [CHR 0x22, LF])"
proof -
  have "dec 1 = ''1''" "dec 0 = ''0''" by code_simp+
  then show "metric_test_main Dm place 1 = Inr (0, ''1 - async io net write: PASSED'' @ LF # ''1 tests, 1 passed, 0 failed'' @ [LF])"
    using test_metric_value [OF assms]
    by (simp add: metric_test_main_def test_api_def test_assert_def test_cond_def test_report_def printf_def Let_def)
  show "n \<noteq> 1 \<Longrightarrow> metric_test_main Dm place n = Inr (0, place @ '': Failed assertion: '' @ CHR 0x22 # ''log_add_stdout(LATTE_LIB, LOG_DEBUG) == 1'' @ [CHR 0x22, LF])"
    by (simp add: metric_test_main_def test_api_def test_assert_def printf_def)
qed

end
