(* ===== verification/Spec2Isabelle.thy ===== *)
theory Spec2Isabelle
  imports Clients Client_Types Evict Dict_Types Expire Benchmark Metric_Test
begin

text \<open>
  \<^bold>\<open>The latte redis server.\<close> The repository is a key-value server that speaks the Redis protocol: C code under \<open>src/src\<close>,
  linked against the library latte\_c (a git submodule whose sources are not part of it). Bytes of a connection arrive in
  the query buffer of a client; the input loop cuts them into requests, inline or multibulk, and builds an argument vector of
  reference-counted objects; the first argument is looked up in the command table and the command runs on the server
  state; replies are appended to the output of the client; the client is reset and the loop goes on. The commands SET and GET
  are not built in: they come from a module that the server loads at start and that reaches the keyspace only through the
  module API. File names below are relative to \<open>src/src\<close>.

  \<^bold>\<open>Form of the model.\<close> A C function is a HOL function that takes the parts of the state it works on and returns
  them. The result type \<open>'a res\<close> is \<open>abort + 'a\<close>: a failed assertion, a panic, \<open>redis_panic\<close> (which logs and goes on into
  \<open>__builtin_unreachable\<close>), a read through NULL, an access out of bounds or to a freed object, a pointer handed to \<open>zfree\<close> that is none of the allocator's and a division by zero are the values \<open>Inl _\<close>. Objects are shared between clients and keyspace, so they
  live in a heap (\<open>obj_heap\<close>) with their reference counts, and a freed cell stays empty. Flags are words of their width; 64-bit
  arithmetic that can overflow wraps. The time, the contents of uninitialised memory and the answers of the operating
  system are arguments, and a pointer read from such memory may be garbage (\<open>argv_ptr\<close>).

  \<^bold>\<open>Theories, in the order of the layers.\<close>

  \<^item> \<open>Prelude\<close>: the result type, strings as C reads them, decimal printing, wrap-around, truncating division.
  \<^item> \<open>Latte_C\<close>: the library as parameters: \<open>dict_ops\<close> (the dictionary), \<open>latte_c\<close> (objects, strings, numbers, the output
    buffer) with the named hypotheses \<open>dict_laws\<close>, \<open>object_laws\<close>, \<open>number_laws\<close>, \<open>sds_laws\<close>, \<open>reply_laws\<close>, \<open>flag_laws\<close>, together
    \<open>latte_c_laws\<close>, and a reference instance on which every witness runs.
  \<^item> \<open>Kv_Store\<close> (\<open>redis/db.c\<close>, \<open>kv_store_*\<close> and \<open>cumulative_key_count_add\<close>): the store of a database. Its counters and the
    binary indexed tree of sizes agree with the dictionaries in every reachable store; add, find, set and delete behave as on a
    map. The interface \<open>kv_map\<close> is interpreted on it.
  \<^item> \<open>Db\<close> (\<open>redis/db.c\<close>, \<open>db_*\<close>, \<open>expire_if_needed\<close>, \<open>init_redis_server_dbs\<close>, the LRU and LFU stamp): a database as a map of values
    and a map of deadlines, with the references of the heap in the invariant \<open>keyspace_inv\<close>; interface \<open>keyspace\<close>.
  \<^item> \<open>Key_Types\<close> (\<open>redis/db.c\<close>, the hash and compare functions of object keys): comparison and hash agree, borrowed references are
    given back; interface \<open>hashed_keys\<close>, from which the search in a bucket is a search in the table.
  \<^item> \<open>Dict_Types\<close> (the \<open>dict_func_t\<close> tables of \<open>redis/db.c\<close>, \<open>redis/module.c\<close>, \<open>redis/server.c\<close>, \<open>commands/command_manager.c\<close>, \<open>experiment/metric.c\<close>): the tables as they are written,
    and the two functions on C strings that the program gives the dictionary of the module API, which meet \<open>hashed_keys\<close>.
  \<^item> \<open>Evict\<close> (\<open>redis/evict.c\<close>) and \<open>Expire\<close> (\<open>redis/expire.c\<close>), neither of them built yet: the pool of eviction candidates against sorted insertion, and
    the fairness of the background cycle through the databases. What \<open>expire.c\<close> uses and nothing declares is the parameter \<open>expire_env\<close>.
  \<^item> \<open>Command_Table\<close> (\<open>commands/command_manager.c\<close>): flags, the built-in table, registration, lookup, ids for access control.
  \<^item> \<open>Client\<close> (\<open>redis/client.c\<close>, \<open>redis/client_reply.c\<close>, \<open>shared/shared.c\<close>): the client, its reset, every reply function; the bytes each reply
    appends, through the interface \<open>reply_channel\<close>; deferred lengths land in the place that was kept for them.
  \<^item> \<open>Slowlog\<close> (\<open>redis/slowlog.c\<close>) and \<open>Metric\<close> (\<open>experiment/metric.c\<close>): the bounded log, which trims by an invalid \<open>zfree\<close>, and the ring of samples.
  \<^item> \<open>Server\<close> (\<open>redis/server.h\<close>, \<open>redis/module.c\<close>, \<open>redis/redis_module.h\<close>, \<open>modules\<close>, \<open>module_demo\<close>): the server state, the module API and its
    dispatcher, the string commands. \<open>sys\<close> collects the library and the operating system, \<open>sys_laws\<close> their contract, \<open>srv_inv\<close> is the
    invariant of the server seen by one client.
  \<^item> \<open>Commands\<close> (\<open>commands\<close>, \<open>call\<close> and \<open>process_command\<close> of \<open>redis/client.c\<close>): the built-in commands and how a command is run.
  \<^item> \<open>Protocol\<close> (\<open>process_inline_buffer\<close>, \<open>process_multibulk_buffer\<close> of \<open>redis/client.c\<close>): the parsers. A multibulk request parses to its
    arguments however it is cut into chunks.
  \<^item> \<open>Input_Loop\<close> (\<open>redis_process_input_buffer\<close>, \<open>redis_client_handle\<close>): the loop, with termination and the inputs on which it hangs or stops; the
    choice of a parser with the parsers, which no input makes abort.
  \<^item> \<open>Client_Types\<close>: the fields of the parser stay well-formed in every life of a client (\<open>client_life\<close>), whatever arrives, so that the branch for an unknown
    kind of request is dead; and the three ways in which the first request fails when the memory of a new client is not clear.
  \<^item> \<open>Service\<close>: the specification of the commands (PING, SET, GET, EXPIRE, INFO, QUIT, MODULE where it is silent, wrong numbers of arguments included) on a map from keys to values and
    deadlines, and the proof that one command does what it says and spares the objects of everybody else.
  \<^item> \<open>Session\<close>: the refinement of that specification by the layers from the parser to the reset, for streams in which arrays and lines are mixed (\<open>framed\<close>) and of which the last request may still be incomplete
    (\<open>client_mid\<close>, \<open>serve_stream\<close>). A line is read to its end only if the uninitialised \<open>linefeed_chars\<close> is 1, which \<open>frame_ok\<close> asks for, and in a buffer of less than
    \<open>2 ^ 62\<close> bytes.
  \<^item> \<open>Startup\<close> (\<open>main.c\<close>, \<open>redis/server.c\<close>, \<open>redis_config/config.c\<close>, \<open>redis/crons.c\<close>): modes, paths, configuration (the configuration manager is the
    parameter \<open>config_lib\<close> with \<open>config_laws\<close>), periodic tasks, the start of the server, and what \<open>help.c\<close>, \<open>version.c\<close> and \<open>env.c\<close> print.
  \<^item> \<open>Clients\<close>: many clients on one server. The calls that the network layer makes (connection, bytes, writing, end of a command, disconnection, periodic task) are events, a run
    is a sequence of them; the network layer itself is the parameter \<open>net_lib\<close> with \<open>net_laws\<close>. The interface \<open>simulation\<close> carries a step-wise refinement over to runs and
    is interpreted on \<open>net_step\<close>, with \<open>net_ok\<close> as the relation: each client owns the objects of its unfinished request, and serving one leaves those of the others alone. The copies in the slow log
    belong to it (\<open>slow_args\<close>). What a new client finds in its memory is the hypothesis \<open>cleared\<close>; a run that breaks it stops (\<open>reused_record_stops\<close>).
  \<^item> \<open>Benchmark\<close> (\<open>benchmark.c\<close>): the benchmark client, with its calls to the system as a trace.
  \<^item> \<open>Metric_Test\<close> (\<open>experiment/metric_test.c\<close>, \<open>testhelp.h\<close>, \<open>testassert.h\<close>): the test program of the metrics and what it can show.
  \<^item> This theory: from the command line to the replies of all clients.

  \<^bold>\<open>Fuel.\<close> The input loop may run forever in C, so \<open>redis_process_input_buffer\<close> takes a number of turns and returns \<open>None\<close> when it is used up.
  When the uninitialised \<open>linefeed_chars\<close> of the inline parser is positive, more turns than unread bytes are enough, since every turn that
  does not leave the loop consumes at least one byte; a stream of \<open>n\<close> requests needs one turn per request that is complete and one to see the
  end, so that a run of many clients gets by with more turns per call than a connection has requests. When it happens to be 0, an empty line consumes nothing and no fuel is enough. All other loops are recursions with a
  termination proof.

  \<^bold>\<open>Defects.\<close> Where the code does not do what it means to do the model follows the code, and a theorem says what
  happens: the drifting count of non-empty dictionaries, keys with a NUL byte, the second EXPIRE, the unknown command
  after which the next request stops the server, the empty line, MODULE without a subcommand, the full slow log that
  frees a string it must not free, slow log entries without the arguments of their command, the fields that a new client does not set and that a reused record brings along, the load-module directive that moves
  half of a vector, and the benchmark client whose functions nobody sets.

  \<^bold>\<open>Not modelled.\<close> The event loop, sockets, logging and memory exhaustion; latte\_c beyond its contract; functions that only free memory of
  their own (\<open>command_manager_delete\<close>, \<open>slowlog_manager_delete\<close>, \<open>metric_delete\<close>, \<open>module_entry_delete\<close>, \<open>server_config_delete\<close>) and the allocation functions of the module API, which call the library; the body
  that \<open>redis/expire.c\<close> does not have, and \<open>crons/cron_expire.c\<close>, which breaks off in a declaration; \<open>modules/hash.c\<close>, which is empty. The text after a \<open>printf\<close> format is written out where a reply depends on it.

\<close>

section \<open>The whole program\<close>

lemma main_serves:
  assumes "sys_laws S" "module_file_at S p = File_onload Onload_latte" "NUL \<notin> set p" "config_laws C"
    "cwd \<noteq> []" "hd cwd = CHR ''/''" "heap_wf (heap rs)" "net_laws N" "\<forall>i. length (plan i) < fuel" "\<forall>j mem. Connect j mem \<in> set evs \<longrightarrow> cleared mem"
    "spec_run (spec_event (lib S) (\<forall>i k. lf i k = 1) 1048576 (128, 10000) clock plan) 0 evs \<lparr>held_keys = Map.empty, peers = Map.empty, slow_count = 0, tidy = True\<rparr> = Some \<sigma>"
  obtains d net where "main S C (Some cwd) t rs [exe, ''--load-module'', p] = Inr (Run_server (Some d), 1)"
    "net_run S N clock lf fuel evs \<lparr>net_srv = redis d, net_clients = Map.empty, wire = (\<lambda>_. [])\<rparr> = Some (Inr net)"
    "net_ok S N (dom (cells (heap rs))) (\<forall>i k. lf i k = 1) 1048576 (128, 10000) plan fuel \<sigma> net"
proof -
  let ?K = "dom (cells (heap rs))" and ?one = "\<forall>i k. lf i k = 1"
  obtain d where d: "start_redis_server S C (Some cwd) t rs [c_string exe, ''--load-module'', p] = Inr (Some d)" "table_ready S (redis d)"
    "srv_inv S (redis d) 0" "contents (redis d) 0 = Map.empty" "proto_max_bulk_len (redis d) = 1048576"
    "server_metric (redis d) = metric_new (metric_dict S) 16" "slowlog (redis d) = slowlog_manager_new 10000 128" "heap (redis d) = heap rs" "db_vals (dbs (redis d) ! 0) = Map.empty"
    by (rule start_with_latte [OF assms(1,2) c_string_id [OF assms(3)] assms(4-7)])
  have "main S C (Some cwd) t rs [exe, ''--load-module'', p] = Inr (Run_server (Some d), 1)"
    using d(1) assms(3) by (simp add: main_def parseArgv_def getMode_def Let_def)
  moreover have "net_ok S N ?K ?one 1048576 (128, 10000) plan fuel \<lparr>held_keys = Map.empty, peers = Map.empty, slow_count = 0, tidy = True\<rparr>
      \<lparr>net_srv = redis d, net_clients = Map.empty, wire = (\<lambda>_. [])\<rparr>"
    using net_ok_start [OF d(3,2,6), of "(128, 10000)" 1048576 N plan fuel] d(4,5,7-9) assms(8,9) by simp
  moreover have "list_all memory_cleared evs" using assms(10) by (auto simp: list_all_iff memory_cleared_iff)
  from net.run_simulates [OF calculation(2) this assms(11)] obtain net where
    "net_run S N clock lf fuel evs \<lparr>net_srv = redis d, net_clients = Map.empty, wire = (\<lambda>_. [])\<rparr> = Some (Inr net)" "net_ok S N ?K ?one 1048576 (128, 10000) plan fuel \<sigma> net"
    by (auto simp: net_run_def)
  ultimately show thesis using that by blast
qed

text \<open>
  C1. From the command line to the replies: started with an option that loads the string module, the program comes up without a failed assertion. Then clients
  connect to it, and each sends a sequence of requests for PING, SET, GET, EXPIRE, INFO, QUIT and the silent sub-commands of MODULE within the limits of the protocol, arrays or, if the uninitialised counter of
  line feeds holds a 1, lines; the bytes of every connection arrive cut anywhere, those of different connections in any order, while the server writes replies, runs its periodic tasks and the hook at the end
  of a command, and clients leave in the middle of a request. Three conditions are put on such a run: the memory that \<open>zmalloc\<close> hands out for a client reads as a client at rest in the fields that
  \<open>create_redis_client\<close> does not set (\<open>cleared\<close>), which nothing in the program ensures; the hook runs for clients that have been answered, perhaps with the next request read in part; and it finds at most
  10000 commands that took more than 128 microseconds, the room in the slow log. Then no run stops the server or keeps it in a loop; every connection has got exactly the replies that the specification gives
  for its requests, each served when its last byte arrives and none after a QUIT, and the keyspace ends up as specified.
\<close>

theorem server_serves_all_clients:
  assumes "sys_laws S" "module_file_at S p = File_onload Onload_latte" "NUL \<notin> set p" "config_laws C"
    "cwd \<noteq> []" "hd cwd = CHR ''/''" "heap_wf (heap rs)" "net_laws N" "\<forall>i. length (plan i) < fuel" "\<forall>j mem. Connect j mem \<in> set evs \<longrightarrow> cleared mem"
    "spec_run (spec_event (lib S) (\<forall>i k. lf i k = 1) 1048576 (128, 10000) clock plan) 0 evs \<lparr>held_keys = Map.empty, peers = Map.empty, slow_count = 0, tidy = True\<rparr> = Some \<sigma>"
  shows "\<exists>d net. main S C (Some cwd) t rs [exe, ''--load-module'', p] = Inr (Run_server (Some d), 1) \<and>
    net_run S N clock lf fuel evs \<lparr>net_srv = redis d, net_clients = Map.empty, wire = (\<lambda>_. [])\<rparr> = Some (Inr net) \<and>
    contents (net_srv net) 0 = held_keys \<sigma> \<and>
    (\<forall>j c. peers \<sigma> j = Some c \<longrightarrow> (\<exists>rc. net_clients net j = Some rc \<and> wire net j @ sent rc = answered c))"
proof -
  obtain d net where "main S C (Some cwd) t rs [exe, ''--load-module'', p] = Inr (Run_server (Some d), 1)"
    "net_run S N clock lf fuel evs \<lparr>net_srv = redis d, net_clients = Map.empty, wire = (\<lambda>_. [])\<rparr> = Some (Inr net)"
    "net_ok S N (dom (cells (heap rs))) (\<forall>i k. lf i k = 1) 1048576 (128, 10000) plan fuel \<sigma> net"
    by (rule main_serves [OF assms, of t exe])
  then show ?thesis using net_ok_shows(1) net_ok_shows(2) by meson
qed

text \<open>
  C2. The memory of the objects is exact: after a run under the same three conditions, on the memory of new clients, on the hook at the end of a command and on the room in the slow log, in which clients
  leave between requests only, the objects that were allocated since the start and are still there are exactly the stored values, the arguments of unfinished requests and the copies in the slow log, and each of them
  has exactly one reference. No request, no overwritten or expired value, no error reply and no QUIT leaves an object behind, and none is freed while something refers to it.
\<close>

theorem server_loses_no_object:
  assumes "sys_laws S" "module_file_at S p = File_onload Onload_latte" "NUL \<notin> set p" "config_laws C"
    "cwd \<noteq> []" "hd cwd = CHR ''/''" "heap_wf (heap rs)" "net_laws N" "\<forall>i. length (plan i) < fuel" "\<forall>j mem. Connect j mem \<in> set evs \<longrightarrow> cleared mem"
    "spec_run (spec_event (lib S) (\<forall>i k. lf i k = 1) 1048576 (128, 10000) clock plan) 0 evs \<lparr>held_keys = Map.empty, peers = Map.empty, slow_count = 0, tidy = True\<rparr> = Some \<sigma>" "tidy \<sigma>"
  shows "\<exists>d net. main S C (Some cwd) t rs [exe, ''--load-module'', p] = Inr (Run_server (Some d), 1) \<and>
    net_run S N clock lf fuel evs \<lparr>net_srv = redis d, net_clients = Map.empty, wire = (\<lambda>_. [])\<rparr> = Some (Inr net) \<and>
    dom (cells (heap (net_srv net))) - dom (cells (heap rs)) =
      ran (db_vals (dbs (net_srv net) ! 0)) \<union> (\<Union>rc \<in> ran (net_clients net). set (pend rc)) \<union> slow_args (net_srv net) \<and>
    (\<forall>a \<in> dom (cells (heap (net_srv net))) - dom (cells (heap rs)). \<exists>obj. cells (heap (net_srv net)) a = Some obj \<and> refcount obj = 1)"
proof -
  obtain d net where n: "main S C (Some cwd) t rs [exe, ''--load-module'', p] = Inr (Run_server (Some d), 1)"
    "net_run S N clock lf fuel evs \<lparr>net_srv = redis d, net_clients = Map.empty, wire = (\<lambda>_. [])\<rparr> = Some (Inr net)"
    "net_ok S N (dom (cells (heap rs))) (\<forall>i k. lf i k = 1) 1048576 (128, 10000) plan fuel \<sigma> net"
    by (rule main_serves [OF assms(1-11), of t exe])
  note m = net_ok_memory [OF n(3) assms(12)]
  have "\<forall>a \<in> dom (cells (heap (net_srv net))) - dom (cells (heap rs)). \<exists>obj. cells (heap (net_srv net)) a = Some obj \<and> refcount obj = 1"
    unfolding m using net_ok_counts [OF n(3)] by blast
  then show ?thesis using n(1,2) m unfolding held_def by blast
qed

section \<open>Witnesses\<close>

definition memory_ex :: redis_client where
  "memory_ex = visitor ''left over''"

text \<open>
  One client reads a key, in a line, while another is in the middle of setting it; the first is answered slowly while it has sent a part of its next request, reads the key again, takes leave, and sends
  a request that is ignored.
\<close>

definition evs_ex :: "net_event list" where
  "evs_ex = [Connect 1 memory_ex, Connect 2 memory_ex, Receive 1 (take 9 (request [''set'', ''a'', ''1''])), Receive 2 (''get a'' @ crlf @ take 13 (request [''get'', ''a''])),
     Receive 1 (drop 9 (request [''set'', ''a'', ''1''])), Answered 2 100 300 7 None ''peer'', Write 2, Receive 2 (drop 13 (request [''get'', ''a''])), Tick 7 Update_metric_cron, Receive 2 (''quit'' @ crlf),
     Receive 2 (''ping'' @ crlf), Answered 2 310 320 8 None ''peer'', Disconnect 1]"

definition plan_ex :: "nat \<Rightarrow> framed list" where
  "plan_ex i = (if i = 0 then [Multi [''set'', ''a'', ''1'']] else [Line [''get'', ''a''], Multi [''get'', ''a''], Line [''quit''], Line [''ping'']])"

lemma requests_ex:
  "request [''set'', ''a'', ''1''] = ''*3'' @ crlf @ ''$3'' @ crlf @ ''set'' @ crlf @ ''$1'' @ crlf @ ''a'' @ crlf @ ''$1'' @ crlf @ ''1'' @ crlf"
  "request [''get'', ''a''] = ''*2'' @ crlf @ ''$3'' @ crlf @ ''get'' @ crlf @ ''$1'' @ crlf @ ''a'' @ crlf"
proof -
  have "dec 1 = ''1''" "dec 2 = ''2''" "dec 3 = ''3''" by code_simp+
  then show "request [''set'', ''a'', ''1''] = ''*3'' @ crlf @ ''$3'' @ crlf @ ''set'' @ crlf @ ''$1'' @ crlf @ ''a'' @ crlf @ ''$1'' @ crlf @ ''1'' @ crlf"
    "request [''get'', ''a''] = ''*2'' @ crlf @ ''$3'' @ crlf @ ''get'' @ crlf @ ''$1'' @ crlf @ ''a'' @ crlf"
    by (simp_all add: request_eq)
qed

lemma spec_run_ex:
  "spec_run (spec_event latte_c_ref True 1048576 (128, 10000) (\<lambda>i k. int (10 * i + k)) plan_ex) 0 evs_ex \<lparr>held_keys = Map.empty, peers = Map.empty, slow_count = 0, tidy = True\<rparr> =
     Some \<lparr>held_keys = [''a'' \<mapsto> (''1'', None)], peers = [2 \<mapsto> \<lparr>todo = [Line [''ping'']], to_come = [], answered = ''*-1'' @ crlf @ ''$1'' @ crlf @ ''1'' @ crlf @ ''+OK'' @ crlf, gone = True\<rparr>], slow_count = 1, tidy = True\<rparr>"
proof -
  have low: "to_lower CHR ''s'' = CHR ''s''" "to_lower CHR ''e'' = CHR ''e''" "to_lower CHR ''t'' = CHR ''t''" "to_lower CHR ''g'' = CHR ''g''"
    "to_lower CHR ''q'' = CHR ''q''" "to_lower CHR ''u'' = CHR ''u''" "to_lower CHR ''i'' = CHR ''i''" "dec 1 = ''1''"
    by code_simp+
  have plain: "plain_word ''get''" "plain_word ''a''" "plain_word ''quit''" "plain_word ''ping''" by (simp_all add: plain_word_def plain_char_def)
  let ?m = "[''a'' \<mapsto> (''1'', None)] :: keyspace"
  have r: "spec_session latte_c_ref clock i [[''set'', ''a'', ''1'']] Map.empty = Some (?m, ''+OK'' @ crlf)"
    "spec_session latte_c_ref clock i [[''get'', ''a'']] Map.empty = Some (Map.empty, ''*-1'' @ crlf)"
    "spec_session latte_c_ref clock i [[''get'', ''a'']] ?m = Some (?m, ''$1'' @ crlf @ ''1'' @ crlf)"
    "spec_session latte_c_ref clock i [[''quit'']] ?m = Some (?m, ''+OK'' @ crlf)" for clock i
    by (simp_all add: spec_request_def spec_command_def quits_def spec_set_def spec_get_def purge_def low)
  have q: "\<not> quits [''set'', ''a'', ''1'']" "\<not> quits [''get'', ''a'']" "quits [''quit'']" by (simp_all add: quits_def low)
  note step = spec_event_def plan_ex_def requests_ex Let_def
  show ?thesis unfolding evs_ex_def
    by (simp add: at_rest_def step plain wrap64_def PROTO_INLINE_MAX_SIZE_def request_ok_def r q fun_upd_twist del: spec_session.simps(2))
qed

lemma run_ex:
  "module_file_at sys_ref ''latte.so'' = File_onload Onload_latte" "NUL \<notin> set ''latte.so''" "''/srv'' \<noteq> []" "hd ''/srv'' = CHR ''/''"
  "heap_wf (heap (server_w ''k''))" "\<forall>i. length (plan_ex i) < 5"
  "\<forall>j mem. Connect j mem \<in> set evs_ex \<longrightarrow> cleared mem"
  "spec_run (spec_event (lib sys_ref) (\<forall>(i::nat) (k::nat). (1::int) = 1) 1048576 (128, 10000) (\<lambda>i k. int (10 * i + k)) plan_ex) 0 evs_ex
     \<lparr>held_keys = Map.empty, peers = Map.empty, slow_count = 0, tidy = True\<rparr> =
   Some \<lparr>held_keys = [''a'' \<mapsto> (''1'', None)],
     peers = [2 \<mapsto> \<lparr>todo = [Line [''ping'']], to_come = [], answered = ''*-1'' @ crlf @ ''$1'' @ crlf @ ''1'' @ crlf @ ''+OK'' @ crlf, gone = True\<rparr>], slow_count = 1, tidy = True\<rparr>"
  using heap_w_cells(5) spec_run_ex by (simp_all add: sys_ref_def plan_ex_def evs_ex_def cleared_def memory_ex_def visitor_def reader_ex_def set_buf_def client_ex_def)

theorem server_serves_all_clients_witness:
  "\<exists>d net rc. main sys_ref config_ref (Some ''/srv'') 0 (server_w ''k'') [''./latte'', ''--load-module'', ''latte.so''] = Inr (Run_server (Some d), 1) \<and>
     net_run sys_ref net_ref (\<lambda>i k. int (10 * i + k)) (\<lambda>_ _. 1) 5 evs_ex \<lparr>net_srv = redis d, net_clients = Map.empty, wire = (\<lambda>_. [])\<rparr> = Some (Inr net) \<and>
     contents (net_srv net) 0 = [''a'' \<mapsto> (''1'', None)] \<and>
     net_clients net 2 = Some rc \<and> wire net 2 @ sent rc = ''*-1'' @ crlf @ ''$1'' @ crlf @ ''1'' @ crlf @ ''+OK'' @ crlf"
proof -
  from server_serves_all_clients [OF sys_ref_laws run_ex(1,2) config_ref_laws run_ex(3-5) net_ref_laws run_ex(6-8), of 0 "''./latte''"]
  obtain d net where s: "main sys_ref config_ref (Some ''/srv'') 0 (server_w ''k'') [''./latte'', ''--load-module'', ''latte.so''] = Inr (Run_server (Some d), 1)"
    "net_run sys_ref net_ref (\<lambda>i k. int (10 * i + k)) (\<lambda>_ _. 1) 5 evs_ex \<lparr>net_srv = redis d, net_clients = Map.empty, wire = (\<lambda>_. [])\<rparr> = Some (Inr net)"
    "contents (net_srv net) 0 = [''a'' \<mapsto> (''1'', None)]" "\<exists>rc. net_clients net 2 = Some rc \<and> wire net 2 @ sent rc = ''*-1'' @ crlf @ ''$1'' @ crlf @ ''1'' @ crlf @ ''+OK'' @ crlf"
    by force
  then show ?thesis by blast
qed

theorem server_loses_no_object_witness:
  "\<exists>d net. main sys_ref config_ref (Some ''/srv'') 0 (server_w ''k'') [''./latte'', ''--load-module'', ''latte.so''] = Inr (Run_server (Some d), 1) \<and>
     net_run sys_ref net_ref (\<lambda>i k. int (10 * i + k)) (\<lambda>_ _. 1) 5 evs_ex \<lparr>net_srv = redis d, net_clients = Map.empty, wire = (\<lambda>_. [])\<rparr> = Some (Inr net) \<and>
     dom (cells (heap (net_srv net))) - dom (cells (heap (server_w ''k''))) =
       ran (db_vals (dbs (net_srv net) ! 0)) \<union> (\<Union>rc \<in> ran (net_clients net). set (pend rc)) \<union> slow_args (net_srv net)"
  using server_loses_no_object [OF sys_ref_laws run_ex(1,2) config_ref_laws run_ex(3-5) net_ref_laws run_ex(6-8), of 0 "''./latte''"] by auto

end
